(* ===== verification/SSR_Prelude.thy ===== *)
theory SSR_Prelude
  imports Main "HOL-Library.Word"
begin

text \<open>
  Shared vocabulary of the development: the machine types of the Rust sources, the error
  values that stand for the \<open>anyhow\<close> errors of the code, byte slices, little- and
  big-endian integers, and the lemma collections the component theories draw on.

  A Rust \<open>&[u8]\<close> or \<open>Vec<u8>\<close> is a \<open>bytes\<close>, a Rust \<open>String\<close> is a \<open>string\<close>
  holding the UTF-8 bytes of the text (so \<open>str_bytes\<close> is \<open>as_bytes\<close>), \<open>usize\<close>
  lengths are \<open>nat\<close>, and integers whose width matters are words.
\<close>

unbundle bit_operations_syntax

type_synonym byte = "8 word"
type_synonym bytes = "byte list"
type_synonym u16 = "16 word"
type_synonym u32 = "32 word"
type_synonym u64 = "64 word"
type_synonym u128 = "128 word"

text \<open>One constructor per \<open>bail!\<close> / \<open>anyhow!\<close> site, carrying the values the message prints.\<close>

datatype error =
    CheckHeadMismatch
  | AuthHmacMismatch
  | BadAuthLength nat
  | AuthChecksumMismatch
  | RndLenOverrun nat
  | DataLengthMac
  | BadDataLength nat
  | DataChecksumMismatch
  | DataPaddingOverrun
  | UdpTooShort nat
  | UdpHmacMismatch
  | UdpShorterThanIv nat
  | EncryptBeforeHandshake
  | RandomFailure
  | UnsupportedCipher string
  | UnsupportedProfile string string string
  | NonUtf8Domain
  | UnsupportedAtyp nat
  | ConfigInvalid string
  | PanelRequest string
  | PanelRet string int string
  | TooManyUsers nat nat
  | Io string
  | HandshakeIdle
  | HandshakeTooLong
  | NoTrafficCounter u64
  | NoConnCounter u64
  | InitialMatched
  | PortForbidden u16
  | ResolveFailed string u16
  | DidNotResolve string u16
  | OnlyForbidden string u16
  | ConnectFailed string u16
  | SessionIdle
  | WriteIdle
  | UdpHeaderIncomplete
  | Panic

type_synonym 'a result = "error + 'a"

subsection \<open>Slices\<close>

text \<open>\<open>&xs[i..j]\<close>; every use in the model is guarded so that \<open>i \<le> j \<le> xs.len()\<close>.\<close>

definition subslice :: "nat \<Rightarrow> nat \<Rightarrow> 'a list \<Rightarrow> 'a list" where
  "subslice i j xs = take (j - i) (drop i xs)"

definition str_bytes :: "string \<Rightarrow> bytes" where
  "str_bytes s = map (\<lambda>c. word_of_nat (of_char c)) s"

definition bytes_str :: "bytes \<Rightarrow> string" where
  "bytes_str b = map (\<lambda>x. char_of (unat x)) b"

subsection \<open>Integers on the wire\<close>

fun le_nat :: "bytes \<Rightarrow> nat" where
  "le_nat [] = 0"
| "le_nat (b # bs) = unat b + 256 * le_nat bs"

fun le_bytes :: "nat \<Rightarrow> nat \<Rightarrow> bytes" where
  "le_bytes 0 v = []"
| "le_bytes (Suc n) v = word_of_nat v # le_bytes n (v div 256)"

definition be_nat :: "bytes \<Rightarrow> nat" where
  "be_nat bs = le_nat (rev bs)"

definition be_bytes :: "nat \<Rightarrow> nat \<Rightarrow> bytes" where
  "be_bytes n v = rev (le_bytes n v)"

named_theorems slice_simps \<open>how slices meet append, take and length\<close>
named_theorems wire_simps \<open>round trips and widths of integers on the wire\<close>

lemma length_slice [slice_simps]: "j \<le> length xs \<Longrightarrow> length (subslice i j xs) = j - i"
  by (simp add: subslice_def)

lemma slice_append_left [slice_simps]:
  "j \<le> length xs \<Longrightarrow> subslice i j (xs @ ys) = subslice i j xs"
  by (cases "i \<le> j") (simp_all add: subslice_def)

lemma slice_0 [slice_simps]: "subslice 0 j xs = take j xs"
  by (simp add: subslice_def)

lemma slice_append_exact [slice_simps]:
  "i = length xs \<Longrightarrow> j = length xs + length ys \<Longrightarrow> subslice i j (xs @ ys @ zs) = ys"
  by (simp add: subslice_def)

lemma slice_append_end [slice_simps]:
  "i = length xs \<Longrightarrow> j = length xs + length ys \<Longrightarrow> subslice i j (xs @ ys) = ys"
  by (simp add: subslice_def)

lemma unat_byte_bound [simp]: "unat (b :: byte) < 256"
  using unsigned_less [of b] by simp

lemma unat_byte_of_nat: "unat (word_of_nat v :: byte) = v mod 256"
  by (simp add: unat_of_nat)

lemma bytes_str_bytes [simp]: "str_bytes (bytes_str b) = b"
  by (induction b) (simp_all add: str_bytes_def bytes_str_def)

lemma str_bytes_str [simp]: "bytes_str (str_bytes s) = s"
proof (induction s)
  case (Cons c s)
  have "of_char c < (256 :: nat)" by simp
  then have "char_of (unat (word_of_nat (of_char c) :: byte)) = c"
    by (simp add: unat_byte_of_nat)
  with Cons show ?case by (simp add: str_bytes_def bytes_str_def)
qed (simp add: str_bytes_def bytes_str_def)

lemma length_le_bytes [simp]: "length (le_bytes n v) = n"
  by (induction n arbitrary: v) simp_all

lemma le_bytes_numeral:
  "le_bytes (numeral k) v = word_of_nat v # le_bytes (pred_numeral k) (v div 256)"
  by (subst numeral_eq_Suc) (rule le_bytes.simps)

lemma le_nat_le_bytes [wire_simps]: "le_nat (le_bytes n v) = v mod 256 ^ n"
proof (induction n arbitrary: v)
  case 0
  then show ?case by simp
next
  case (Suc n)
  have "v mod 256 + 256 * (v div 256 mod 256 ^ n) = v mod (256 * 256 ^ n)"
    by (simp add: mod_mult2_eq)
  with Suc show ?case by (simp add: unat_byte_of_nat)
qed

lemma le_nat_bound: "le_nat bs < 256 ^ length bs"
proof (induction bs)
  case (Cons b bs)
  have "unat b < 256" by simp
  with Cons show ?case unfolding le_nat.simps list.size power_Suc power_add by (simp, linarith)
qed simp

lemma le_bytes_le_nat [wire_simps]: "n = length bs \<Longrightarrow> le_bytes n (le_nat bs) = bs"
proof (induction bs arbitrary: n)
  case (Cons b bs)
  have b: "unat b < 256" by simp
  have "word_of_nat (unat b + 256 * le_nat bs) = b"
    by (rule word_unat_eq_iff [THEN iffD2]) (use b in \<open>simp add: unat_byte_of_nat del: of_nat_add\<close>)
  with Cons b show ?case by (simp del: of_nat_add)
qed simp

lemma be_nat_be_bytes [wire_simps]: "be_nat (be_bytes n v) = v mod 256 ^ n"
  by (simp add: be_nat_def be_bytes_def wire_simps)

lemma length_be_bytes [simp]: "length (be_bytes n v) = n"
  by (simp add: be_bytes_def)

lemma be_nat_bound: "be_nat bs < 256 ^ length bs"
  using le_nat_bound [of "rev bs"] by (simp add: be_nat_def)

lemma be_bytes_be_nat [wire_simps]: "n = length bs \<Longrightarrow> be_bytes n (be_nat bs) = bs"
  by (simp add: be_nat_def be_bytes_def wire_simps)

end
