(* ===== verification/Ssr_Kdf.thy ===== *)
theory Ssr_Kdf
  imports SSR_Prelude
begin

text \<open>
  \<^verbatim>\<open>src/src/ssr/kdf.rs\<close>: key derivation and MAC helpers. The primitives of the
  RustCrypto crates (MD5, HMAC-MD5, AES-128, base64, ChaCha20) are not part of the
  repository; they are the fields of a record \<open>crypto\<close> that every definition takes as an
  argument. \<open>crypto_ok\<close> names the documented behaviour the code relies on: digest
  and block sizes, AES decryption inverting encryption, ChaCha20 accepting a 32-byte key
  and a 12-byte nonce, and ChaCha20 being a keystream XOR that continues across calls.
\<close>

record 'cc crypto =
  md5_digest :: "bytes \<Rightarrow> bytes"
  hmac_md5 :: "bytes \<Rightarrow> bytes \<Rightarrow> bytes"
  base64_encode :: "bytes \<Rightarrow> bytes"
  aes128_encrypt :: "bytes \<Rightarrow> bytes \<Rightarrow> bytes"
  aes128_decrypt :: "bytes \<Rightarrow> bytes \<Rightarrow> bytes"
  chacha20_new :: "bytes \<Rightarrow> bytes \<Rightarrow> 'cc option"
  chacha20_apply :: "'cc \<Rightarrow> bytes \<Rightarrow> 'cc \<times> bytes"

definition aes_ok :: "'cc crypto \<Rightarrow> bool" where
  "aes_ok C \<longleftrightarrow> (\<forall>k b. length k = 16 \<longrightarrow> length b = 16 \<longrightarrow>
     length (aes128_encrypt C k b) = 16 \<and> aes128_decrypt C k (aes128_encrypt C k b) = b)"

definition chacha_ok :: "'cc crypto \<Rightarrow> bool" where
  "chacha_ok C \<longleftrightarrow>
     (\<forall>k n. length k = 32 \<longrightarrow> length n = 12 \<longrightarrow> chacha20_new C k n \<noteq> None) \<and>
     (\<forall>s xs ys. chacha20_apply C s (xs @ ys) =
        (let (s1, a) = chacha20_apply C s xs; (s2, b) = chacha20_apply C s1 ys in (s2, a @ b))) \<and>
     (\<forall>s. chacha20_apply C s [] = (s, [])) \<and>
     (\<forall>s xs. length (snd (chacha20_apply C s xs)) = length xs) \<and>
     (\<forall>s xs. chacha20_apply C s (snd (chacha20_apply C s xs)) = (fst (chacha20_apply C s xs), xs))"

definition crypto_ok :: "'cc crypto \<Rightarrow> bool" where
  "crypto_ok C \<longleftrightarrow>
     (\<forall>d. length (md5_digest C d) = 16) \<and>
     (\<forall>k d. length (hmac_md5 C k d) = 16) \<and> aes_ok C \<and> chacha_ok C"

subsection \<open>EVP\_BytesToKey\<close>

text \<open>The \<open>while key.len() < key_len\<close> loop: \<open>key\<close> and \<open>prev\<close> are its variables. Every
  round appends one 16-byte digest, so \<open>key_len\<close> rounds are always enough; a digest that
  is empty would make the Rust loop spin, which the fuel argument makes visible as \<open>None\<close>.\<close>

fun evp_loop :: "'cc crypto \<Rightarrow> bytes \<Rightarrow> nat \<Rightarrow> nat \<Rightarrow> bytes \<Rightarrow> bytes \<Rightarrow> bytes option" where
  "evp_loop C password key_len 0 key prev = (if length key < key_len then None else Some key)"
| "evp_loop C password key_len (Suc fuel) key prev =
     (if length key < key_len then
        let prev' = md5_digest C (prev @ password)
        in evp_loop C password key_len fuel (key @ prev') prev'
      else Some key)"

definition evp_bytes_to_key :: "'cc crypto \<Rightarrow> bytes \<Rightarrow> nat \<Rightarrow> bytes" where
  "evp_bytes_to_key C password key_len =
     (case evp_loop C password key_len key_len [] [] of
        Some key \<Rightarrow> take key_len key
      | None \<Rightarrow> [])"

definition md5 :: "'cc crypto \<Rightarrow> bytes \<Rightarrow> bytes" where
  "md5 C data = md5_digest C data"

definition hmac_md5_prefix :: "'cc crypto \<Rightarrow> bytes \<Rightarrow> bytes \<Rightarrow> nat \<Rightarrow> bytes" where
  "hmac_md5_prefix C key data n = take n (hmac_md5 C key data)"

subsection \<open>A concrete instance\<close>

text \<open>A small instance that satisfies \<open>crypto_ok\<close>; only witnesses use it.\<close>

definition sample_crypto :: "nat crypto" where
  "sample_crypto = \<lparr>
     md5_digest = (\<lambda>d. take 16 (d @ replicate 16 7)),
     hmac_md5 = (\<lambda>k d. take 16 (rev d @ k @ replicate 16 9)),
     base64_encode = (\<lambda>d. d),
     aes128_encrypt = (\<lambda>k b. rev b),
     aes128_decrypt = (\<lambda>k b. rev b),
     chacha20_new = (\<lambda>k n. if length k = 32 \<and> length n = 12 then Some 0 else None),
     chacha20_apply = (\<lambda>s xs. (s + length xs, map (\<lambda>b. b XOR 85) xs))\<rparr>"

subsection \<open>Lemmas\<close>

lemma crypto_okD:
  assumes "crypto_ok C"
  shows "length (md5_digest C d) = 16" and "length (hmac_md5 C k d) = 16"
    and "aes_ok C" and "chacha_ok C"
  using assms by (auto simp: crypto_ok_def)

lemma aes_okD:
  assumes "aes_ok C" "length k = 16" "length b = 16"
  shows "length (aes128_encrypt C k b) = 16" "aes128_decrypt C k (aes128_encrypt C k b) = b"
  using assms by (auto simp: aes_ok_def)

lemma xor_byte_self: "(b XOR k) XOR k = (b :: byte)"
  by (simp add: xor.assoc)

lemma sample_crypto_ok: "crypto_ok sample_crypto"
  by (auto simp: crypto_ok_def aes_ok_def chacha_ok_def sample_crypto_def xor_byte_self comp_def)

lemma length_hmac_md5_prefix [simp]:
  "crypto_ok C \<Longrightarrow> n \<le> 16 \<Longrightarrow> length (hmac_md5_prefix C k d n) = n"
  by (simp add: hmac_md5_prefix_def crypto_okD)

lemma length_md5 [simp]: "crypto_ok C \<Longrightarrow> length (md5 C d) = 16"
  by (simp add: md5_def crypto_okD)

lemma evp_loop_Some:
  assumes "crypto_ok C" "key_len \<le> length key + fuel"
  shows "\<exists>rest. evp_loop C password key_len fuel key prev = Some (key @ rest) \<and>
           key_len \<le> length key + length rest"
  using assms(2)
proof (induction fuel arbitrary: key prev)
  case 0
  then show ?case by simp
next
  case (Suc fuel)
  let ?p = "md5_digest C (prev @ password)"
  have "key_len \<le> length (key @ ?p) + fuel" using Suc.prems assms(1) by (simp add: crypto_okD)
  from Suc.IH [OF this] obtain rest where
    "evp_loop C password key_len fuel (key @ ?p) ?p = Some ((key @ ?p) @ rest)"
    "key_len \<le> length (key @ ?p) + length rest" by blast
  then show ?case by (cases "length key < key_len") (auto simp: Let_def)
qed

lemma length_evp_bytes_to_key [simp]:
  assumes "crypto_ok C"
  shows "length (evp_bytes_to_key C password n) = n"
  using evp_loop_Some [OF assms, of n "[]" n password "[]"] by (auto simp: evp_bytes_to_key_def)

text \<open>More fuel, or a larger target length, only extends the key material: the digest chain
  itself does not depend on how much of it is asked for.\<close>

lemma evp_loop_extends:
  "evp_loop C password m fuel key prev = Some b \<Longrightarrow> \<exists>c. b = key @ c"
proof (induction fuel arbitrary: key prev)
  case 0
  then show ?case by (simp split: if_splits)
next
  case (Suc fuel)
  then show ?case by (fastforce simp: Let_def split: if_splits)
qed

lemma evp_loop_prefix:
  assumes "n \<le> m"
    and "evp_loop C password n f key prev = Some a" "evp_loop C password m g key prev = Some b"
  shows "\<exists>c. b = a @ c"
  using assms(2,3)
proof (induction f arbitrary: g key prev)
  case 0
  then have "a = key" by (simp split: if_splits)
  with 0 show ?case using evp_loop_extends by blast
next
  case (Suc f)
  show ?case
  proof (cases "length key < n")
    case True
    with assms(1) have "length key < m" by simp
    with Suc.prems(2) obtain g' where "g = Suc g'" by (cases g) auto
    with Suc.prems True \<open>length key < m\<close> show ?thesis
      by (auto simp: Let_def intro: Suc.IH)
  next
    case False
    with Suc.prems have "a = key" by simp
    with Suc.prems show ?thesis using evp_loop_extends by blast
  qed
qed

subsection \<open>Properties\<close>

text \<open>Key derivation returns exactly the requested number of bytes for every password, and
  it is prefix-stable: the key derived for a shorter length is the front of the key derived
  for a longer one (so the 16-byte rc4-md5 key of a password is the first half of its 32-byte
  chacha20-ietf key). Relies on MD5 producing 16 bytes.\<close>

theorem evp_bytes_to_key_prefix_stable:
  assumes "crypto_ok C" "n \<le> m"
  shows "length (evp_bytes_to_key C password m) = m \<and>
         take n (evp_bytes_to_key C password m) = evp_bytes_to_key C password n"
proof -
  obtain a where a: "evp_loop C password n n [] [] = Some a" "n \<le> length a"
    using evp_loop_Some [OF assms(1), of n "[]" n password "[]"] by auto
  obtain b where b: "evp_loop C password m m [] [] = Some b"
    using evp_loop_Some [OF assms(1), of m "[]" m password "[]"] by auto
  obtain c where "b = a @ c" using evp_loop_prefix [OF assms(2) a(1) b] by blast
  then have "take n (take m b) = take n a" using a(2) assms(2) by (simp add: min_def)
  with a b show ?thesis using assms(1) by (simp add: evp_bytes_to_key_def [of C password n]
      evp_bytes_to_key_def [of C password m] min_def) (metis length_evp_bytes_to_key
      evp_bytes_to_key_def length_take min_def option.simps(5))
qed

theorem evp_bytes_to_key_prefix_stable_witness:
  "crypto_ok sample_crypto \<and> (16::nat) \<le> 32 \<and>
   length (evp_bytes_to_key sample_crypto [1, 2, 3] 32) = 32 \<and>
   take 16 (evp_bytes_to_key sample_crypto [1, 2, 3] 32) = evp_bytes_to_key sample_crypto [1, 2, 3] 16"
  using evp_bytes_to_key_prefix_stable [OF sample_crypto_ok, of 16 32 "[1, 2, 3]"] sample_crypto_ok
  by simp

end
