(* ===== verification/Keystream.thy ===== *)
theory Keystream
  imports SSR_Prelude
begin

text \<open>
  The contract of a stream cipher as the connection code uses it: \<open>process\<close> XORs a buffer
  with the next bytes of a running keystream. The laws are what a client of the cipher may
  rely on; the lemmas of the locale say that neither side of a connection can observe how
  the byte stream was cut into buffers, and that decrypting with a fresh copy of the
  sender's state gives the plaintext back.
\<close>

text \<open>Feeding a list of inputs one after the other, concatenating the outputs.\<close>

fun feed :: "('s \<Rightarrow> bytes \<Rightarrow> 's \<times> bytes) \<Rightarrow> 's \<Rightarrow> bytes list \<Rightarrow> 's \<times> bytes" where
  "feed f s [] = (s, [])"
| "feed f s (x # xs) = (let (s1, a) = f s x; (s2, b) = feed f s1 xs in (s2, a @ b))"

locale keystream_cipher =
  fixes process :: "'s \<Rightarrow> bytes \<Rightarrow> 's \<times> bytes"
    and usable :: "'s \<Rightarrow> bool"
  assumes process_nil: "usable s \<Longrightarrow> process s [] = (s, [])"
    and process_append: "usable s \<Longrightarrow> process s (xs @ ys) =
          (let (s1, a) = process s xs; (s2, b) = process s1 ys in (s2, a @ b))"
    and process_length: "usable s \<Longrightarrow> length (snd (process s xs)) = length xs"
    and process_symmetric: "usable s \<Longrightarrow>
          process s (snd (process s xs)) = (fst (process s xs), xs)"
    and usable_process: "usable s \<Longrightarrow> usable (fst (process s xs))"
begin

lemma feed_concat: "usable s \<Longrightarrow> feed process s cs = process s (concat cs)"
proof (induction cs arbitrary: s)
  case Nil
  then show ?case by (simp add: process_nil)
next
  case (Cons c cs)
  have "feed process (fst (process s c)) cs = process (fst (process s c)) (concat cs)"
    by (rule Cons.IH) (rule usable_process [OF Cons.prems])
  then show ?case using Cons.prems
    by (simp add: process_append case_prod_beta Let_def)
qed

lemma rechunk_roundtrip:
  assumes "usable s" "concat ds = snd (feed process s cs)"
  shows "feed process s ds = (fst (feed process s cs), concat cs)"
proof -
  have "feed process s ds = process s (snd (process s (concat cs)))"
    using assms by (simp add: feed_concat)
  also have "\<dots> = (fst (process s (concat cs)), concat cs)"
    using assms(1) by (rule process_symmetric)
  finally show ?thesis using assms(1) by (simp add: feed_concat)
qed

lemma process_split:
  assumes "usable s" "process s xs = (s1, a)" "process s1 ys = (s2, b)"
  shows "process s (xs @ ys) = (s2, a @ b)"
  using assms by (simp add: process_append)

lemma process_undo:
  assumes "usable s" "process s xs = (s1, a)"
  shows "process s a = (s1, xs)"
  using process_symmetric [OF assms(1), of xs] assms(2) by simp

end

end
