(* ===== verification/Ssr_Rc4.thy ===== *)
theory Ssr_Rc4
  imports Ssr_Kdf Keystream "HOL-Library.Multiset"
begin

text \<open>
  \<^verbatim>\<open>src/src/ssr/rc4.rs\<close>: the hand-written RC4 generator and the \<open>rc4-md5\<close>
  stream built on it. \<open>rc4\<close> is the Rust struct \<open>Rc4\<close> (its 256-byte table and the two
  8-bit counters, whose additions wrap); \<open>rc4_new\<close> is the key schedule, \<open>rc4_apply\<close>
  the in-place XOR with the next keystream bytes.
\<close>

record rc4 =
  rc4_s :: bytes
  rc4_i :: byte
  rc4_j :: byte

definition swap :: "'a list \<Rightarrow> nat \<Rightarrow> nat \<Rightarrow> 'a list" where
  "swap xs a b = xs[a := xs ! b, b := xs ! a]"

definition ksa_step :: "bytes \<Rightarrow> nat \<Rightarrow> bytes \<times> byte \<Rightarrow> bytes \<times> byte" where
  "ksa_step key i = (\<lambda>(s, j).
     let j' = j + s ! i + key ! (i mod length key) in (swap s i (unat j'), j'))"

definition rc4_new :: "bytes \<Rightarrow> rc4" where
  "rc4_new key =
     (let (s, j) = fold (ksa_step key) [0..<256] (map word_of_nat [0..<256], 0)
      in \<lparr>rc4_s = s, rc4_i = 0, rc4_j = 0\<rparr>)"

text \<open>One turn of the loop in \<open>apply\<close>: the advanced state and the keystream byte \<open>k\<close>.\<close>

definition rc4_next :: "rc4 \<Rightarrow> rc4 \<times> byte" where
  "rc4_next st =
     (let i = rc4_i st + 1;
          j = rc4_j st + rc4_s st ! unat i;
          s = swap (rc4_s st) (unat i) (unat j);
          k = s ! unat (s ! unat i + s ! unat j)
      in (\<lparr>rc4_s = s, rc4_i = i, rc4_j = j\<rparr>, k))"

fun rc4_apply :: "rc4 \<Rightarrow> bytes \<Rightarrow> rc4 \<times> bytes" where
  "rc4_apply st [] = (st, [])"
| "rc4_apply st (b # bs) =
     (let (st1, k) = rc4_next st; (st2, out) = rc4_apply st1 bs in (st2, (b XOR k) # out))"

text \<open>\<open>Rc4Md5::new\<close>: the RC4 key is \<open>MD5(master_key || iv)\<close>.\<close>

definition rc4md5_new :: "'cc crypto \<Rightarrow> bytes \<Rightarrow> bytes \<Rightarrow> rc4" where
  "rc4md5_new C master_key iv = rc4_new (md5 C (master_key @ iv))"

subsection \<open>The table stays a permutation of all byte values\<close>

definition rc4_inv :: "rc4 \<Rightarrow> bool" where
  "rc4_inv st \<longleftrightarrow> mset (rc4_s st) = mset (map word_of_nat [0..<256])"

lemma mset_swap: "a < length xs \<Longrightarrow> b < length xs \<Longrightarrow> mset (swap xs a b) = mset xs"
  by (simp add: swap_def mset_swap)

lemma length_swap [simp]: "length (swap xs a b) = length xs"
  by (simp add: swap_def)

lemma rc4_inv_length: "rc4_inv st \<Longrightarrow> length (rc4_s st) = 256"
  by (metis rc4_inv_def length_map length_upt minus_nat.diff_0 size_mset)

lemma ksa_fold_mset:
  assumes "length s = 256" "set is \<subseteq> {..<256}"
  shows "mset (fst (fold (ksa_step key) is (s, j))) = mset s"
  using assms
proof (induction "is" arbitrary: s j)
  case (Cons i "is")
  let ?j = "j + s ! i + key ! (i mod length key)"
  have "mset (swap s i (unat ?j)) = mset s"
    using Cons.prems by (intro mset_swap) auto
  with Cons.prems Cons.IH [of "swap s i (unat ?j)" ?j] show ?case
    by (simp add: ksa_step_def Let_def)
qed simp

lemma rc4_new_inv: "rc4_inv (rc4_new key)"
proof -
  have "mset (fst (fold (ksa_step key) [0..<256] (map word_of_nat [0..<256], 0))) =
      mset (map word_of_nat [0..<256])"
    by (rule ksa_fold_mset) auto
  then show ?thesis by (auto simp: rc4_new_def rc4_inv_def split: prod.splits)
qed

lemma rc4_next_inv: "rc4_inv st \<Longrightarrow> rc4_inv (fst (rc4_next st))"
  using rc4_inv_length [of st]
  by (simp add: rc4_inv_def rc4_next_def Let_def mset_swap)

lemma rc4_apply_inv: "rc4_inv st \<Longrightarrow> rc4_inv (fst (rc4_apply st xs))"
proof (induction xs arbitrary: st)
  case (Cons b bs)
  then have "rc4_inv (fst (rc4_apply (fst (rc4_next st)) bs))"
    using rc4_next_inv by blast
  then show ?case by (simp add: case_prod_beta Let_def)
qed simp

lemma rc4_inv_table: "rc4_inv st \<Longrightarrow> set (rc4_s st) = UNIV \<and> distinct (rc4_s st)"
proof -
  assume "rc4_inv st"
  then have m: "mset (rc4_s st) = mset (map word_of_nat [0..<256])" by (simp add: rc4_inv_def)
  have "inj_on (word_of_nat :: nat \<Rightarrow> byte) {0..<256}"
    by (rule inj_onI) (metis atLeastLessThan_iff unat_byte_of_nat mod_less)
  then have "distinct (map word_of_nat [0..<256] :: bytes)" by (simp add: distinct_map)
  with m have "distinct (rc4_s st)" by (metis mset_eq_imp_distinct_iff)
  moreover have "(x :: byte) \<in> word_of_nat ` {0..<256}" for x
    by (rule image_eqI [of _ _ "unat x"]) auto
  then have "set (map word_of_nat [0..<256]) = (UNIV :: byte set)" by auto
  with m have "set (rc4_s st) = UNIV" by (metis mset_eq_setD)
  ultimately show ?thesis by simp
qed

subsection \<open>RC4 is a keystream cipher\<close>

lemma rc4_apply_append:
  "rc4_apply st (xs @ ys) =
     (let (st1, a) = rc4_apply st xs; (st2, b) = rc4_apply st1 ys in (st2, a @ b))"
  by (induction xs arbitrary: st) (simp_all add: case_prod_beta Let_def)

lemma rc4_apply_length: "length (snd (rc4_apply st xs)) = length xs"
  by (induction xs arbitrary: st) (simp_all add: case_prod_beta Let_def)

lemma rc4_apply_symmetric:
  "rc4_apply st (snd (rc4_apply st xs)) = (fst (rc4_apply st xs), xs)"
  by (induction xs arbitrary: st) (simp_all add: case_prod_beta Let_def xor_byte_self)

interpretation rc4: keystream_cipher rc4_apply "\<lambda>_. True"
  by unfold_locales (auto simp: rc4_apply_append rc4_apply_length rc4_apply_symmetric)

subsection \<open>Properties\<close>

text \<open>From any key, and after any number of processed bytes, the RC4 table holds every byte
  value exactly once, so no index into it can leave the 256-entry array and no keystream
  value is lost by a swap.\<close>

theorem rc4_table_permutation:
  "let st = fst (feed rc4_apply (rc4_new key) chunks)
   in length (rc4_s st) = 256 \<and> distinct (rc4_s st) \<and> set (rc4_s st) = UNIV"
proof -
  have "rc4_inv (fst (feed rc4_apply (rc4_new key) chunks))"
    by (simp add: rc4.feed_concat rc4_apply_inv rc4_new_inv)
  then show ?thesis by (simp add: Let_def rc4_inv_table rc4_inv_length)
qed

text \<open>Decrypting an rc4-md5 stream gives back the plaintext however the two sides cut it:
  whatever chunks the sender passed to \<open>process\<close>, a receiver that starts from the same
  master key and IV and sees the ciphertext in any other chunks obtains the plaintext.\<close>

theorem rc4md5_stream_roundtrip:
  assumes "concat received = snd (feed rc4_apply (rc4md5_new C master_key iv) sent)"
  shows "snd (feed rc4_apply (rc4md5_new C master_key iv) received) = concat sent"
  using rc4.rechunk_roundtrip [OF TrueI assms] by simp

theorem rc4md5_stream_roundtrip_witness:
  "\<exists>received. length received = 1 \<and>
     concat received = snd (feed rc4_apply (rc4md5_new sample_crypto [1] [2]) [[3, 4], [5]]) \<and>
     snd (feed rc4_apply (rc4md5_new sample_crypto [1] [2]) received) = [3, 4, 5]"
proof -
  let ?c = "snd (feed rc4_apply (rc4md5_new sample_crypto [1] [2]) [[3, 4], [5]])"
  have h: "concat [?c] = ?c" by simp
  show ?thesis using h rc4md5_stream_roundtrip [OF h] by (intro exI [of _ "[?c]"]) simp
qed

end
