(* ===== verification/Rust_Str.thy ===== *)
theory Rust_Str
  imports SSR_Prelude
begin

text \<open>
  The parts of Rust's \<open>str\<close> the sources use, on UTF-8 byte strings:
  \<open>to_ascii_lowercase\<close>, \<open>trim\<close> (which strips every Unicode white-space scalar, also
  the multi-byte ones), \<open>split(',')\<close>, \<open>split_once\<close>, decimal rendering and
  \<open>parse::<uN>()\<close>.
\<close>

definition code :: "char \<Rightarrow> nat" where
  "code c = of_char c"

definition ascii_lower :: "char \<Rightarrow> char" where
  "ascii_lower c = (if 65 \<le> code c \<and> code c \<le> 90 then char_of (code c + 32) else c)"

definition to_ascii_lowercase :: "string \<Rightarrow> string" where
  "to_ascii_lowercase s = map ascii_lower s"

subsection \<open>White space\<close>

definition ws1 :: "nat \<Rightarrow> bool" where
  "ws1 a \<longleftrightarrow> (9 \<le> a \<and> a \<le> 13) \<or> a = 32"

definition ws2 :: "nat \<Rightarrow> nat \<Rightarrow> bool" where
  "ws2 a b \<longleftrightarrow> a = 0xC2 \<and> (b = 0x85 \<or> b = 0xA0)"

definition ws3 :: "nat \<Rightarrow> nat \<Rightarrow> nat \<Rightarrow> bool" where
  "ws3 a b c \<longleftrightarrow>
     (a = 0xE1 \<and> b = 0x9A \<and> c = 0x80) \<or>
     (a = 0xE2 \<and> b = 0x80 \<and> (0x80 \<le> c \<and> c \<le> 0x8A \<or> c = 0xA8 \<or> c = 0xA9 \<or> c = 0xAF)) \<or>
     (a = 0xE2 \<and> b = 0x81 \<and> c = 0x9F) \<or>
     (a = 0xE3 \<and> b = 0x80 \<and> c = 0x80)"

text \<open>Strip white-space scalars from the front; the second function strips them from the
  front of a reversed string, where the bytes of a scalar come last to first.\<close>

function trim_front :: "string \<Rightarrow> string" where
  "trim_front s =
     (case s of
        [] \<Rightarrow> []
      | a # r1 \<Rightarrow>
          if ws1 (code a) then trim_front r1
          else (case r1 of
             [] \<Rightarrow> s
           | b # r2 \<Rightarrow>
               if ws2 (code a) (code b) then trim_front r2
               else (case r2 of
                  [] \<Rightarrow> s
                | c # r3 \<Rightarrow> if ws3 (code a) (code b) (code c) then trim_front r3 else s)))"
  by pat_completeness auto
termination by (relation "measure length") auto

function trim_back :: "string \<Rightarrow> string" where
  "trim_back s =
     (case s of
        [] \<Rightarrow> []
      | a # r1 \<Rightarrow>
          if ws1 (code a) then trim_back r1
          else (case r1 of
             [] \<Rightarrow> s
           | b # r2 \<Rightarrow>
               if ws2 (code b) (code a) then trim_back r2
               else (case r2 of
                  [] \<Rightarrow> s
                | c # r3 \<Rightarrow> if ws3 (code c) (code b) (code a) then trim_back r3 else s)))"
  by pat_completeness auto
termination by (relation "measure length") auto

declare trim_front.simps [simp del] trim_back.simps [simp del]

definition trim :: "string \<Rightarrow> string" where
  "trim s = rev (trim_back (rev (trim_front s)))"

subsection \<open>Splitting\<close>

text \<open>\<open>split(c)\<close>: always at least one piece, empty pieces kept.\<close>

fun split_char :: "char \<Rightarrow> string \<Rightarrow> string list" where
  "split_char c [] = [[]]"
| "split_char c (x # xs) =
     (case split_char c xs of
        [] \<Rightarrow> []
      | p # ps \<Rightarrow> if x = c then [] # p # ps else (x # p) # ps)"

text \<open>\<open>split_once(c)\<close>: around the first occurrence.\<close>

fun split_once :: "char \<Rightarrow> string \<Rightarrow> (string \<times> string) option" where
  "split_once c [] = None"
| "split_once c (x # xs) =
     (if x = c then Some ([], xs)
      else (case split_once c xs of None \<Rightarrow> None | Some (a, b) \<Rightarrow> Some (x # a, b)))"

subsection \<open>Numbers\<close>

definition digit_char :: "nat \<Rightarrow> char" where
  "digit_char d = char_of (if d < 10 then 48 + d else 87 + d)"

text \<open>\<open>char::to_digit(radix)\<close> for radix 10 and 16.\<close>

definition to_digit :: "nat \<Rightarrow> char \<Rightarrow> nat option" where
  "to_digit radix ch =
     (let n = code ch;
          d = (if 48 \<le> n \<and> n \<le> 57 then n - 48
               else if 97 \<le> n \<and> n \<le> 122 then n - 87
               else if 65 \<le> n \<and> n \<le> 90 then n - 55 else 99)
      in if d < radix then Some d else None)"

text \<open>Rendering with \<open>{}\<close> and \<open>{:x}\<close>.\<close>

fun show_radix :: "nat \<Rightarrow> nat \<Rightarrow> string" where
  "show_radix r n =
     (if r < 2 \<or> n < r then [digit_char n] else show_radix r (n div r) @ [digit_char (n mod r)])"

declare show_radix.simps [simp del]

definition show_dec :: "nat \<Rightarrow> string" where
  "show_dec n = show_radix 10 n"

text \<open>\<open>from_str_radix(s, 10)\<close> of an unsigned type with maximum \<open>mx\<close>: an optional leading
  \<open>+\<close>, then at least one digit, no overflow at any point.\<close>

fun parse_digits :: "nat \<Rightarrow> nat \<Rightarrow> string \<Rightarrow> nat option" where
  "parse_digits mx acc [] = Some acc"
| "parse_digits mx acc (c # cs) =
     (case to_digit 10 c of
        None \<Rightarrow> None
      | Some d \<Rightarrow> if acc * 10 + d > mx then None else parse_digits mx (acc * 10 + d) cs)"

definition parse_uint :: "nat \<Rightarrow> string \<Rightarrow> nat option" where
  "parse_uint mx s =
     (case s of
        [] \<Rightarrow> None
      | c # cs \<Rightarrow>
          if c = CHR ''+'' then (if cs = [] then None else parse_digits mx 0 cs)
          else parse_digits mx 0 s)"

subsection \<open>Lemmas\<close>

lemma split_char_nonempty [simp]: "split_char c s \<noteq> []"
  by (induction s) (auto split: list.splits)

lemma code_digit_char [simp]: "d < 36 \<Longrightarrow> code (digit_char d) = (if d < 10 then 48 + d else 87 + d)"
  by (simp add: code_def digit_char_def of_char_of)

lemma to_digit_digit_char [simp]: "d < r \<Longrightarrow> r \<le> 36 \<Longrightarrow> to_digit r (digit_char d) = Some d"
  by (auto simp: to_digit_def Let_def)

lemma show_radix_nonempty [simp]: "show_radix r n \<noteq> []"
  by (subst show_radix.simps) simp

lemma parse_digits_append:
  "parse_digits mx acc (xs @ ys) =
     (case parse_digits mx acc xs of None \<Rightarrow> None | Some a \<Rightarrow> parse_digits mx a ys)"
  by (induction xs arbitrary: acc) (auto split: option.splits)

lemma parse_digits_show: "n \<le> mx \<Longrightarrow> parse_digits mx 0 (show_radix 10 n) = Some n"
proof (induction n rule: less_induct)
  case (less n)
  show ?case
  proof (cases "n < 10")
    case True
    then show ?thesis using less.prems by (subst show_radix.simps) simp
  next
    case False
    then have "parse_digits mx 0 (show_radix 10 (n div 10)) = Some (n div 10)"
      using less.prems by (intro less.IH) auto
    moreover have "n div 10 * 10 + n mod 10 = n" by simp
    ultimately show ?thesis using False less.prems
      by (subst show_radix.simps) (simp add: parse_digits_append)
  qed
qed

lemma parse_digits_le: "parse_digits mx acc s = Some n \<Longrightarrow> acc \<le> mx \<Longrightarrow> n \<le> mx"
  by (induction s arbitrary: acc) (auto split: option.splits if_splits)

lemma parse_uint_le: "parse_uint mx s = Some n \<Longrightarrow> n \<le> mx"
  by (cases s) (auto simp: parse_uint_def simp del: parse_digits.simps
      split: if_splits intro: parse_digits_le)

lemma to_ascii_lowercase_idem [simp]:
  "to_ascii_lowercase (to_ascii_lowercase s) = to_ascii_lowercase s"
  by (induction s) (auto simp: to_ascii_lowercase_def ascii_lower_def code_def of_char_of)

text \<open>Characters that are ASCII and not white space: \<open>trim\<close> leaves a string of them alone.\<close>

definition solid :: "char \<Rightarrow> bool" where
  "solid c \<longleftrightarrow> code c < 128 \<and> \<not> ws1 (code c)"

lemma solid_ws: "solid c \<Longrightarrow> \<not> ws1 (code c) \<and> \<not> ws2 (code c) b \<and> \<not> ws2 a (code c) \<and>
    \<not> ws3 (code c) x y \<and> \<not> ws3 x y (code c)"
  by (auto simp: solid_def ws2_def ws3_def)

lemma trim_front_solid: "s \<noteq> [] \<Longrightarrow> solid (hd s) \<Longrightarrow> trim_front s = s"
  by (subst trim_front.simps) (cases s; simp add: solid_ws split: list.split)

lemma trim_back_solid: "s \<noteq> [] \<Longrightarrow> solid (hd s) \<Longrightarrow> trim_back s = s"
  by (subst trim_back.simps) (cases s; simp add: solid_ws split: list.split)

lemma trim_Nil [simp]: "trim [] = []"
  by (simp add: trim_def trim_front.simps trim_back.simps)

lemma trim_solid: "list_all solid s \<Longrightarrow> trim s = s"
  by (cases "s = []") (simp, simp add: trim_def trim_front_solid trim_back_solid hd_rev list_all_iff)

lemma split_once_append: "c \<notin> set xs \<Longrightarrow> split_once c (xs @ c # ys) = Some (xs, ys)"
  by (induction xs) auto

lemma split_once_absent: "c \<notin> set xs \<Longrightarrow> split_once c xs = None"
  by (induction xs) auto

lemma set_show_dec: "c \<in> set (show_dec n) \<Longrightarrow> \<exists>d<10. c = digit_char d"
  unfolding show_dec_def
proof (induction n rule: less_induct)
  case (less n)
  show ?case
  proof (cases "n < 10")
    case False
    with less.prems have "c \<in> set (show_radix 10 (n div 10)) \<or> c = digit_char (n mod 10)"
      by (subst (asm) show_radix.simps) auto
    then show ?thesis
    proof
      assume "c = digit_char (n mod 10)"
      then show ?thesis by (intro exI [of _ "n mod 10"]) simp
    next
      assume "c \<in> set (show_radix 10 (n div 10))"
      from less.IH [OF _ this] False show ?thesis by simp
    qed
  qed (use less.prems in \<open>subst (asm) show_radix.simps, auto\<close>)
qed

lemma digit_of_show_dec: "c \<in> set (show_dec n) \<Longrightarrow> 48 \<le> code c \<and> code c \<le> 57"
  by (drule set_show_dec) auto

lemma solid_show_dec [simp]: "list_all solid (show_dec n)"
  by (auto simp: list_all_iff solid_def ws1_def dest!: digit_of_show_dec)

lemma show_dec_nonempty [simp]: "show_dec n \<noteq> []"
  by (simp add: show_dec_def)

lemma parse_uint_show_dec: "n \<le> mx \<Longrightarrow> parse_uint mx (show_dec n) = Some n"
proof -
  assume n: "n \<le> mx"
  obtain c cs where s: "show_dec n = c # cs" by (cases "show_dec n") simp_all
  then have "c \<noteq> CHR ''+''" using digit_of_show_dec [of c n] by (auto simp: code_def)
  then show ?thesis using parse_digits_show [OF n] by (simp add: parse_uint_def s show_dec_def [symmetric])
qed

end
