(* ===== verification/Ssr_Cipher.thy ===== *)
theory Ssr_Cipher
  imports Ssr_Rc4 Rust_Str
begin

text \<open>
  \<^verbatim>\<open>src/src/ssr/cipher.rs\<close>: the two supported stream ciphers behind one interface.
  \<open>cipher_kind\<close> is \<open>CipherKind\<close>, \<open>stream_cipher\<close> is one direction of a
  connection; \<open>new_stream\<close> returns \<open>Inl Panic\<close> where the source's \<open>expect\<close> would
  fire.
\<close>

datatype cipher_kind = Rc4Md5 | Chacha20Ietf

datatype 'cc stream_cipher = StreamRc4 rc4 | StreamChacha 'cc

definition from_method :: "string \<Rightarrow> cipher_kind result" where
  "from_method m =
     (let l = to_ascii_lowercase m
      in if l = ''rc4-md5'' then Inr Rc4Md5
         else if l = ''chacha20-ietf'' then Inr Chacha20Ietf
         else Inl (UnsupportedCipher l))"

fun key_len :: "cipher_kind \<Rightarrow> nat" where
  "key_len Rc4Md5 = 16"
| "key_len Chacha20Ietf = 32"

fun iv_len :: "cipher_kind \<Rightarrow> nat" where
  "iv_len Rc4Md5 = 16"
| "iv_len Chacha20Ietf = 12"

fun new_stream :: "'cc crypto \<Rightarrow> cipher_kind \<Rightarrow> bytes \<Rightarrow> bytes \<Rightarrow> 'cc stream_cipher result" where
  "new_stream C Rc4Md5 master_key iv = Inr (StreamRc4 (rc4md5_new C master_key iv))"
| "new_stream C Chacha20Ietf master_key iv =
     (case chacha20_new C master_key iv of
        None \<Rightarrow> Inl Panic
      | Some c \<Rightarrow> Inr (StreamChacha c))"

fun stream_process :: "'cc crypto \<Rightarrow> 'cc stream_cipher \<Rightarrow> bytes \<Rightarrow> 'cc stream_cipher \<times> bytes" where
  "stream_process C (StreamRc4 c) data = (let (c', out) = rc4_apply c data in (StreamRc4 c', out))"
| "stream_process C (StreamChacha c) data =
     (let (c', out) = chacha20_apply C c data in (StreamChacha c', out))"

subsection \<open>Both variants meet the keystream contract\<close>

lemma iv_len_pos [simp]: "0 < iv_len k"
  by (cases k) simp_all

lemma chacha_okD:
  assumes "chacha_ok C"
  shows "chacha20_apply C s (xs @ ys) =
      (let (s1, a) = chacha20_apply C s xs; (s2, b) = chacha20_apply C s1 ys in (s2, a @ b))"
    and "chacha20_apply C s [] = (s, [])"
    and "length (snd (chacha20_apply C s xs)) = length xs"
    and "chacha20_apply C s (snd (chacha20_apply C s xs)) = (fst (chacha20_apply C s xs), xs)"
    and "length k = 32 \<Longrightarrow> length n = 12 \<Longrightarrow> chacha20_new C k n \<noteq> None"
  using assms unfolding chacha_ok_def by blast+

lemma new_stream_total:
  assumes "crypto_ok C" "length mk = key_len k" "length iv = iv_len k"
  shows "\<exists>c. new_stream C k mk iv = Inr c"
proof (cases k)
  case Chacha20Ietf
  then obtain c where "chacha20_new C mk iv = Some c"
    using assms(2,3) chacha_okD(5) [OF crypto_okD(4) [OF assms(1)], of mk iv] by auto
  with Chacha20Ietf show ?thesis by simp
qed simp

interpretation sc: keystream_cipher "stream_process C" "\<lambda>_. chacha_ok C"
  for C :: "'cc crypto"
proof
  fix s :: "'cc stream_cipher" and xs ys
  assume C: "chacha_ok C"
  show "stream_process C s [] = (s, [])" by (cases s) (simp_all add: chacha_okD [OF C])
  show "stream_process C s (xs @ ys) = (let (s1, a) = stream_process C s xs;
      (s2, b) = stream_process C s1 ys in (s2, a @ b))"
    by (cases s) (simp_all add: chacha_okD(1) [OF C] rc4_apply_append case_prod_beta Let_def)
  show "length (snd (stream_process C s xs)) = length xs"
    by (cases s) (simp_all add: chacha_okD(3) [OF C] rc4_apply_length case_prod_beta)
  show "stream_process C s (snd (stream_process C s xs)) = (fst (stream_process C s xs), xs)"
    by (cases s) (simp_all add: chacha_okD(4) [OF C] rc4_apply_symmetric case_prod_beta)
qed simp

end
