(* ===== verification/Packet_Stream.thy ===== *)
theory Packet_Stream
  imports Keystream
begin

text \<open>
  The contract of an incremental packet decoder: \<open>step\<close> looks at the front of a receive
  buffer and either asks for more bytes, fails, or strips one packet; \<open>run\<close> repeats it.
  The laws say that a decision, once taken, is not changed by bytes that arrive later. The
  client lemmas: delivering the byte stream in any chunks gives the same payload, the same
  final state and the same error as delivering it at once.
\<close>

datatype 's outcome = More 's | Fail 's error | Packet 's bytes

text \<open>Feeding chunks to a fallible decoder; the first error ends the stream.\<close>

fun feed_result :: "('s \<Rightarrow> bytes \<Rightarrow> 's \<times> bytes result) \<Rightarrow> 's \<Rightarrow> bytes list \<Rightarrow> 's \<times> bytes result" where
  "feed_result f s [] = (s, Inr [])"
| "feed_result f s (c # cs) =
     (case f s c of
        (s1, Inl e) \<Rightarrow> (s1, Inl e)
      | (s1, Inr a) \<Rightarrow>
          (case feed_result f s1 cs of
             (s2, Inl e) \<Rightarrow> (s2, Inl e)
           | (s2, Inr b) \<Rightarrow> (s2, Inr (a @ b))))"

text \<open>Two runs agree: same payload or same error, and on success the same final state.\<close>

definition agree :: "'s \<times> bytes result \<Rightarrow> 's \<times> bytes result \<Rightarrow> bool" where
  "agree a b \<longleftrightarrow> snd a = snd b \<and> (\<forall>x. snd a = Inr x \<longrightarrow> fst a = fst b)"

lemma agree_refl [simp]: "agree a a"
  by (simp add: agree_def)

lemma agree_Inl: "agree (s, Inl e) b \<longleftrightarrow> snd b = Inl e"
  by (auto simp: agree_def)

lemma agree_Inr: "agree (s, Inr x) b \<longleftrightarrow> b = (s, Inr x)"
  by (cases b) (auto simp: agree_def)

text \<open>A decoder whose idle states satisfy \<open>idle\<close>; the lemma is what callers use.\<close>

locale chunked_decoder =
  fixes decode :: "'s \<Rightarrow> bytes \<Rightarrow> 's \<times> bytes result"
    and idle :: "'s \<Rightarrow> bool"
  assumes decode_nil: "idle s \<Longrightarrow> decode s [] = (s, Inr [])"
    and decode_idle: "idle s \<Longrightarrow> decode s a = (s1, Inr x) \<Longrightarrow> idle s1"
    and decode_ok: "idle s \<Longrightarrow> decode s a = (s1, Inr x) \<Longrightarrow>
          agree (map_prod id (map_sum id (\<lambda>y. x @ y)) (decode s1 b)) (decode s (a @ b))"
    and decode_fail: "idle s \<Longrightarrow> decode s a = (s1, Inl e) \<Longrightarrow> snd (decode s (a @ b)) = Inl e"
begin

lemma feed_any_chunks: "idle s \<Longrightarrow> agree (feed_result decode s cs) (decode s (concat cs))"
proof (induction cs arbitrary: s)
  case Nil
  then show ?case by (simp add: decode_nil)
next
  case (Cons c cs)
  obtain s1 r where r: "decode s c = (s1, r)" by fastforce
  show ?case
  proof (cases r)
    case (Inl e)
    then show ?thesis using r decode_fail [OF Cons.prems, of c s1 e "concat cs"] by (simp add: agree_Inl)
  next
    case (Inr x)
    then have d: "decode s c = (s1, Inr x)" using r by simp
    have "agree (feed_result decode s1 cs) (decode s1 (concat cs))"
      by (rule Cons.IH) (rule decode_idle [OF Cons.prems d])
    then show ?thesis using d decode_ok [OF Cons.prems d, of "concat cs"]
      by (cases "decode s1 (concat cs)"; cases "feed_result decode s1 cs")
        (auto simp: agree_def split: sum.splits)
  qed
qed

lemma same_stream_same_result:
  assumes "idle s" "concat cs = concat ds"
  shows "agree (feed_result decode s cs) (feed_result decode s ds)"
  using feed_any_chunks [OF assms(1), of cs] feed_any_chunks [OF assms(1), of ds] assms(2)
  by (auto simp: agree_def)

end

locale packet_stream =
  fixes step :: "'s \<Rightarrow> 's outcome"
    and run :: "'s \<Rightarrow> bytes \<Rightarrow> 's \<times> bytes result"
    and app :: "'s \<Rightarrow> bytes \<Rightarrow> 's"
    and pending :: "'s \<Rightarrow> nat"
  assumes run_unfold: "run s out =
      (case step s of
         More s' \<Rightarrow> (s', Inr out)
       | Fail s' e \<Rightarrow> (s', Inl e)
       | Packet s' p \<Rightarrow> run s' (out @ p))"
    and app_nil: "app s [] = s"
    and app_app: "app (app s xs) ys = app s (xs @ ys)"
    and step_packet: "step s = Packet s' p \<Longrightarrow> step (app s ys) = Packet (app s' ys) p"
    and step_fail: "step s = Fail s' e \<Longrightarrow> \<exists>t. step (app s ys) = Fail t e"
    and step_more: "step s = More s' \<Longrightarrow> step (app s' ys) = step (app s ys)"
    and progress: "step s = Packet s' p \<Longrightarrow> pending s' < pending s"
begin

lemma run_out: "run s out = map_prod id (map_sum id (\<lambda>p. out @ p)) (run s [])"
proof (induction s arbitrary: out rule: measure_induct_rule [where f = pending])
  case (less s)
  show ?case
  proof (cases "step s")
    case (Packet s' p)
    then have lt: "pending s' < pending s" by (rule progress)
    have "run s out = map_prod id (map_sum id (\<lambda>q. (out @ p) @ q)) (run s' [])"
      using Packet less.IH [OF lt, of "out @ p"] by (simp add: run_unfold [of s] id_def)
    also have "\<dots> = map_prod id (map_sum id (\<lambda>q. out @ q)) (run s' p)"
      using less.IH [OF lt, of p]
      by (simp add: prod.map_comp sum.map_comp comp_def id_def)
    finally show ?thesis using Packet by (simp add: run_unfold [of s "[]"] id_def)
  qed (simp_all add: run_unfold [of s])
qed

lemma run_quiet: "run s out = (s1, Inr q) \<Longrightarrow> step s1 = More s1"
proof (induction s arbitrary: out rule: measure_induct_rule [where f = pending])
  case (less s)
  show ?case
  proof (cases "step s")
    case (More s')
    then show ?thesis using less.prems step_more [OF More, of "[]"]
      by (simp add: run_unfold [of s] app_nil)
  next
    case (Packet s' p)
    then show ?thesis using less.prems less.IH [OF progress [OF Packet]]
      by (simp add: run_unfold [of s])
  qed (use less.prems in \<open>simp add: run_unfold [of s]\<close>)
qed

lemma run_app_ok: "run s out = (s1, Inr q) \<Longrightarrow> run (app s ys) out = run (app s1 ys) q"
proof (induction s arbitrary: out rule: measure_induct_rule [where f = pending])
  case (less s)
  show ?case
  proof (cases "step s")
    case (More s')
    then have "s1 = s'" "q = out" using less.prems by (simp_all add: run_unfold [of s])
    then show ?thesis using step_more [OF More, of ys]
      by (simp add: run_unfold [of "app s ys"] run_unfold [of "app s' ys"])
  next
    case (Packet s' p)
    then show ?thesis using less.prems less.IH [OF progress [OF Packet]]
      by (simp add: run_unfold [of s] run_unfold [of "app s ys"] step_packet [OF Packet])
  qed (use less.prems in \<open>simp add: run_unfold [of s]\<close>)
qed

lemma run_app_fail: "run s out = (s1, Inl e) \<Longrightarrow> snd (run (app s ys) out) = Inl e"
proof (induction s arbitrary: out rule: measure_induct_rule [where f = pending])
  case (less s)
  show ?case
  proof (cases "step s")
    case (Fail s' e')
    then show ?thesis using less.prems step_fail [OF Fail, of ys]
      by (auto simp: run_unfold [of s] run_unfold [of "app s ys"])
  next
    case (Packet s' p)
    then show ?thesis using less.prems less.IH [OF progress [OF Packet]]
      by (simp add: run_unfold [of s] run_unfold [of "app s ys"] step_packet [OF Packet])
  qed (use less.prems in \<open>simp add: run_unfold [of s]\<close>)
qed

end

text \<open>A packet stream that waits for bytes is a chunked decoder.\<close>

sublocale packet_stream \<subseteq> chunked_decoder "\<lambda>s c. run (app s c) []" "\<lambda>s. step s = More s"
proof
  fix s s1 a b x e
  assume s: "step s = More s"
  show "run (app s []) [] = (s, Inr [])" using s by (simp add: app_nil run_unfold [of s])
  show "step s1 = More s1" if "run (app s a) [] = (s1, Inr x)" using that by (rule run_quiet)
  show "agree (map_prod id (map_sum id (\<lambda>y. x @ y)) (run (app s1 b) [])) (run (app s (a @ b)) [])"
    if "run (app s a) [] = (s1, Inr x)"
    using run_app_ok [OF that, of b] run_out [of "app s1 b" x] by (simp add: app_app)
  show "snd (run (app s (a @ b)) []) = Inl e" if "run (app s a) [] = (s1, Inl e)"
    using run_app_fail [OF that, of b] by (simp add: app_app)
qed

subsection \<open>A decoder behind a stream cipher\<close>

text \<open>Raw bytes go through the cipher and the plaintext through the decoder.\<close>

definition decipher ::
  "('d \<Rightarrow> bytes \<Rightarrow> 'd \<times> bytes) \<Rightarrow> ('p \<Rightarrow> bytes \<Rightarrow> 'p \<times> bytes result) \<Rightarrow>
   'd \<times> 'p \<Rightarrow> bytes \<Rightarrow> ('d \<times> 'p) \<times> bytes result" where
  "decipher process decode = (\<lambda>(d, p) xs.
     let (d', plain) = process d xs; (p', r) = decode p plain in ((d', p'), r))"

locale deciphering = keystream_cipher process usable + chunked_decoder decode idle
  for process :: "'d \<Rightarrow> bytes \<Rightarrow> 'd \<times> bytes" and usable :: "'d \<Rightarrow> bool"
    and decode :: "'p \<Rightarrow> bytes \<Rightarrow> 'p \<times> bytes result" and idle :: "'p \<Rightarrow> bool"

sublocale deciphering \<subseteq> pair:
  chunked_decoder "decipher process decode" "\<lambda>(d, p). usable d \<and> idle p"
proof (unfold_locales, goal_cases)
  case (1 s)
  then show ?case by (auto simp: decipher_def process_nil decode_nil)
next
  case (2 s a s1 x)
  obtain d p where s: "s = (d, p)" by fastforce
  obtain d1 pa where a: "process d a = (d1, pa)" by fastforce
  have "usable d1" using usable_process [of d a] a 2 s by simp
  then show ?case using 2 s a
    by (auto simp: decipher_def split: prod.splits intro: decode_idle)
next
  case (3 s a s1 x b)
  obtain d p where s: "s = (d, p)" by fastforce
  obtain d1 pa where a: "process d a = (d1, pa)" by fastforce
  obtain d2 pb where b: "process d1 b = (d2, pb)" by fastforce
  have u: "usable d" "idle p" using 3 s by auto
  have ab: "process d (a @ b) = (d2, pa @ pb)" by (rule process_split [OF u(1) a b])
  obtain p1 where p1: "decode p pa = (p1, Inr x)" "s1 = (d1, p1)"
    using 3(2) s a by (auto simp: decipher_def split: prod.splits)
  show ?case using decode_ok [OF u(2) p1(1), of pb] s ab b p1
    by (cases "decode p1 pb"; cases "decode p (pa @ pb)") (auto simp: decipher_def agree_def)
next
  case (4 s a s1 e b)
  obtain d p where s: "s = (d, p)" by fastforce
  obtain d1 pa where a: "process d a = (d1, pa)" by fastforce
  obtain d2 pb where b: "process d1 b = (d2, pb)" by fastforce
  have u: "usable d" "idle p" using 4 s by auto
  have ab: "process d (a @ b) = (d2, pa @ pb)" by (rule process_split [OF u(1) a b])
  obtain p1 where p1: "decode p pa = (p1, Inl e)"
    using 4(2) s a by (auto simp: decipher_def split: prod.splits)
  show ?case using decode_fail [OF u(2) p1, of pb] s ab by (simp add: decipher_def case_prod_beta)
qed

end
