(* ===== verification/Ssr_Protocol.thy ===== *)
theory Ssr_Protocol
  imports Ssr_Kdf Packet_Stream
begin

text \<open>
  \<^verbatim>\<open>src/src/ssr/protocol.rs\<close>: the server side of \<open>auth_aes128_md5\<close>. \<open>auth\<close> is
  the struct \<open>AuthAes128Md5\<close>. \<open>server_post_decrypt\<close> is split the way the Rust
  function reads: \<open>header_step\<close> is the \<open>if !self.has_recv_header\<close> block,
  \<open>data_step\<close> one turn of the \<open>while self.recv_buf.len() > 4\<close> loop and
  \<open>data_loop\<close> the loop. Both steps return the state in the error case too, because
  \<open>&mut self\<close> keeps whatever was written before the \<open>bail!\<close>.
\<close>

record auth =
  master_key :: bytes
  user_key :: bytes
  users :: "u64 \<Rightarrow> bytes option"
  is_multi_user :: int
  user_id :: "u64 option"
  aes_key :: bytes
  recv_iv :: bytes
  recv_buf :: bytes
  has_recv_header :: bool
  recv_id :: u32
  pack_id :: u32

definition SALT :: bytes where
  "SALT = str_bytes ''auth_aes128_md5''"

definition UNIT_LEN :: nat where
  "UNIT_LEN = 8100"

definition MAX_PACKET :: nat where
  "MAX_PACKET = 8192"

definition u16_le :: "bytes \<Rightarrow> nat" where
  "u16_le b = le_nat (take 2 b)"

text \<open>\<open>EVP_BytesToKey(base64(user_key) + SALT, 16)\<close>, as \<open>new\<close> and \<open>rebuild_aes_key\<close> compute it.\<close>

definition derive_aes_key :: "'cc crypto \<Rightarrow> bytes \<Rightarrow> bytes" where
  "derive_aes_key C ukey = evp_bytes_to_key C (base64_encode C ukey @ SALT) 16"

definition auth_new ::
  "'cc crypto \<Rightarrow> bytes \<Rightarrow> bytes \<Rightarrow> (u64 \<Rightarrow> bytes option) \<Rightarrow> int \<Rightarrow> auth" where
  "auth_new C mkey iv us multi =
     \<lparr>master_key = mkey, user_key = mkey, users = us, is_multi_user = multi, user_id = None,
      aes_key = derive_aes_key C mkey, recv_iv = iv, recv_buf = [], has_recv_header = False,
      recv_id = 1, pack_id = 1\<rparr>"

definition rebuild_aes_key :: "'cc crypto \<Rightarrow> auth \<Rightarrow> auth" where
  "rebuild_aes_key C st = st\<lparr>aes_key := derive_aes_key C (user_key st)\<rparr>"

definition aes_decrypt_block :: "'cc crypto \<Rightarrow> auth \<Rightarrow> bytes \<Rightarrow> bytes" where
  "aes_decrypt_block C st block16 = aes128_decrypt C (aes_key st) block16"

text \<open>The uid lookup of the auth header.\<close>

definition select_user :: "'cc crypto \<Rightarrow> auth \<Rightarrow> u64 \<Rightarrow> auth" where
  "select_user C st uid =
     (case users st uid of
        Some k \<Rightarrow> rebuild_aes_key C (st\<lparr>user_id := Some uid, user_key := k\<rparr>)
      | None \<Rightarrow>
          if is_multi_user st = 2
          then rebuild_aes_key C (st\<lparr>user_id := None, user_key := recv_iv st\<rparr>)
          else st)"

definition header_uid :: "bytes \<Rightarrow> u64" where
  "header_uid buf = word_of_nat (le_nat (subslice 7 11 buf))"

definition header_step :: "'cc crypto \<Rightarrow> auth \<Rightarrow> auth outcome" where
  "header_step C st =
     (let buf = recv_buf st; mac_key = recv_iv st @ master_key st in
      if 7 \<le> length buf \<and> hmac_md5_prefix C mac_key (take 1 buf) 6 \<noteq> subslice 1 7 buf
      then Fail st CheckHeadMismatch
      else if length buf < 31 then More st
      else if hmac_md5_prefix C mac_key (subslice 7 27 buf) 4 \<noteq> subslice 27 31 buf
      then Fail st AuthHmacMismatch
      else
        let st1 = select_user C st (header_uid buf);
            head = aes_decrypt_block C st1 (subslice 11 27 buf);
            len = u16_le (subslice 12 14 head)
        in if \<not> (31 \<le> len \<and> len < MAX_PACKET) then Fail st1 (BadAuthLength len)
           else if length buf < len then More st1
           else
             let rnd_len = u16_le (subslice 14 16 head) in
             if hmac_md5_prefix C (user_key st1) (take (len - 4) buf) 4 \<noteq> subslice (len - 4) len buf
             then Fail st1 AuthChecksumMismatch
             else if len - 4 < 31 + rnd_len then Fail st1 (RndLenOverrun rnd_len)
             else Packet (st1\<lparr>recv_buf := drop len buf, has_recv_header := True\<rparr>)
                    (subslice (31 + rnd_len) (len - 4) buf))"

definition data_mac_key :: "bytes \<Rightarrow> u32 \<Rightarrow> bytes" where
  "data_mac_key ukey i = ukey @ le_bytes 4 (unat i)"

definition data_step :: "'cc crypto \<Rightarrow> auth \<Rightarrow> auth outcome" where
  "data_step C st =
     (let buf = recv_buf st in
      if 4 < length buf then
        let mac_key = data_mac_key (user_key st) (recv_id st) in
        if hmac_md5_prefix C mac_key (take 2 buf) 2 \<noteq> subslice 2 4 buf then Fail st DataLengthMac
        else
          let len = u16_le buf in
          if \<not> (7 \<le> len \<and> len < MAX_PACKET) then Fail st (BadDataLength len)
          else if length buf < len then More st
          else if hmac_md5_prefix C mac_key (take (len - 4) buf) 4 \<noteq> subslice (len - 4) len buf
          then Fail st DataChecksumMismatch
          else
            let st1 = st\<lparr>recv_id := recv_id st + 1\<rparr>;
                pos_marker = unat (buf ! 4);
                pos = (if pos_marker < 255 then pos_marker + 4 else u16_le (subslice 5 7 buf) + 4)
            in if len - 4 < pos then Fail st1 DataPaddingOverrun
               else Packet (st1\<lparr>recv_buf := drop len buf\<rparr>) (subslice pos (len - 4) buf)
      else More st)"

lemma data_step_progress:
  "data_step C st = Packet st' p \<Longrightarrow> length (recv_buf st') < length (recv_buf st)"
  by (auto simp: data_step_def Let_def split: if_splits)

function data_loop :: "'cc crypto \<Rightarrow> auth \<Rightarrow> bytes \<Rightarrow> auth \<times> bytes result" where
  "data_loop C st out =
     (case data_step C st of
        More st' \<Rightarrow> (st', Inr out)
      | Fail st' e \<Rightarrow> (st', Inl e)
      | Packet st' p \<Rightarrow> data_loop C st' (out @ p))"
  by pat_completeness auto
termination
  by (relation "measure (\<lambda>(C, st, out). length (recv_buf st))") (auto dest: data_step_progress)

declare data_loop.simps [simp del]

text \<open>The function body after \<open>self.recv_buf.extend_from_slice(incoming)\<close>.\<close>

definition post_decrypt_buffered :: "'cc crypto \<Rightarrow> auth \<Rightarrow> bytes \<Rightarrow> auth \<times> bytes result" where
  "post_decrypt_buffered C st out =
     (if \<not> has_recv_header st then
        (case header_step C st of
           More st' \<Rightarrow> (st', Inr out)
         | Fail st' e \<Rightarrow> (st', Inl e)
         | Packet st' p \<Rightarrow> data_loop C st' (out @ p))
      else data_loop C st out)"

definition buffer :: "auth \<Rightarrow> bytes \<Rightarrow> auth" where
  "buffer st incoming = st\<lparr>recv_buf := recv_buf st @ incoming\<rparr>"

definition server_post_decrypt :: "'cc crypto \<Rightarrow> auth \<Rightarrow> bytes \<Rightarrow> auth \<times> bytes result" where
  "server_post_decrypt C st incoming = post_decrypt_buffered C (buffer st incoming) []"

subsection \<open>Sending\<close>

definition pack_data :: "'cc crypto \<Rightarrow> auth \<Rightarrow> bytes \<Rightarrow> auth \<times> bytes" where
  "pack_data C st buf =
     (let data = 0x01 # buf;
          data_len = (word_of_nat (length data + 8) :: u16);
          mac_key = data_mac_key (user_key st) (pack_id st);
          len_bytes = le_bytes 2 (unat data_len);
          mac = hmac_md5_prefix C mac_key len_bytes 2;
          packet = len_bytes @ mac @ data;
          tail = hmac_md5_prefix C mac_key packet 4
      in (st\<lparr>pack_id := pack_id st + 1\<rparr>, packet @ tail))"

function server_pre_encrypt :: "'cc crypto \<Rightarrow> auth \<Rightarrow> bytes \<Rightarrow> auth \<times> bytes" where
  "server_pre_encrypt C st rest =
     (if UNIT_LEN < length rest then
        let (st1, packet) = pack_data C st (take UNIT_LEN rest);
            (st2, out) = server_pre_encrypt C st1 (drop UNIT_LEN rest)
        in (st2, packet @ out)
      else pack_data C st rest)"
  by pat_completeness auto
termination
  by (relation "measure (\<lambda>(C, st, rest). length rest)") (auto simp: UNIT_LEN_def)

declare server_pre_encrypt.simps [simp del]

subsection \<open>Datagrams\<close>

definition udp_user :: "bytes \<Rightarrow> (u64 \<Rightarrow> bytes option) \<Rightarrow> int \<Rightarrow> bytes \<Rightarrow> u64 \<Rightarrow> bytes \<times> u64 option" where
  "udp_user mkey us multi iv uid =
     (case us uid of
        Some k \<Rightarrow> (k, Some uid)
      | None \<Rightarrow> if multi = 0 then (mkey, None) else (iv, None))"

definition udp_server_post_decrypt ::
  "'cc crypto \<Rightarrow> bytes \<Rightarrow> (u64 \<Rightarrow> bytes option) \<Rightarrow> int \<Rightarrow> bytes \<Rightarrow> bytes \<Rightarrow>
   (bytes \<times> u64 option) result" where
  "udp_server_post_decrypt C mkey us multi iv buf =
     (if length buf < 8 then Inl (UdpTooShort (length buf))
      else
        let uid = word_of_nat (le_nat (subslice (length buf - 8) (length buf - 4) buf));
            (ukey, uid') = udp_user mkey us multi iv uid;
            body = take (length buf - 4) buf
        in if hmac_md5_prefix C ukey body 4 \<noteq> drop (length buf - 4) buf then Inl UdpHmacMismatch
           else Inr (take (length buf - 8) buf, uid'))"

definition user_auth_key :: "'cc crypto \<Rightarrow> string \<Rightarrow> bytes" where
  "user_auth_key C password = md5 C (str_bytes password)"

definition udp_server_pre_encrypt :: "'cc crypto \<Rightarrow> bytes \<Rightarrow> bytes \<Rightarrow> bytes" where
  "udp_server_pre_encrypt C proto_key buf = buf @ hmac_md5_prefix C proto_key buf 4"

end
