(* ===== verification/Ssr_Protocol_Props.thy ===== *)
theory Ssr_Protocol_Props
  imports Ssr_Protocol
begin

text \<open>
  Correctness of the \<open>auth_aes128_md5\<close> layer: the receive path is an incremental packet
  decoder (an interpretation of \<open>packet_stream\<close>), so chunking cannot be observed; its
  buffer is bounded; what the send path produces is accepted by the receive path and
  decodes to the same payload; and what is accepted carries the MACs it should.
\<close>

subsection \<open>Frame lemmas\<close>

named_theorems frame_simps \<open>fields an operation leaves alone\<close>

lemma buffer_sel [frame_simps, simp]:
  "recv_buf (buffer st ys) = recv_buf st @ ys" "users (buffer st ys) = users st"
  "user_key (buffer st ys) = user_key st" "recv_iv (buffer st ys) = recv_iv st"
  "master_key (buffer st ys) = master_key st" "recv_id (buffer st ys) = recv_id st"
  "has_recv_header (buffer st ys) = has_recv_header st" "user_id (buffer st ys) = user_id st"
  "pack_id (buffer st ys) = pack_id st" "is_multi_user (buffer st ys) = is_multi_user st"
  "aes_key (buffer st ys) = aes_key st"
  by (simp_all add: buffer_def)

lemma select_user_sel [frame_simps, simp]:
  "recv_buf (select_user C st u) = recv_buf st" "users (select_user C st u) = users st"
  "recv_iv (select_user C st u) = recv_iv st" "master_key (select_user C st u) = master_key st"
  "has_recv_header (select_user C st u) = has_recv_header st"
  "recv_id (select_user C st u) = recv_id st" "pack_id (select_user C st u) = pack_id st"
  "is_multi_user (select_user C st u) = is_multi_user st"
  by (simp_all add: select_user_def rebuild_aes_key_def split: option.splits)

lemma select_user_idem: "select_user C (select_user C st u) u = select_user C st u"
  by (simp add: select_user_def rebuild_aes_key_def split: option.splits)

lemma select_user_buffer: "select_user C (buffer st ys) u = buffer (select_user C st u) ys"
  by (simp add: select_user_def rebuild_aes_key_def buffer_def split: option.splits)

lemma aes_decrypt_buffer [simp]: "aes_decrypt_block C (buffer st ys) b = aes_decrypt_block C st b"
  by (simp add: aes_decrypt_block_def)

lemma buffer_upd:
  "(buffer st ys)\<lparr>recv_buf := b @ ys\<rparr> = buffer (st\<lparr>recv_buf := b\<rparr>) ys"
  "(buffer st ys)\<lparr>recv_buf := b @ ys, has_recv_header := h\<rparr> =
     buffer (st\<lparr>recv_buf := b, has_recv_header := h\<rparr>) ys"
  "(buffer st ys)\<lparr>recv_buf := b @ ys, recv_id := i\<rparr> =
     buffer (st\<lparr>recv_buf := b, recv_id := i\<rparr>) ys"
  by (simp_all add: buffer_def)

lemma header_uid_append: "11 \<le> length buf \<Longrightarrow> header_uid (buf @ ys) = header_uid buf"
  by (simp add: header_uid_def slice_simps)

lemma u16_le_append: "2 \<le> length buf \<Longrightarrow> u16_le (buf @ ys) = u16_le buf"
  by (simp add: u16_le_def)

lemmas prefix_simps = slice_simps header_uid_append u16_le_append select_user_buffer

subsection \<open>One step, with more bytes behind it\<close>

lemma data_step_More: "data_step C st = More st' \<Longrightarrow> st' = st"
  by (auto simp: data_step_def Let_def split: if_splits)

lemma data_step_packet_app:
  assumes "data_step C st = Packet st' p"
  shows "data_step C (buffer st ys) = Packet (buffer st' ys) p"
proof -
  let ?buf = "recv_buf st" and ?len = "u16_le (recv_buf st)"
  have l: "4 < length ?buf" "7 \<le> ?len" "?len \<le> length ?buf"
    using assms by (auto simp: data_step_def Let_def split: if_splits)
  then have "drop ?len (?buf @ ys) = drop ?len ?buf @ ys" by simp
  with l assms show ?thesis
    by (auto simp: data_step_def Let_def prefix_simps nth_append buffer_upd buffer_def split: if_splits)
qed

lemma data_step_fail_app:
  assumes "data_step C st = Fail st' e"
  shows "\<exists>t. data_step C (buffer st ys) = Fail t e"
proof -
  have l: "4 < length (recv_buf st)"
    using assms by (auto simp: data_step_def Let_def split: if_splits)
  show ?thesis
  proof (cases "u16_le (recv_buf st) \<le> length (recv_buf st)")
    case True
    with l assms show ?thesis
      by (auto simp: data_step_def Let_def prefix_simps nth_append split: if_splits)
  next
    case False
    with l assms show ?thesis
      by (auto simp: data_step_def Let_def prefix_simps split: if_splits)
  qed
qed

lemma header_step_packet_facts:
  assumes "header_step C st = Packet st' p"
  shows "31 \<le> length (recv_buf st)" "length (recv_buf st') < length (recv_buf st)"
    "has_recv_header st'"
  using assms by (auto simp: header_step_def Let_def split: if_splits)

lemma header_step_packet_app:
  assumes "header_step C st = Packet st' p"
  shows "header_step C (buffer st ys) = Packet (buffer st' ys) p"
proof -
  let ?buf = "recv_buf st"
  let ?st1 = "select_user C st (header_uid ?buf)"
  let ?len = "u16_le (subslice 12 14 (aes_decrypt_block C ?st1 (subslice 11 27 ?buf)))"
  have l: "31 \<le> length ?buf" by (rule header_step_packet_facts(1) [OF assms])
  moreover have "?len \<le> length ?buf" "31 \<le> ?len"
    using assms by (auto simp: header_step_def Let_def split: if_splits)
  ultimately show ?thesis using assms
    by (auto simp: header_step_def Let_def prefix_simps buffer_upd split: if_splits)
qed

lemma header_step_fail_app:
  assumes "header_step C st = Fail st' e"
  shows "\<exists>t. header_step C (buffer st ys) = Fail t e"
proof -
  let ?buf = "recv_buf st"
  let ?st1 = "select_user C st (header_uid ?buf)"
  let ?len = "u16_le (subslice 12 14 (aes_decrypt_block C ?st1 (subslice 11 27 ?buf)))"
  have l: "7 \<le> length ?buf"
    using assms by (auto simp: header_step_def Let_def split: if_splits)
  consider "length ?buf < 31" | "31 \<le> length ?buf" "?len \<le> length ?buf"
    | "31 \<le> length ?buf" "length ?buf < ?len" by linarith
  then show ?thesis
    by cases (use l assms in \<open>auto simp: header_step_def Let_def prefix_simps split: if_splits\<close>)
qed

lemma header_step_more_app:
  assumes "header_step C st = More st'"
  shows "header_step C (buffer st' ys) = header_step C (buffer st ys) \<and>
         has_recv_header st' = has_recv_header st"
proof (cases "31 \<le> length (recv_buf st)")
  case True
  then have "st' = select_user C st (header_uid (recv_buf st))"
    using assms by (auto simp: header_step_def Let_def split: if_splits)
  moreover have "hmac_md5_prefix C (recv_iv st @ master_key st) (take 1 (recv_buf st)) 6 =
      subslice 1 7 (recv_buf st)"
    "hmac_md5_prefix C (recv_iv st @ master_key st) (subslice 7 27 (recv_buf st)) 4 =
      subslice 27 31 (recv_buf st)"
    using True assms by (auto simp: header_step_def Let_def split: if_splits)
  ultimately show ?thesis using True
    by (simp add: header_step_def Let_def prefix_simps select_user_idem)
next
  case False
  then have "st' = st" using assms by (auto simp: header_step_def Let_def split: if_splits)
  then show ?thesis by simp
qed

subsection \<open>The receive path as a packet stream\<close>

definition auth_step :: "'cc crypto \<Rightarrow> auth \<Rightarrow> auth outcome" where
  "auth_step C st = (if has_recv_header st then data_step C st else header_step C st)"

lemma data_step_has_header:
  "data_step C st = Packet st' p \<Longrightarrow> has_recv_header st' = has_recv_header st"
  by (auto simp: data_step_def Let_def split: if_splits)

lemma post_decrypt_unfold:
  "post_decrypt_buffered C st out =
     (case auth_step C st of
        More st' \<Rightarrow> (st', Inr out)
      | Fail st' e \<Rightarrow> (st', Inl e)
      | Packet st' p \<Rightarrow> post_decrypt_buffered C st' (out @ p))"
  by (auto simp: post_decrypt_buffered_def auth_step_def data_loop.simps [of C st]
      dest: data_step_has_header header_step_packet_facts(3) split: outcome.splits)

interpretation auth_stream:
  packet_stream "auth_step C" "post_decrypt_buffered C" buffer "\<lambda>st. length (recv_buf st)"
  for C :: "'cc crypto"
proof
  fix st st' :: auth and out p ys xs e
  show "post_decrypt_buffered C st out =
     (case auth_step C st of
        More st' \<Rightarrow> (st', Inr out)
      | Fail st' e \<Rightarrow> (st', Inl e)
      | Packet st' p \<Rightarrow> post_decrypt_buffered C st' (out @ p))" by (rule post_decrypt_unfold)
  show "buffer st [] = st" by (simp add: buffer_def)
  show "buffer (buffer st xs) ys = buffer st (xs @ ys)" by (simp add: buffer_def)
  show "auth_step C (buffer st ys) = Packet (buffer st' ys) p" if "auth_step C st = Packet st' p"
    using that by (auto simp: auth_step_def data_step_packet_app header_step_packet_app
        split: if_splits)
  show "\<exists>t. auth_step C (buffer st ys) = Fail t e" if "auth_step C st = Fail st' e"
    using that by (auto simp: auth_step_def data_step_fail_app header_step_fail_app split: if_splits)
  show "auth_step C (buffer st' ys) = auth_step C (buffer st ys)" if "auth_step C st = More st'"
    using that by (auto simp: auth_step_def header_step_more_app dest: data_step_More split: if_splits)
  show "length (recv_buf st') < length (recv_buf st)" if "auth_step C st = Packet st' p"
    using that by (auto simp: auth_step_def dest: data_step_progress header_step_packet_facts(2)
        split: if_splits)
qed

lemma feed_post_decrypt:
  "auth_step C st = More st \<Longrightarrow>
   agree (feed_result (server_post_decrypt C) st cs) (server_post_decrypt C st (concat cs))"
  using auth_stream.feed_any_chunks [of C st cs] by (simp add: server_post_decrypt_def [abs_def])

lemma auth_new_quiet: "auth_step C (auth_new C mkey iv us multi) = More (auth_new C mkey iv us multi)"
  by (simp add: auth_step_def auth_new_def header_step_def Let_def)

subsection \<open>The wire format a peer is expected to follow\<close>

text \<open>
  The packets of the protocol, as a peer that holds \<open>ukey\<close> (and, for the auth header, the
  port's master key and the IV of its direction) builds them. \<open>pre\<close> is the random prefix of a
  data packet, whose first byte (or the two bytes after a 255) tells its length; \<open>pad\<close> is the
  random padding of the auth packet.
\<close>

definition valid_pre :: "bytes \<Rightarrow> bool" where
  "valid_pre pre \<longleftrightarrow> pre \<noteq> [] \<and>
     (if unat (hd pre) < 255 then unat (hd pre) = length pre
      else 3 \<le> length pre \<and> le_nat (take 2 (tl pre)) = length pre)"

definition wire_data_packet :: "'cc crypto \<Rightarrow> bytes \<Rightarrow> u32 \<Rightarrow> bytes \<Rightarrow> bytes \<Rightarrow> bytes" where
  "wire_data_packet C ukey i pre payload =
     (let len_bytes = le_bytes 2 (8 + length pre + length payload);
          packet = len_bytes @ hmac_md5_prefix C (data_mac_key ukey i) len_bytes 2 @ pre @ payload
      in packet @ hmac_md5_prefix C (data_mac_key ukey i) packet 4)"

fun wire_data_stream :: "'cc crypto \<Rightarrow> bytes \<Rightarrow> u32 \<Rightarrow> (bytes \<times> bytes) list \<Rightarrow> bytes" where
  "wire_data_stream C ukey i [] = []"
| "wire_data_stream C ukey i ((pre, payload) # ps) =
     wire_data_packet C ukey i pre payload @ wire_data_stream C ukey (i + 1) ps"

definition wire_ok :: "bytes \<times> bytes \<Rightarrow> bool" where
  "wire_ok = (\<lambda>(pre, payload). valid_pre pre \<and> 8 + length pre + length payload < MAX_PACKET)"

definition wire_auth_packet ::
  "'cc crypto \<Rightarrow> bytes \<Rightarrow> bytes \<Rightarrow> bytes \<Rightarrow> u32 \<Rightarrow> byte \<Rightarrow> bytes \<Rightarrow> bytes \<Rightarrow> bytes \<Rightarrow> bytes" where
  "wire_auth_packet C mkey iv ukey uid check auth12 pad payload =
     (let block = aes128_encrypt C (derive_aes_key C ukey)
            (auth12 @ le_bytes 2 (35 + length pad + length payload) @ le_bytes 2 (length pad));
          signed = le_bytes 4 (unat uid) @ block;
          full = check # hmac_md5_prefix C (iv @ mkey) [check] 6 @ signed @
            hmac_md5_prefix C (iv @ mkey) signed 4 @ pad @ payload
      in full @ hmac_md5_prefix C ukey full 4)"

text \<open>The key the server checks an auth packet of \<open>uid\<close> with, and the user it attributes it to.\<close>

definition selected_key :: "bytes \<Rightarrow> bytes \<Rightarrow> (u64 \<Rightarrow> bytes option) \<Rightarrow> int \<Rightarrow> u64 \<Rightarrow> bytes" where
  "selected_key mkey iv us multi uid =
     (case us uid of Some k \<Rightarrow> k | None \<Rightarrow> if multi = 2 then iv else mkey)"

definition selected_user :: "(u64 \<Rightarrow> bytes option) \<Rightarrow> u64 \<Rightarrow> u64 option" where
  "selected_user us uid = (if us uid = None then None else Some uid)"

subsection \<open>Decoding a data packet\<close>

lemma length_wire_data_packet [simp]:
  "crypto_ok C \<Longrightarrow> length (wire_data_packet C ukey i pre payload) = 8 + length pre + length payload"
  by (simp add: wire_data_packet_def Let_def)

lemma data_step_wire:
  assumes C: "crypto_ok C" and ok: "wire_ok (pre, payload)"
    and buf: "recv_buf st = wire_data_packet C (user_key st) (recv_id st) pre payload @ rest"
  shows "data_step C st = Packet (st\<lparr>recv_id := recv_id st + 1, recv_buf := rest\<rparr>) payload"
proof -
  let ?k = "data_mac_key (user_key st) (recv_id st)"
  let ?n = "8 + length pre + length payload"
  define L where "L = le_bytes 2 ?n"
  define M where "M = hmac_md5_prefix C ?k L 2"
  define T where "T = hmac_md5_prefix C ?k (L @ M @ pre @ payload) 4"
  have len: "length L = 2" "length M = 2" "length T = 4" using C by (simp_all add: L_def M_def T_def)
  have b: "recv_buf st = L @ M @ pre @ payload @ T @ rest"
    using buf by (simp add: wire_data_packet_def Let_def L_def M_def T_def)
  have pre: "valid_pre pre" "?n < 8192" using ok by (auto simp: wire_ok_def MAX_PACKET_def)
  have u: "u16_le (recv_buf st) = ?n"
    using len pre(2) by (simp add: u16_le_def b L_def wire_simps)
  have n4: "?n - 4 = length (L @ M @ pre @ payload)" using len by simp
  have t: "take (?n - 4) (recv_buf st) = L @ M @ pre @ payload" "subslice (?n - 4) ?n (recv_buf st) = T"
    "drop ?n (recv_buf st) = rest" using len by (simp_all add: b subslice_def)
  have m: "take 2 (recv_buf st) = L" "subslice 2 4 (recv_buf st) = M"
    using len by (simp_all add: b subslice_def)
  have hd: "recv_buf st ! 4 = hd pre"
    using len pre(1) by (cases pre) (auto simp: b nth_append valid_pre_def)
  have m2: "subslice 5 7 (recv_buf st) = take 2 (tl pre)" if "3 \<le> length pre"
    using that len by (cases pre) (auto simp: b subslice_def)
  have pos: "(if unat (recv_buf st ! 4) < 255 then unat (recv_buf st ! 4) + 4
      else u16_le (subslice 5 7 (recv_buf st)) + 4) = 4 + length pre"
    using pre(1) hd m2 by (auto simp: valid_pre_def u16_le_def split: if_splits)
  have out: "subslice (4 + length pre) (?n - 4) (recv_buf st) = payload"
    using len by (simp add: b subslice_def)
  have l: "4 < length (recv_buf st)" "?n \<le> length (recv_buf st)" using len by (simp_all add: b)
  show ?thesis
    unfolding data_step_def Let_def pos u t m out using l pre(2)
    by (simp add: M_def [symmetric] T_def [symmetric] MAX_PACKET_def)
qed

lemma data_loop_wire:
  assumes C: "crypto_ok C"
  shows "list_all wire_ok ps \<Longrightarrow> recv_buf st = wire_data_stream C (user_key st) (recv_id st) ps \<Longrightarrow>
     data_loop C st out =
       (st\<lparr>recv_id := recv_id st + word_of_nat (length ps), recv_buf := []\<rparr>,
        Inr (out @ concat (map snd ps)))"
proof (induction ps arbitrary: st out)
  case Nil
  then show ?case by (subst data_loop.simps) (simp add: data_step_def)
next
  case (Cons p ps)
  obtain pre payload where p: "p = (pre, payload)" by fastforce
  let ?st = "st\<lparr>recv_id := recv_id st + 1,
    recv_buf := wire_data_stream C (user_key st) (recv_id st + 1) ps\<rparr>"
  have "data_step C st = Packet ?st payload"
    using Cons.prems p by (intro data_step_wire [OF C]) auto
  moreover have "data_loop C ?st (out @ payload) =
      (?st\<lparr>recv_id := recv_id ?st + word_of_nat (length ps), recv_buf := []\<rparr>,
       Inr ((out @ payload) @ concat (map snd ps)))"
    using Cons.prems by (intro Cons.IH) auto
  ultimately show ?case using p by (subst data_loop.simps) (simp add: algebra_simps)
qed

subsection \<open>Decoding the auth packet\<close>

lemma length_derive_aes_key [simp]: "crypto_ok C \<Longrightarrow> length (derive_aes_key C k) = 16"
  by (simp add: derive_aes_key_def)

lemma unat_u32_mod: "unat (i :: u32) mod 4294967296 = unat i"
  by (rule mod_less) (rule unsigned_less [of i, simplified])

lemma select_user_fresh:
  assumes "st = buffer (auth_new C mkey iv us multi) ys"
  shows "user_key (select_user C st u) = selected_key mkey iv us multi u"
    "aes_key (select_user C st u) = derive_aes_key C (selected_key mkey iv us multi u)"
    "user_id (select_user C st u) = selected_user us u"
  by (simp_all add: assms select_user_def selected_key_def selected_user_def rebuild_aes_key_def
      auth_new_def buffer_def split: option.splits)

lemma header_step_wire:
  fixes mkey iv us multi uid
  defines "u \<equiv> word_of_nat (unat uid) :: u64"
  defines "ukey \<equiv> selected_key mkey iv us multi u"
  assumes C: "crypto_ok C" and a: "length auth12 = 12"
    and n: "35 + length pad + length payload < MAX_PACKET"
    and st: "st = buffer (auth_new C mkey iv us multi)
      (wire_auth_packet C mkey iv ukey uid check auth12 pad payload @ rest)"
  shows "header_step C st =
    Packet ((select_user C st u)\<lparr>recv_buf := rest, has_recv_header := True\<rparr>) payload"
proof -
  let ?n = "35 + length pad + length payload"
  define head where "head = auth12 @ le_bytes 2 ?n @ le_bytes 2 (length pad)"
  define B where "B = aes128_encrypt C (derive_aes_key C ukey) head"
  define U where "U = le_bytes 4 (unat uid)"
  define H where "H = hmac_md5_prefix C (iv @ mkey) [check] 6"
  define A where "A = hmac_md5_prefix C (iv @ mkey) (U @ B) 4"
  define S where "S = hmac_md5_prefix C ukey (check # H @ U @ B @ A @ pad @ payload) 4"
  have lh: "length head = 16" using a by (simp add: head_def)
  have len: "length U = 4" "length H = 6" "length A = 4" "length S = 4" "length B = 16"
    using C lh aes_okD(1) [OF crypto_okD(3) [OF C]] by (simp_all add: U_def H_def A_def S_def B_def)
  have b: "recv_buf st = check # H @ U @ B @ A @ pad @ payload @ S @ rest"
    by (simp add: st auth_new_def wire_auth_packet_def Let_def head_def B_def U_def H_def A_def S_def)
  have fields: "recv_iv st = iv" "master_key st = mkey" by (simp_all add: st auth_new_def)
  have sl: "take 1 (recv_buf st) = [check]" "subslice 1 7 (recv_buf st) = H"
    "subslice 7 27 (recv_buf st) = U @ B" "subslice 27 31 (recv_buf st) = A"
    "subslice 7 11 (recv_buf st) = U" "subslice 11 27 (recv_buf st) = B"
    using len by (simp_all add: b subslice_def)
  have uid: "header_uid (recv_buf st) = u"
    by (simp add: header_uid_def sl U_def wire_simps u_def unat_u32_mod)
  note sel = select_user_fresh [OF st, of u, folded ukey_def]
  have dec: "aes_decrypt_block C (select_user C st u) B = head"
    using aes_okD(2) [OF crypto_okD(3) [OF C], of "derive_aes_key C ukey" head] C lh
    by (simp add: aes_decrypt_block_def sel B_def)
  have lens: "u16_le (subslice 12 14 head) = ?n" "u16_le (subslice 14 16 head) = length pad"
    using a n by (simp_all add: head_def subslice_def u16_le_def wire_simps MAX_PACKET_def)
  have tk: "take (?n - 4) (recv_buf st) = check # H @ U @ B @ A @ pad @ payload"
    "subslice (?n - 4) ?n (recv_buf st) = S" "drop ?n (recv_buf st) = rest"
    "subslice (31 + length pad) (?n - 4) (recv_buf st) = payload"
    using len by (simp_all add: b subslice_def take_Cons' drop_Cons')
  have l: "?n \<le> length (recv_buf st)" using len by (simp add: b)
  show ?thesis
    unfolding header_step_def Let_def uid fields sl dec lens tk sel using l n
    by (simp add: H_def [symmetric] A_def [symmetric] S_def [symmetric])
qed

lemma post_decrypt_wire:
  fixes mkey iv us multi uid
  defines "u \<equiv> word_of_nat (unat uid) :: u64"
  defines "ukey \<equiv> selected_key mkey iv us multi u"
  assumes "crypto_ok C" "length auth12 = 12" "35 + length pad + length payload < MAX_PACKET"
    "list_all wire_ok ps"
  shows "\<exists>st. server_post_decrypt C (auth_new C mkey iv us multi)
      (wire_auth_packet C mkey iv ukey uid check auth12 pad payload @ wire_data_stream C ukey 1 ps) =
        (st, Inr (payload @ concat (map snd ps))) \<and>
     has_recv_header st \<and> user_id st = selected_user us u \<and> user_key st = ukey \<and> recv_buf st = [] \<and>
     recv_id st = 1 + word_of_nat (length ps) \<and> pack_id st = 1"
proof -
  let ?rest = "wire_data_stream C ukey 1 ps"
  let ?st = "buffer (auth_new C mkey iv us multi)
      (wire_auth_packet C mkey iv ukey uid check auth12 pad payload @ ?rest)"
  let ?s1 = "(select_user C ?st u)\<lparr>recv_buf := ?rest, has_recv_header := True\<rparr>"
  have h: "header_step C ?st = Packet ?s1 payload"
    unfolding u_def by (rule header_step_wire [OF assms(3,4,5)]) (simp add: ukey_def u_def)
  have sel: "user_key ?s1 = ukey" "user_id ?s1 = selected_user us u" "recv_id ?s1 = 1" "pack_id ?s1 = 1"
    using select_user_fresh [of ?st C mkey iv us multi _ u] by (simp_all add: ukey_def auth_new_def)
  have "data_loop C ?s1 ([] @ payload) = (?s1\<lparr>recv_id := recv_id ?s1 + word_of_nat (length ps),
      recv_buf := []\<rparr>, Inr (([] @ payload) @ concat (map snd ps)))"
    by (rule data_loop_wire [OF assms(3,6)]) (simp only: sel, simp)
  then show ?thesis using h sel
    by (simp add: server_post_decrypt_def post_decrypt_buffered_def auth_new_def)
qed

subsection \<open>The send path produces the wire format\<close>

text \<open>The payload pieces \<open>server_pre_encrypt\<close> cuts its argument into.\<close>

function units :: "bytes \<Rightarrow> bytes list" where
  "units rest = (if UNIT_LEN < length rest then take UNIT_LEN rest # units (drop UNIT_LEN rest) else [rest])"
  by pat_completeness auto
termination by (relation "measure length") (auto simp: UNIT_LEN_def)

declare units.simps [simp del]

lemma concat_units [simp]: "concat (units rest) = rest"
proof (induction rest rule: units.induct)
  case (1 rest)
  then show ?case by (subst units.simps) simp
qed

lemma units_small: "b \<in> set (units rest) \<Longrightarrow> length b \<le> UNIT_LEN"
proof (induction rest rule: units.induct)
  case (1 rest)
  then show ?case
    by (cases "UNIT_LEN < length rest") (auto simp: units.simps [of rest])
qed

lemma length_units: "length (units rest) = (if rest = [] then 1 else (length rest + 8099) div 8100)"
proof (induction rest rule: units.induct)
  case (1 rest)
  show ?case
  proof (cases "UNIT_LEN < length rest")
    case True
    have "(length rest + 8099) div 8100 = Suc ((length rest - 8100 + 8099) div 8100)"
      using True by (simp add: UNIT_LEN_def)
    with True 1 show ?thesis by (subst units.simps) (auto simp: UNIT_LEN_def)
  next
    case False
    then have "(length rest + 8099) div 8100 = 1" if "rest \<noteq> []"
      using that by (cases rest) (simp_all add: UNIT_LEN_def)
    with False show ?thesis by (subst units.simps) simp
  qed
qed

lemma pack_data_wire:
  assumes "length b \<le> UNIT_LEN"
  shows "pack_data C st b =
    (st\<lparr>pack_id := pack_id st + 1\<rparr>, wire_data_packet C (user_key st) (pack_id st) [1] b)"
proof -
  have "unat (word_of_nat (length (1 # b) + 8) :: u16) = 8 + length [1 :: byte] + length b"
    using assms by (simp add: unat_of_nat UNIT_LEN_def del: of_nat_add of_nat_Suc)
  then show ?thesis unfolding pack_data_def wire_data_packet_def Let_def by (simp del: of_nat_add of_nat_Suc)
qed

lemma server_pre_encrypt_wire:
  "server_pre_encrypt C st plain =
    (st\<lparr>pack_id := pack_id st + word_of_nat (length (units plain))\<rparr>,
     wire_data_stream C (user_key st) (pack_id st) (map (\<lambda>b. ([1], b)) (units plain)))"
proof (induction C st plain rule: server_pre_encrypt.induct)
  case (1 C st rest)
  show ?case
  proof (cases "UNIT_LEN < length rest")
    case True
    then have p: "pack_data C st (take UNIT_LEN rest) = (st\<lparr>pack_id := pack_id st + 1\<rparr>,
        wire_data_packet C (user_key st) (pack_id st) [1] (take UNIT_LEN rest))"
      by (intro pack_data_wire) simp
    from "1.IH" [OF True p [symmetric]] True show ?thesis
      by (subst server_pre_encrypt.simps, subst units.simps, subst (2) units.simps)
        (simp add: p algebra_simps)
  next
    case False
    then show ?thesis
      by (subst server_pre_encrypt.simps, subst units.simps, subst (2) units.simps)
        (simp add: pack_data_wire)
  qed
qed

lemma wire_ok_units: "list_all wire_ok (map (\<lambda>b. ([1], b)) (units plain))"
  by (auto simp: list_all_iff wire_ok_def valid_pre_def MAX_PACKET_def UNIT_LEN_def
      dest!: units_small)

lemma length_wire_data_stream:
  "crypto_ok C \<Longrightarrow> length (wire_data_stream C ukey i (map (\<lambda>b. ([1], b)) bs)) =
     length (concat bs) + 9 * length bs"
  by (induction bs arbitrary: i) simp_all

subsection \<open>Properties\<close>

text \<open>A peer that shares the user key and expects the server's next packet number recovers
  exactly the bytes handed to \<open>server_pre_encrypt\<close>, for payloads of every length: all length
  and packet MACs verify, the 16-bit length field never truncates, nothing is left in the
  peer's buffer, and both packet counters advance (wrapping) by the same amount.\<close>

theorem pre_encrypt_roundtrip:
  assumes "crypto_ok C" "server_pre_encrypt C st plain = (st', wire)"
    and "has_recv_header peer" "user_key peer = user_key st" "recv_id peer = pack_id st"
      "recv_buf peer = []"
  shows "server_post_decrypt C peer wire = (peer\<lparr>recv_id := pack_id st'\<rparr>, Inr plain)"
proof -
  have w: "wire = wire_data_stream C (user_key st) (pack_id st) (map (\<lambda>b. ([1], b)) (units plain))"
    and p: "pack_id st' = pack_id st + word_of_nat (length (units plain))"
    using assms(2) by (auto simp: server_pre_encrypt_wire)
  have "data_loop C (buffer peer wire) [] =
      ((buffer peer wire)\<lparr>recv_id := recv_id peer + word_of_nat (length (units plain)), recv_buf := []\<rparr>,
       Inr plain)"
    using data_loop_wire [OF assms(1) wire_ok_units, of "buffer peer wire" plain "[]"] assms w
    by (simp add: comp_def)
  then show ?thesis using assms p
    by (simp add: server_post_decrypt_def post_decrypt_buffered_def buffer_def)
qed

theorem pre_encrypt_roundtrip_witness:
  "let st = auth_new sample_crypto [1] [2] Map.empty 0; (st', wire) = server_pre_encrypt sample_crypto st [5, 6];
       peer = st\<lparr>has_recv_header := True\<rparr>
   in crypto_ok sample_crypto \<and> user_key peer = user_key st \<and> recv_id peer = pack_id st \<and> recv_buf peer = [] \<and>
      server_post_decrypt sample_crypto peer wire = (peer\<lparr>recv_id := pack_id st'\<rparr>, Inr [5, 6])"
proof -
  let ?st = "auth_new sample_crypto [1] [2] Map.empty 0"
  have p: "server_pre_encrypt sample_crypto ?st [5, 6] = (fst (server_pre_encrypt sample_crypto ?st [5, 6]),
      snd (server_pre_encrypt sample_crypto ?st [5, 6]))" by simp
  show ?thesis
    using pre_encrypt_roundtrip [OF sample_crypto_ok p, of "?st\<lparr>has_recv_header := True\<rparr>"] sample_crypto_ok
    by (simp add: case_prod_beta Let_def auth_new_def)
qed

text \<open>The size of what is sent. Every packet costs 9 bytes (length, length MAC, marker,
  packet MAC), and the number of packets is one per started 8100 bytes, at least one; the
  packet counter advances by exactly that number.\<close>

theorem pre_encrypt_overhead:
  assumes "crypto_ok C" "server_pre_encrypt C st plain = (st', wire)"
  shows "let packets = (if plain = [] then 1 else (length plain + 8099) div 8100)
         in length wire = length plain + 9 * packets \<and> pack_id st' = pack_id st + word_of_nat packets"
  using assms by (auto simp: server_pre_encrypt_wire length_wire_data_stream length_units)

theorem pre_encrypt_overhead_witness:
  "length (snd (server_pre_encrypt sample_crypto (auth_new sample_crypto [1] [2] Map.empty 0) [5, 6])) = 11"
  using pre_encrypt_overhead [OF sample_crypto_ok, of "auth_new sample_crypto [1] [2] Map.empty 0" "[5, 6]"
      "fst (server_pre_encrypt sample_crypto (auth_new sample_crypto [1] [2] Map.empty 0) [5, 6])"
      "snd (server_pre_encrypt sample_crypto (auth_new sample_crypto [1] [2] Map.empty 0) [5, 6])"]
  by (simp add: Let_def)

text \<open>C24: memory bound of the receive path. Whatever bytes arrive, in whatever state, a call that
  does not fail leaves fewer than \<open>MAX_PACKET\<close> bytes in the buffer; a peer cannot make the
  server hoard data by withholding the end of a packet.\<close>

theorem post_decrypt_buffer_bound:
  assumes "server_post_decrypt C st incoming = (st', Inr out)"
  shows "length (recv_buf st') < MAX_PACKET"
proof -
  have "auth_step C st' = More st'"
    using assms unfolding server_post_decrypt_def by (rule auth_stream.run_quiet)
  then show ?thesis
    by (auto simp: auth_step_def header_step_def data_step_def Let_def MAX_PACKET_def split: if_splits)
qed

theorem post_decrypt_buffer_bound_witness:
  "server_post_decrypt sample_crypto (auth_new sample_crypto [1] [2] Map.empty 0) [3, 4] =
     (buffer (auth_new sample_crypto [1] [2] Map.empty 0) [3, 4], Inr []) \<and>
   length (recv_buf (buffer (auth_new sample_crypto [1] [2] Map.empty 0) [3, 4])) < MAX_PACKET"
proof -
  have h: "server_post_decrypt sample_crypto (auth_new sample_crypto [1] [2] Map.empty 0) [3, 4] =
      (buffer (auth_new sample_crypto [1] [2] Map.empty 0) [3, 4], Inr [])"
    by (simp add: server_post_decrypt_def post_decrypt_buffered_def header_step_def auth_new_def)
  show ?thesis using h post_decrypt_buffer_bound [OF h] by simp
qed

subsection \<open>Attribution\<close>

lemma data_step_user:
  "data_step C st = Packet st' p \<Longrightarrow> user_id st' = user_id st \<and> user_key st' = user_key st"
  "data_step C st = More st' \<Longrightarrow> user_id st' = user_id st \<and> user_key st' = user_key st"
  by (auto simp: data_step_def Let_def split: if_splits)

lemma data_loop_user:
  "data_loop C st out = (st', Inr q) \<Longrightarrow>
   user_id st' = user_id st \<and> user_key st' = user_key st \<and> has_recv_header st' = has_recv_header st"
proof (induction C st out rule: data_loop.induct)
  case (1 C st out)
  then show ?case
    by (subst (asm) (2) data_loop.simps)
      (fastforce dest: data_step_user data_step_has_header data_step_More split: outcome.splits)
qed

lemma header_step_sound:
  assumes "header_step C st = Packet st' p" and u: "u = header_uid (recv_buf st)"
  shows "user_id st' = user_id (select_user C st u) \<and>
    hmac_md5_prefix C (recv_iv st @ master_key st) (subslice 7 27 (recv_buf st)) 4 =
      subslice 27 31 (recv_buf st) \<and>
    (\<exists>len. 31 \<le> len \<and> len \<le> length (recv_buf st) \<and>
       hmac_md5_prefix C (user_key (select_user C st u)) (take (len - 4) (recv_buf st)) 4 =
         subslice (len - 4) len (recv_buf st))"
  using assms by (auto simp: header_step_def Let_def split: if_splits)

text \<open>C18: attribution is sound. When the server finishes the handshake of a fresh connection and
  attributes it to user \<open>u\<close>, the stream named \<open>u\<close> in its auth header, \<open>u\<close> is in the user
  table, the uid field is covered by a MAC under the port's master key and the IV, and the
  auth packet carries a checksum under the key of exactly that user.\<close>

theorem handshake_attribution_sound:
  assumes "server_post_decrypt C (auth_new C mkey iv us multi) stream = (st, Inr out)"
    and "has_recv_header st" "user_id st = Some u"
  shows "u = header_uid stream \<and>
    hmac_md5_prefix C (iv @ mkey) (subslice 7 27 stream) 4 = subslice 27 31 stream \<and>
    (\<exists>k len. us u = Some k \<and> 31 \<le> len \<and> len \<le> length stream \<and>
       hmac_md5_prefix C k (take (len - 4) stream) 4 = subslice (len - 4) len stream)"
proof -
  let ?st = "buffer (auth_new C mkey iv us multi) stream"
  have f: "recv_buf ?st = stream" "recv_iv ?st = iv" "master_key ?st = mkey" "\<not> has_recv_header ?st"
    by (simp_all add: auth_new_def)
  have "\<exists>s p. header_step C ?st = Packet s p \<and> data_loop C s p = (st, Inr out)"
  proof (cases "header_step C ?st")
    case (More s)
    then have "has_recv_header s = False" using header_step_more_app [OF More, of "[]"] f by simp
    then show ?thesis using assms(1,2) More f
      by (simp add: server_post_decrypt_def post_decrypt_buffered_def)
  qed (use assms f in \<open>simp_all add: server_post_decrypt_def post_decrypt_buffered_def\<close>)
  then obtain s p where s: "header_step C ?st = Packet s p" "data_loop C s p = (st, Inr out)" by blast
  have us: "user_id s = Some u" using data_loop_user [OF s(2)] assms(3) by simp
  note sound = header_step_sound [OF s(1) refl, unfolded f]
  have sel: "user_id (select_user C ?st (header_uid stream)) = selected_user us (header_uid stream)"
    "user_key (select_user C ?st (header_uid stream)) = selected_key mkey iv us multi (header_uid stream)"
    by (simp_all add: select_user_fresh [OF refl])
  then obtain k where "us u = Some k" "u = header_uid stream"
    using sound us by (auto simp: selected_user_def split: if_splits)
  then show ?thesis using sound sel by (auto simp: selected_key_def)
qed

theorem handshake_attribution_sound_witness:
  "\<exists>stream st out. server_post_decrypt sample_crypto (auth_new sample_crypto [1] [2] [7 \<mapsto> [8]] 2) stream =
       (st, Inr out) \<and> has_recv_header st \<and> user_id st = Some 7 \<and> header_uid stream = 7 \<and>
     (\<exists>len. hmac_md5_prefix sample_crypto [8] (take (len - 4) stream) 4 = subslice (len - 4) len stream)"
proof -
  obtain stream st where
    h: "server_post_decrypt sample_crypto (auth_new sample_crypto [1] [2] [7 \<mapsto> [8]] 2) stream = (st, Inr [9])"
      "has_recv_header st" "user_id st = Some 7"
    using post_decrypt_wire [OF sample_crypto_ok, of "replicate 12 0" "[]" "[9]" "[]" "[1]" "[2]"
        "[7 \<mapsto> [8]]" 2 7 3]
    by (auto simp: MAX_PACKET_def selected_user_def)
  show ?thesis using h handshake_attribution_sound [OF h] by auto
qed

text \<open>C35: on a single-port node (\<open>is_multi_user = 2\<close>) an auth packet whose uid is in no table is
  accepted, with no user attributed, when its checksum is keyed with the connection's own IV.
  The IV is sent in the clear and chosen by the client, so knowing the port password alone is
  enough; the comment in \<open>server_post_decrypt\<close> expects such packets to fail the checksum.\<close>

theorem unknown_uid_accepted_under_iv:
  assumes "crypto_ok C" "us (word_of_nat (unat uid)) = None" "length auth12 = 12"
    and "35 + length pad + length payload < MAX_PACKET"
  shows "\<exists>st. server_post_decrypt C (auth_new C mkey iv us 2)
           (wire_auth_packet C mkey iv iv uid check auth12 pad payload) = (st, Inr payload) \<and>
         has_recv_header st \<and> user_id st = None"
  using post_decrypt_wire [OF assms(1,3,4), of "[]" mkey iv us 2 uid check] assms(2)
  by (auto simp: selected_key_def selected_user_def)

theorem unknown_uid_accepted_under_iv_witness:
  "crypto_ok sample_crypto \<and> (Map.empty :: u64 \<Rightarrow> bytes option) (word_of_nat (unat (5 :: u32))) = None \<and>
   (\<exists>st. server_post_decrypt sample_crypto (auth_new sample_crypto [1] [2] Map.empty 2)
      (wire_auth_packet sample_crypto [1] [2] [2] 5 0 (replicate 12 0) [] [9]) = (st, Inr [9]) \<and>
      has_recv_header st \<and> user_id st = None)"
proof -
  have h: "(Map.empty :: u64 \<Rightarrow> bytes option) (word_of_nat (unat (5 :: u32))) = None"
    "length (replicate 12 (0 :: byte)) = 12" "35 + length ([] :: bytes) + length [9 :: byte] < MAX_PACKET"
    by (simp_all add: MAX_PACKET_def)
  show ?thesis
    using unknown_uid_accepted_under_iv [where uid = 5 and mkey = "[1]" and iv = "[2]" and check = 0,
        OF sample_crypto_ok h] h(1) sample_crypto_ok
    by blast
qed

subsection \<open>Datagrams\<close>

lemma udp_accept_spec:
  "udp_server_post_decrypt C mkey us multi iv buf = Inr (p, who) \<longleftrightarrow>
   (\<exists>uid4 mac. buf = p @ uid4 @ mac \<and> length uid4 = 4 \<and> length mac = 4 \<and>
      who = snd (udp_user mkey us multi iv (word_of_nat (le_nat uid4))) \<and>
      mac = hmac_md5_prefix C (fst (udp_user mkey us multi iv (word_of_nat (le_nat uid4)))) (p @ uid4) 4)"
  (is "?L \<longleftrightarrow> ?R")
proof
  assume L: ?L
  let ?n = "length buf"
  have n: "8 \<le> ?n" using L by (auto simp: udp_server_post_decrypt_def split: if_splits)
  have p: "p = take (?n - 8) buf" using L
    by (auto simp: udp_server_post_decrypt_def Let_def split: if_splits prod.splits)
  let ?u = "subslice (?n - 8) (?n - 4) buf" and ?m = "drop (?n - 4) buf"
  have pu: "p @ ?u = take (?n - 4) buf"
    using n by (simp add: p subslice_def take_add [symmetric])
  then have "buf = p @ ?u @ ?m" by (metis append.assoc append_take_drop_id)
  moreover have "length ?u = 4" "length ?m = 4" using n by (simp_all add: length_slice)
  ultimately show ?R using L n pu
    by (intro exI [of _ ?u] exI [of _ ?m])
      (auto simp: udp_server_post_decrypt_def Let_def split: if_splits prod.splits)
next
  assume ?R
  then obtain uid4 mac where R: "buf = p @ uid4 @ mac" "length uid4 = 4" "length mac = 4"
    "who = snd (udp_user mkey us multi iv (word_of_nat (le_nat uid4)))"
    "mac = hmac_md5_prefix C (fst (udp_user mkey us multi iv (word_of_nat (le_nat uid4)))) (p @ uid4) 4"
    by blast
  have sl: "subslice (length buf - 8) (length buf - 4) buf = uid4" "take (length buf - 4) buf = p @ uid4"
    "drop (length buf - 4) buf = mac" "take (length buf - 8) buf = p"
    using R(2,3) by (simp_all add: R(1) subslice_def)
  have "8 \<le> length buf" using R(1,2,3) by simp
  then show ?L unfolding udp_server_post_decrypt_def Let_def case_prod_beta sl
    using R(4,5) by simp
qed

text \<open>Exact acceptance condition of a client datagram. The body is accepted, with payload
  \<open>p\<close> and attribution \<open>who\<close>, if and only if it is \<open>p\<close> followed by a 4-byte uid and the first 4
  bytes of the HMAC of everything before it, under the key the uid selects: the table entry,
  or else the master key on an ordinary port and the datagram's IV on a multi-user port.\<close>

theorem udp_post_decrypt_iff:
  "udp_server_post_decrypt C mkey us multi iv buf = Inr (p, who) \<longleftrightarrow>
   (\<exists>uid4 mac. buf = p @ uid4 @ mac \<and> length uid4 = 4 \<and> length mac = 4 \<and>
      who = snd (udp_user mkey us multi iv (word_of_nat (le_nat uid4))) \<and>
      mac = hmac_md5_prefix C (fst (udp_user mkey us multi iv (word_of_nat (le_nat uid4)))) (p @ uid4) 4)"
  by (rule udp_accept_spec)

end
