(* ===== verification/Rust_Net.thy ===== *)
theory Rust_Net
  imports Rust_Str "HOL-Library.Monad_Syntax"
begin

text \<open>
  The parts of Rust's \<open>core::net\<close> and \<open>core::str\<close> the sources use: \<open>IpAddr\<close> values,
  their octets and their text form in both directions (\<open>Display\<close> and \<open>FromStr\<close>, following
  the standard library's recursive-descent parser), IPv4-mapped IPv6 addresses, and the
  UTF-8 check of \<open>str::from_utf8\<close>.
\<close>

datatype ip_addr = V4 u32 | V6 u128

record socket_addr =
  sa_ip :: ip_addr
  sa_port :: u16

definition v4_octets :: "u32 \<Rightarrow> bytes" where
  "v4_octets a = be_bytes 4 (unat a)"

definition v4_of_octets :: "bytes \<Rightarrow> u32" where
  "v4_of_octets bs = word_of_nat (be_nat bs)"

definition v6_octets :: "u128 \<Rightarrow> bytes" where
  "v6_octets a = be_bytes 16 (unat a)"

definition v6_of_octets :: "bytes \<Rightarrow> u128" where
  "v6_of_octets bs = word_of_nat (be_nat bs)"

fun is_ipv4 :: "ip_addr \<Rightarrow> bool" where
  "is_ipv4 (V4 _) = True"
| "is_ipv4 (V6 _) = False"

text \<open>\<open>Ipv6Addr::to_ipv4_mapped\<close> and \<open>Ipv4Addr::to_ipv6_mapped\<close>: \<open>::ffff:a.b.c.d\<close>.\<close>

definition to_ipv4_mapped :: "u128 \<Rightarrow> u32 option" where
  "to_ipv4_mapped a = (if unat a div 2 ^ 32 = 0xFFFF then Some (word_of_nat (unat a mod 2 ^ 32)) else None)"

definition to_ipv6_mapped :: "u32 \<Rightarrow> u128" where
  "to_ipv6_mapped a = word_of_nat (0xFFFF * 2 ^ 32 + unat a)"

subsection \<open>Display\<close>

fun join :: "string \<Rightarrow> string list \<Rightarrow> string" where
  "join sep [] = []"
| "join sep [x] = x"
| "join sep (x # y # ys) = x @ sep @ join sep (y # ys)"

definition show_v4 :: "u32 \<Rightarrow> string" where
  "show_v4 a = join ''.'' (map (\<lambda>b. show_dec (unat b)) (v4_octets a))"

text \<open>The eight 16-bit groups, most significant first.\<close>

definition v6_segments :: "u128 \<Rightarrow> nat list" where
  "v6_segments a = map (\<lambda>i. unat a div 65536 ^ (7 - i) mod 65536) [0..<8]"

text \<open>The first longest run of zero groups, as (start, length): the loop of \<open>Display\<close> with its
  \<open>longest\<close> and \<open>current\<close> spans.\<close>

fun zero_run :: "nat \<Rightarrow> nat \<times> nat \<Rightarrow> nat \<times> nat \<Rightarrow> nat list \<Rightarrow> nat \<times> nat" where
  "zero_run i longest current [] = longest"
| "zero_run i longest current (g # gs) =
     (if g = 0 then
        let cur = ((if snd current = 0 then i else fst current), snd current + 1);
            lon = (if snd longest < snd cur then cur else longest)
        in zero_run (Suc i) lon cur gs
      else zero_run (Suc i) longest (0, 0) gs)"

definition show_groups :: "nat list \<Rightarrow> string" where
  "show_groups gs = join '':'' (map (show_radix 16) gs)"

definition show_v6 :: "u128 \<Rightarrow> string" where
  "show_v6 a =
     (case to_ipv4_mapped a of
        Some v4 \<Rightarrow> ''::ffff:'' @ show_v4 v4
      | None \<Rightarrow>
          let gs = v6_segments a; (start, n) = zero_run 0 (0, 0) (0, 0) gs
          in if 1 < n then show_groups (take start gs) @ ''::'' @ show_groups (drop (start + n) gs)
             else show_groups gs)"

fun show_ip :: "ip_addr \<Rightarrow> string" where
  "show_ip (V4 a) = show_v4 a"
| "show_ip (V6 a) = show_v6 a"

subsection \<open>FromStr\<close>

text \<open>\<open>read_number(radix, Some(max_digits), allow_zero_prefix)\<close> into a type with maximum \<open>mx\<close>;
  a parser returns the value and the unread rest, \<open>None\<close> leaves the input where it was.\<close>

definition read_number :: "nat \<Rightarrow> nat \<Rightarrow> bool \<Rightarrow> nat \<Rightarrow> string \<Rightarrow> (nat \<times> string) option" where
  "read_number radix max_digits allow_zero mx s =
     (let ds = takeWhile (\<lambda>c. to_digit radix c \<noteq> None) s;
          v = foldl (\<lambda>a c. a * radix + the (to_digit radix c)) 0 ds
      in if max_digits < length ds then None
         else if ds = [] then None
         else if \<not> allow_zero \<and> hd s = CHR ''0'' \<and> 1 < length ds then None
         else if mx < v then None
         else Some (v, drop (length ds) s))"

definition read_separator ::
  "char \<Rightarrow> nat \<Rightarrow> (string \<Rightarrow> ('a \<times> string) option) \<Rightarrow> string \<Rightarrow> ('a \<times> string) option" where
  "read_separator sep index inner s =
     (if 0 < index then (case s of c # r \<Rightarrow> if c = sep then inner r else None | [] \<Rightarrow> None)
      else inner s)"

definition read_octet :: "string \<Rightarrow> (nat \<times> string) option" where
  "read_octet = read_number 10 3 False 255"

definition read_ipv4_addr :: "string \<Rightarrow> (u32 \<times> string) option" where
  "read_ipv4_addr s = do {
     (a, s1) \<leftarrow> read_separator CHR ''.'' 0 read_octet s;
     (b, s2) \<leftarrow> read_separator CHR ''.'' 1 read_octet s1;
     (c, s3) \<leftarrow> read_separator CHR ''.'' 2 read_octet s2;
     (d, s4) \<leftarrow> read_separator CHR ''.'' 3 read_octet s3;
     Some (word_of_nat (((a * 256 + b) * 256 + c) * 256 + d), s4)
   }"

text \<open>\<open>read_groups\<close> on \<open>limit\<close> slots from slot \<open>i\<close> on: the groups read, whether the last two
  came from an embedded IPv4 address, and the unread rest.\<close>

function read_groups :: "nat \<Rightarrow> nat \<Rightarrow> string \<Rightarrow> nat list \<times> bool \<times> string" where
  "read_groups limit i s =
     (if i < limit then
        case (if i < limit - 1 then read_separator CHR '':'' i read_ipv4_addr s else None) of
          Some (v4, r) \<Rightarrow> ([unat v4 div 65536, unat v4 mod 65536], True, r)
        | None \<Rightarrow>
            (case read_separator CHR '':'' i (read_number 16 4 True 65535) s of
               None \<Rightarrow> ([], False, s)
             | Some (g, r) \<Rightarrow>
                 let (gs, v4, r') = read_groups limit (Suc i) r in (g # gs, v4, r'))
      else ([], False, s))"
  by pat_completeness auto
termination by (relation "measure (\<lambda>(limit, i, s). limit - i)") auto

declare read_groups.simps [simp del]

definition groups_v6 :: "nat list \<Rightarrow> u128" where
  "groups_v6 gs = word_of_nat (foldl (\<lambda>a g. a * 65536 + g) 0 gs)"

definition read_ipv6_addr :: "string \<Rightarrow> (u128 \<times> string) option" where
  "read_ipv6_addr s =
     (let (head, head_ipv4, r) = read_groups 8 0 s in
      if length head = 8 then Some (groups_v6 head, r)
      else if head_ipv4 then None
      else (case r of
         c1 # c2 # r2 \<Rightarrow>
           if c1 = CHR '':'' \<and> c2 = CHR '':'' then
             let (tail, _, r3) = read_groups (8 - (length head + 1)) 0 r2
             in Some (groups_v6 (head @ replicate (8 - length head - length tail) 0 @ tail), r3)
           else None
       | _ \<Rightarrow> None))"

definition parse_ip :: "string \<Rightarrow> ip_addr option" where
  "parse_ip s =
     (case read_ipv4_addr s of
        Some (a, r) \<Rightarrow> if r = [] then Some (V4 a) else None
      | None \<Rightarrow>
          (case read_ipv6_addr s of
             Some (a, r) \<Rightarrow> if r = [] then Some (V6 a) else None
           | None \<Rightarrow> None))"

subsection \<open>UTF-8\<close>

definition cont :: "nat \<Rightarrow> bool" where
  "cont b \<longleftrightarrow> 0x80 \<le> b \<and> b \<le> 0xBF"

definition utf8_2 :: "nat \<Rightarrow> nat \<Rightarrow> bool" where
  "utf8_2 a b \<longleftrightarrow> 0xC2 \<le> a \<and> a \<le> 0xDF \<and> cont b"

definition utf8_3 :: "nat \<Rightarrow> nat \<Rightarrow> nat \<Rightarrow> bool" where
  "utf8_3 a b c \<longleftrightarrow> cont c \<and>
     (a = 0xE0 \<and> 0xA0 \<le> b \<and> b \<le> 0xBF \<or> 0xE1 \<le> a \<and> a \<le> 0xEC \<and> cont b \<or>
      a = 0xED \<and> 0x80 \<le> b \<and> b \<le> 0x9F \<or> 0xEE \<le> a \<and> a \<le> 0xEF \<and> cont b)"

definition utf8_4 :: "nat \<Rightarrow> nat \<Rightarrow> nat \<Rightarrow> nat \<Rightarrow> bool" where
  "utf8_4 a b c d \<longleftrightarrow> cont c \<and> cont d \<and>
     (a = 0xF0 \<and> 0x90 \<le> b \<and> b \<le> 0xBF \<or> 0xF1 \<le> a \<and> a \<le> 0xF3 \<and> cont b \<or>
      a = 0xF4 \<and> 0x80 \<le> b \<and> b \<le> 0x8F)"

fun utf8_valid :: "bytes \<Rightarrow> bool" where
  "utf8_valid [] = True"
| "utf8_valid [a] = (unat a < 0x80)"
| "utf8_valid [a, b] =
     (if unat a < 0x80 then utf8_valid [b] else utf8_2 (unat a) (unat b))"
| "utf8_valid [a, b, c] =
     (if unat a < 0x80 then utf8_valid [b, c]
      else if utf8_2 (unat a) (unat b) then utf8_valid [c]
      else utf8_3 (unat a) (unat b) (unat c))"
| "utf8_valid (a # b # c # d # r) =
     (if unat a < 0x80 then utf8_valid (b # c # d # r)
      else if utf8_2 (unat a) (unat b) then utf8_valid (c # d # r)
      else if utf8_3 (unat a) (unat b) (unat c) then utf8_valid (d # r)
      else utf8_4 (unat a) (unat b) (unat c) (unat d) \<and> utf8_valid r)"

definition from_utf8 :: "bytes \<Rightarrow> string option" where
  "from_utf8 b = (if utf8_valid b then Some (bytes_str b) else None)"

subsection \<open>Lemmas\<close>

lemma length_v4_octets [simp]: "length (v4_octets a) = 4"
  by (simp add: v4_octets_def)

lemma length_v6_octets [simp]: "length (v6_octets a) = 16"
  by (simp add: v6_octets_def)

lemma v4_of_octets_octets [simp]: "v4_of_octets (v4_octets a) = a"
proof -
  have "unat a mod 4294967296 = unat a"
    by (rule mod_less) (rule unsigned_less [of a, simplified])
  then show ?thesis by (simp add: v4_of_octets_def v4_octets_def wire_simps)
qed

lemma v6_of_octets_octets [simp]: "v6_of_octets (v6_octets a) = a"
proof -
  have "unat a mod 340282366920938463463374607431768211456 = unat a"
    by (rule mod_less) (rule unsigned_less [of a, simplified])
  then show ?thesis by (simp add: v6_of_octets_def v6_octets_def wire_simps)
qed

lemma to_ipv4_mapped_mapped [simp]: "to_ipv4_mapped (to_ipv6_mapped a) = Some a"
proof -
  have a: "unat a < 4294967296" by (rule unsigned_less [of a, simplified])
  then have u: "unat (to_ipv6_mapped a) = 281470681743360 + unat a"
    by (simp add: to_ipv6_mapped_def unat_of_nat del: of_nat_add)
  have "281470681743360 + unat a = unat a + 65535 * 4294967296" by simp
  then have "(281470681743360 + unat a) div 4294967296 = 65535"
    "(281470681743360 + unat a) mod 4294967296 = unat a"
    using a by (simp_all only: mod_mult_self1 div_mult_self1 mod_less div_less)
  then show ?thesis by (simp add: to_ipv4_mapped_def u)
qed

subsection \<open>Reading back a rendered IPv4 address\<close>

lemma to_digit_show_dec: "c \<in> set (show_dec n) \<Longrightarrow> to_digit 10 c \<noteq> None"
  using digit_of_show_dec [of c n] by (auto simp: to_digit_def Let_def)

lemma foldl_show_dec:
  "foldl (\<lambda>a c. a * 10 + the (to_digit 10 c)) 0 (show_radix 10 n) = n"
proof (induction n rule: less_induct)
  case (less n)
  show ?case
  proof (cases "n < 10")
    case False
    then have "foldl (\<lambda>a c. a * 10 + the (to_digit 10 c)) 0 (show_radix 10 (n div 10)) = n div 10"
      by (intro less.IH) simp
    with False show ?thesis by (subst show_radix.simps) simp
  qed (subst show_radix.simps, simp)
qed

lemma length_show_radix: "0 < k \<Longrightarrow> n < 10 ^ k \<Longrightarrow> length (show_radix 10 n) \<le> k"
proof (induction k arbitrary: n)
  case (Suc k)
  show ?case
  proof (cases "n < 10")
    case False
    with Suc.prems have "0 < k" by (cases k) auto
    moreover have "n div 10 < 10 ^ k" using Suc.prems by (simp add: div_less_iff_less_mult)
    ultimately have "length (show_radix 10 (n div 10)) \<le> k" by (rule Suc.IH)
    with False show ?thesis by (subst show_radix.simps) simp
  qed (subst show_radix.simps, simp)
qed simp

lemma hd_show_radix: "0 < n \<Longrightarrow> hd (show_radix 10 n) \<noteq> CHR ''0''"
proof (induction n rule: less_induct)
  case (less n)
  show ?case
  proof (cases "n < 10")
    case True
    have "code CHR ''0'' = 48" by (simp add: code_def)
    moreover have "code (digit_char n) \<noteq> 48" using less.prems True by simp
    ultimately have "digit_char n \<noteq> CHR ''0''" by metis
    with True show ?thesis by (subst show_radix.simps) simp
  next
    case False
    with less.IH [of "n div 10"] show ?thesis by (subst show_radix.simps) simp
  qed
qed

lemma read_octet_show:
  assumes "n < 256" and "rest = [] \<or> to_digit 10 (hd rest) = None"
  shows "read_octet (show_dec n @ rest) = Some (n, rest)"
proof -
  have tw: "takeWhile (\<lambda>c. to_digit 10 c \<noteq> None) (show_dec n @ rest) = show_dec n"
    using assms(2) to_digit_show_dec [of _ n] by (cases rest) (simp_all add: takeWhile_append2)
  have len: "length (show_dec n) \<le> 3"
    using length_show_radix [of 3 n] assms(1) by (simp add: show_dec_def)
  have zero: "\<not> (hd (show_dec n @ rest) = CHR ''0'' \<and> 1 < length (show_dec n))"
  proof (cases "n = 0")
    case True
    then show ?thesis by (simp add: show_dec_def) (simp add: show_radix.simps)
  next
    case False
    then show ?thesis using hd_show_radix [of n] by (simp add: show_dec_def)
  qed
  have val: "foldl (\<lambda>a c. a * 10 + the (to_digit 10 c)) 0 (show_dec n) = n"
    by (simp add: show_dec_def foldl_show_dec)
  show ?thesis
    unfolding read_octet_def read_number_def Let_def tw val
    using len zero assms(1) by simp
qed

text \<open>The four components of a list of length four.\<close>

lemma list4_cases:
  obtains (four) a b c d where "xs = [a, b, c, d]" | (other) "length xs \<noteq> 4"
proof (cases "length xs = 4")
  case True
  then have "length xs = Suc (Suc (Suc (Suc 0)))" by simp
  then show ?thesis using four by (auto simp only: length_Suc_conv length_0_conv)
qed (rule other)

lemma be_nat_4: "be_nat [a, b, c, d] = ((unat a * 256 + unat b) * 256 + unat c) * 256 + unat d"
  by (simp add: be_nat_def)

lemma read_ipv4_show:
  assumes "rest = [] \<or> to_digit 10 (hd rest) = None"
  shows "read_ipv4_addr (show_v4 a @ rest) = Some (a, rest)"
proof -
  obtain o1 o2 o3 o4 where os: "v4_octets a = [o1, o2, o3, o4]"
    by (cases "v4_octets a" rule: list4_cases) (use length_v4_octets [of a] in auto)
  have dot: "to_digit 10 CHR ''.'' = None" by (simp add: to_digit_def code_def)
  have a: "word_of_nat (((unat o1 * 256 + unat o2) * 256 + unat o3) * 256 + unat o4) = a"
    using v4_of_octets_octets [of a] by (simp only: os v4_of_octets_def be_nat_4)
  show ?thesis
    unfolding read_ipv4_addr_def
    using assms a by (simp add: show_v4_def os read_separator_def read_octet_show dot del: of_nat_add of_nat_mult)
qed

lemma parse_ip_show_v4: "parse_ip (show_v4 a) = Some (V4 a)"
  using read_ipv4_show [of "[]" a] by (simp add: parse_ip_def)

lemma set_show_v4: "c \<in> set (show_v4 a) \<Longrightarrow> c = CHR ''.'' \<or> (48 \<le> code c \<and> code c \<le> 57)"
proof -
  have "c \<in> set (join ''.'' xs) \<Longrightarrow> c = CHR ''.'' \<or> (\<exists>x \<in> set xs. c \<in> set x)" for xs
    by (induction "''.''" xs rule: join.induct) auto
  from this [of "map (\<lambda>b. show_dec (unat b)) (v4_octets a)"]
  show "c \<in> set (show_v4 a) \<Longrightarrow> c = CHR ''.'' \<or> (48 \<le> code c \<and> code c \<le> 57)"
    by (auto simp: show_v4_def dest: digit_of_show_dec)
qed

lemma solid_show_v4 [simp]: "list_all solid (show_v4 a)"
  by (auto simp: list_all_iff solid_def ws1_def code_def dest!: set_show_v4)

lemma show_v4_nonempty [simp]: "show_v4 a \<noteq> []"
  using read_ipv4_show [of "[]" a] by (auto simp: read_ipv4_addr_def read_separator_def read_octet_def read_number_def)

end
