(* ===== verification/Ssr_Address.thy ===== *)
theory Ssr_Address
  imports Rust_Net
begin

text \<open>
  \<^verbatim>\<open>src/src/ssr/address.rs\<close>: the SOCKS5-style target header. \<open>parse_address\<close> is
  \<open>parse\<close>: \<open>Inr None\<close> means the header is not complete yet, \<open>Inr (Some (a, n))\<close> that the
  first \<open>n\<close> bytes are the header of \<open>a\<close>.
\<close>

record address =
  host :: string
  port :: u16

definition ATYP_IPV4 :: byte where "ATYP_IPV4 = 0x01"

definition ATYP_DOMAIN :: byte where "ATYP_DOMAIN = 0x03"

definition ATYP_IPV6 :: byte where "ATYP_IPV6 = 0x04"

definition connect_target :: "address \<Rightarrow> string \<times> u16" where
  "connect_target a = (host a, port a)"

definition be_u16 :: "bytes \<Rightarrow> u16" where
  "be_u16 b = word_of_nat (be_nat b)"

definition parse_address :: "bytes \<Rightarrow> (address \<times> nat) option result" where
  "parse_address buf =
     (if buf = [] then Inr None
      else
        let atyp = buf ! 0 AND NOT 0x08 in
        if atyp = ATYP_IPV4 then
          let stop = 1 + 4 + 2 in
          if length buf < stop then Inr None
          else Inr (Some (\<lparr>host = show_v4 (v4_of_octets (subslice 1 5 buf)),
                          port = be_u16 (subslice 5 7 buf)\<rparr>, stop))
        else if atyp = ATYP_DOMAIN then
          if length buf < 2 then Inr None
          else
            let dlen = unat (buf ! 1); stop = 2 + dlen + 2 in
            if length buf < stop then Inr None
            else (case from_utf8 (subslice 2 (2 + dlen) buf) of
               None \<Rightarrow> Inl NonUtf8Domain
             | Some h \<Rightarrow> Inr (Some (\<lparr>host = h, port = be_u16 (subslice (2 + dlen) (2 + dlen + 2) buf)\<rparr>, stop)))
        else if atyp = ATYP_IPV6 then
          let stop = 1 + 16 + 2 in
          if length buf < stop then Inr None
          else Inr (Some (\<lparr>host = show_v6 (v6_of_octets (subslice 1 17 buf)),
                          port = be_u16 (subslice 17 19 buf)\<rparr>, stop))
        else Inl (UnsupportedAtyp (unat atyp)))"

definition pack_socket_addr :: "ip_addr \<Rightarrow> u16 \<Rightarrow> bytes" where
  "pack_socket_addr ip p =
     (case ip of
        V4 a \<Rightarrow> ATYP_IPV4 # v4_octets a
      | V6 a \<Rightarrow> ATYP_IPV6 # v6_octets a) @ be_bytes 2 (unat p)"

subsection \<open>Lemmas\<close>

lemma be_u16_be_bytes [simp]: "be_u16 (be_bytes 2 (unat p)) = p"
proof -
  have "unat p mod 65536 = unat p"
    by (rule mod_less) (rule unsigned_less [of p, simplified])
  then show ?thesis by (simp add: be_u16_def wire_simps)
qed

lemma parse_address_append:
  assumes "parse_address buf = Inr (Some r)"
  shows "parse_address (buf @ ys) = Inr (Some r)" "snd r \<le> length buf" "0 < snd r"
proof -
  have ne: "buf \<noteq> []" using assms by (auto simp: parse_address_def)
  then have h: "(buf @ ys) ! 0 = buf ! 0" by (simp add: nth_append)
  have d: "(buf @ ys) ! 1 = buf ! 1" if "2 \<le> length buf" using that by (simp add: nth_append)
  show "parse_address (buf @ ys) = Inr (Some r)"
    using assms ne d unfolding parse_address_def Let_def h
    by (auto simp: slice_simps split: if_splits option.splits)
  show "snd r \<le> length buf" "0 < snd r"
    using assms by (auto simp: parse_address_def Let_def split: if_splits option.splits)
qed

subsection \<open>Properties\<close>

text \<open>C38: what \<open>pack_socket_addr\<close> writes for any socket address is read back by the parser as
  the textual form of that IP and the same port, and the parser consumes exactly the header,
  whatever payload follows.\<close>

theorem pack_parse_roundtrip:
  "parse_address (pack_socket_addr ip p @ payload) =
     Inr (Some (\<lparr>host = show_ip ip, port = p\<rparr>, length (pack_socket_addr ip p)))"
proof (cases ip)
  case (V4 a)
  have "subslice 1 5 (1 # v4_octets a @ be_bytes 2 (unat p) @ payload) = v4_octets a"
    "subslice 5 7 (1 # v4_octets a @ be_bytes 2 (unat p) @ payload) = be_bytes 2 (unat p)"
    by (simp_all add: subslice_def)
  with V4 show ?thesis by (simp add: pack_socket_addr_def parse_address_def ATYP_IPV4_def)
next
  case (V6 a)
  have "subslice 1 17 (4 # v6_octets a @ be_bytes 2 (unat p) @ payload) = v6_octets a"
    "subslice 17 19 (4 # v6_octets a @ be_bytes 2 (unat p) @ payload) = be_bytes 2 (unat p)"
    by (simp_all add: subslice_def)
  with V6 show ?thesis
    by (simp add: pack_socket_addr_def parse_address_def ATYP_IPV4_def ATYP_DOMAIN_def ATYP_IPV6_def)
qed

text \<open>C39: the parser decides early and never changes its mind. A complete header is at most 259
  bytes, so any buffer of that size gets an answer; and once a prefix of the stream has been
  parsed, later bytes change neither the address nor the number of bytes consumed.\<close>

theorem parse_address_decides:
  "(259 \<le> length buf \<longrightarrow> parse_address buf \<noteq> Inr None) \<and>
   (parse_address buf = Inr (Some r) \<longrightarrow>
      parse_address (buf @ later) = Inr (Some r) \<and> 0 < snd r \<and> snd r \<le> length buf \<and> snd r \<le> 259)"
proof -
  have u: "Suc (Suc (Suc (Suc (unat (buf ! Suc 0))))) \<le> 259"
    using unat_byte_bound [of "buf ! Suc 0"] by linarith
  have "parse_address buf \<noteq> Inr None" if "259 \<le> length buf"
    using that u by (auto simp: parse_address_def Let_def split: option.splits if_splits)
  moreover have "snd r \<le> 259" if "parse_address buf = Inr (Some r)"
    using that u by (auto simp: parse_address_def Let_def split: option.splits if_splits)
  ultimately show ?thesis using parse_address_append by blast
qed

theorem parse_address_decides_witness:
  "parse_address [3, 1, 97, 0, 80] = Inr (Some (\<lparr>host = ''a'', port = 80\<rparr>, 5)) \<and>
   parse_address ([3, 1, 97, 0, 80] @ [71]) = Inr (Some (\<lparr>host = ''a'', port = 80\<rparr>, 5))"
proof -
  have "be_u16 [0, 80] = 80" by (simp add: be_u16_def be_nat_def)
  moreover have "bytes_str [97] = ''a''" by (simp add: bytes_str_def char_of_def bit_0)
  ultimately have h: "parse_address [3, 1, 97, 0, 80] = Inr (Some (\<lparr>host = ''a'', port = 80\<rparr>, 5))"
    by (simp add: parse_address_def ATYP_IPV4_def ATYP_DOMAIN_def from_utf8_def subslice_def)
  then show ?thesis using parse_address_decides [of "[3, 1, 97, 0, 80]" _ "[71]"] by blast
qed

end
