(* ===== verification/Panel.thy ===== *)
theory Panel
  imports SSR_Prelude Complex_Main
begin

text \<open>
  \<^verbatim>\<open>src/src/panel.rs\<close>: the rows the panel sends and the bookkeeping around them.
  A JSON number that Rust stores as \<open>f64\<close> is always finite, so \<open>node_speedlimit\<close> is a
  rational. The HTTP transport and the JSON decoder are not part of the repository: the
  answer of a request is an argument of the model.
\<close>

record panel_user =
  pu_id :: u64
  pu_user_id :: "u64 option"
  pu_port :: u16
  pu_password :: string
  pu_method :: "string option"
  pu_protocol :: "string option"
  pu_protocol_param :: "string option"
  pu_obfs :: "string option"
  pu_obfs_param :: "string option"
  pu_enable :: "int option"
  pu_is_multi_user :: int
  pu_node_speedlimit :: "rat option"
  pu_node_connector :: "int option"
  pu_forbidden_ip :: "string option"
  pu_forbidden_port :: "string option"

definition unwrap_or :: "'a option \<Rightarrow> 'a \<Rightarrow> 'a" where
  "unwrap_or m d = (case m of Some x \<Rightarrow> x | None \<Rightarrow> d)"

definition panel_user_id :: "panel_user \<Rightarrow> u64" where
  "panel_user_id u = unwrap_or (pu_user_id u) (pu_id u)"

definition is_enabled :: "panel_user \<Rightarrow> bool" where
  "is_enabled u \<longleftrightarrow> unwrap_or (pu_enable u) 1 \<noteq> 0"

record detect_rule =
  dr_id :: u64
  dr_name :: string
  dr_regex :: string

record alive_ip_report =
  ai_user_id :: u64
  ai_ip :: string

record detect_log_report =
  dl_user_id :: u64
  dl_list_id :: u64

lemma unwrap_or_simps [simp]: "unwrap_or (Some x) d = x" "unwrap_or None d = d"
  by (simp_all add: unwrap_or_def)

end
