(* ===== verification/Policy.thy ===== *)
theory Policy
  imports Rust_Net Panel
begin

text \<open>
  \<^verbatim>\<open>src/src/policy.rs\<close>: CIDR blocks, port ranges and the per-user policy read from a
  panel row. A \<open>u8\<close> prefix length is a \<open>nat\<close>; \<open>cidr_ok\<close> is the bound every parsed block
  satisfies, which makes the subtraction in the mask shift defined. \<open>u32::MAX << n\<close> is
  \<open>push_bit n (- 1)\<close>.
\<close>

record enforcement_config =
  ec_forbidden :: bool
  ec_conn_limit :: bool
  ec_audit_block :: bool
  ec_speed :: bool

record cidr =
  c_base :: ip_addr
  c_prefix :: nat

definition cidr_parse :: "string \<Rightarrow> cidr option" where
  "cidr_parse t0 =
     (let txt = trim t0 in
      if txt = [] then None
      else let (addr_part, prefix_part) =
                 (case split_once CHR ''/'' txt of Some (a, p) \<Rightarrow> (a, Some p) | None \<Rightarrow> (txt, None))
           in case parse_ip (trim addr_part) of
                None \<Rightarrow> None
              | Some base \<Rightarrow>
                  let mx = (if is_ipv4 base then 32 else 128)
                  in case prefix_part of
                       None \<Rightarrow> Some \<lparr>c_base = base, c_prefix = mx\<rparr>
                     | Some p \<Rightarrow>
                         (case parse_uint 255 (trim p) of
                            None \<Rightarrow> None
                          | Some n \<Rightarrow> if mx < n then None else Some \<lparr>c_base = base, c_prefix = n\<rparr>))"

definition v4_in :: "u32 \<Rightarrow> u32 \<Rightarrow> nat \<Rightarrow> bool" where
  "v4_in base ip prefix =
     (if prefix = 0 then True
      else let mask = push_bit (32 - prefix) (- 1) in (base AND mask) = (ip AND mask))"

definition v6_in :: "u128 \<Rightarrow> u128 \<Rightarrow> nat \<Rightarrow> bool" where
  "v6_in base ip prefix =
     (if prefix = 0 then True
      else let mask = push_bit (128 - prefix) (- 1) in (base AND mask) = (ip AND mask))"

definition cidr_contains :: "cidr \<Rightarrow> ip_addr \<Rightarrow> bool" where
  "cidr_contains c ip =
     (case (c_base c, ip) of
        (V4 base, V4 ip) \<Rightarrow> v4_in base ip (c_prefix c)
      | (V6 base, V6 ip) \<Rightarrow> v6_in base ip (c_prefix c)
      | (V4 base, V6 ip) \<Rightarrow>
          (case to_ipv4_mapped ip of
             Some ip4 \<Rightarrow> v4_in base ip4 (c_prefix c)
           | None \<Rightarrow> False)
      | (V6 base, V4 ip) \<Rightarrow> v6_in base (to_ipv6_mapped ip) (c_prefix c))"

record port_range =
  pr_start :: u16
  pr_end :: u16

definition port_range_parse :: "string \<Rightarrow> port_range option" where
  "port_range_parse t0 =
     (let txt = trim t0 in
      if txt = [] then None
      else case split_once CHR ''-'' txt of
             Some (a, b) \<Rightarrow>
               (case parse_uint 65535 (trim a) of
                  None \<Rightarrow> None
                | Some s \<Rightarrow>
                    (case parse_uint 65535 (trim b) of
                       None \<Rightarrow> None
                     | Some e \<Rightarrow>
                         let (s, e) = (if s \<le> e then (s, e) else (e, s))
                         in Some \<lparr>pr_start = word_of_nat s, pr_end = word_of_nat e\<rparr>))
           | None \<Rightarrow>
               (case parse_uint 65535 txt of
                  None \<Rightarrow> None
                | Some p \<Rightarrow> Some \<lparr>pr_start = word_of_nat p, pr_end = word_of_nat p\<rparr>))"

definition port_range_contains :: "port_range \<Rightarrow> u16 \<Rightarrow> bool" where
  "port_range_contains r port \<longleftrightarrow> pr_start r \<le> port \<and> port \<le> pr_end r"

record user_policy =
  up_speed_limit_bps :: u64
  up_conn_limit :: u32
  up_forbidden_ips :: "cidr list"
  up_forbidden_ports :: "port_range list"

text \<open>\<open>UserPolicy::default()\<close>.\<close>

definition policy_default :: user_policy where
  "policy_default = \<lparr>up_speed_limit_bps = 0, up_conn_limit = 0, up_forbidden_ips = [], up_forbidden_ports = []\<rparr>"

definition parse_list :: "string option \<Rightarrow> (string \<Rightarrow> 'a option) \<Rightarrow> 'a list" where
  "parse_list raw parse =
     (case raw of
        None \<Rightarrow> []
      | Some raw \<Rightarrow>
          List.map_filter (\<lambda>item. let item = trim item in if item = [] then None else parse item)
            (split_char CHR '','' raw))"

text \<open>
  The \<open>f64\<close> arithmetic scales by powers of two, which is exact, and \<open>as u64\<close> truncates and
  saturates. \<open>as u32\<close> on the \<open>i64\<close> connector count truncates to the low 32 bits.
\<close>

definition speed_of :: "rat option \<Rightarrow> u64" where
  "speed_of limit =
     (let mbits = max (unwrap_or limit 0) 0
      in word_of_nat (min (2 ^ 64 - 1) (nat \<lfloor>mbits * 1024 * 1024 / 8\<rfloor>)))"

definition conn_limit_of :: "int option \<Rightarrow> u32" where
  "conn_limit_of n = word_of_int (max (unwrap_or n 0) 0)"

definition policy_from_user :: "panel_user \<Rightarrow> user_policy" where
  "policy_from_user user =
     \<lparr>up_speed_limit_bps = speed_of (pu_node_speedlimit user),
      up_conn_limit = conn_limit_of (pu_node_connector user),
      up_forbidden_ips = parse_list (pu_forbidden_ip user) cidr_parse,
      up_forbidden_ports = parse_list (pu_forbidden_port user) port_range_parse\<rparr>"

definition is_unrestricted :: "user_policy \<Rightarrow> bool" where
  "is_unrestricted p \<longleftrightarrow>
     up_speed_limit_bps p = 0 \<and> up_conn_limit p = 0 \<and> up_forbidden_ips p = [] \<and> up_forbidden_ports p = []"

definition needs_connection_policy :: "user_policy \<Rightarrow> bool" where
  "needs_connection_policy p \<longleftrightarrow> 0 < up_conn_limit p \<or> up_forbidden_ips p \<noteq> [] \<or> up_forbidden_ports p \<noteq> []"

definition port_forbidden :: "user_policy \<Rightarrow> u16 \<Rightarrow> bool" where
  "port_forbidden p port \<longleftrightarrow> list_ex (\<lambda>r. port_range_contains r port) (up_forbidden_ports p)"

definition ip_forbidden :: "user_policy \<Rightarrow> ip_addr \<Rightarrow> bool" where
  "ip_forbidden p ip \<longleftrightarrow> list_ex (\<lambda>c. cidr_contains c ip) (up_forbidden_ips p)"

definition has_forbidden_ip :: "user_policy \<Rightarrow> bool" where
  "has_forbidden_ip p \<longleftrightarrow> up_forbidden_ips p \<noteq> []"

subsection \<open>Blocks as prefixes of 128-bit addresses\<close>

definition cidr_ok :: "cidr \<Rightarrow> bool" where
  "cidr_ok c \<longleftrightarrow> c_prefix c \<le> (if is_ipv4 (c_base c) then 32 else 128)"

lemma cidr_parse_ok: "cidr_parse t = Some c \<Longrightarrow> cidr_ok c"
  by (auto simp: cidr_parse_def cidr_ok_def Let_def split: if_splits option.splits prod.splits)

text \<open>
  The specification: every address as a 128-bit number (IPv4 in its mapped form), a block as
  the number of leading bits it fixes.
\<close>

fun embed :: "ip_addr \<Rightarrow> nat" where
  "embed (V4 a) = unat (to_ipv6_mapped a)"
| "embed (V6 a) = unat a"

definition fixed_bits :: "cidr \<Rightarrow> nat" where
  "fixed_bits c = (if is_ipv4 (c_base c) then 96 + c_prefix c else c_prefix c)"

definition in_block :: "cidr \<Rightarrow> ip_addr \<Rightarrow> bool" where
  "in_block c ip \<longleftrightarrow>
     embed (c_base c) div 2 ^ (128 - fixed_bits c) = embed ip div 2 ^ (128 - fixed_bits c)"

lemma mask_eq_iff:
  fixes x y :: "'a :: len word"
  shows "(x AND push_bit n (- 1)) = (y AND push_bit n (- 1)) \<longleftrightarrow> unat x div 2 ^ n = unat y div 2 ^ n"
proof -
  have "(x AND push_bit n (- 1)) = (y AND push_bit n (- 1)) \<longleftrightarrow> drop_bit n x = drop_bit n y"
  proof
    assume eq: "(x AND push_bit n (- 1)) = (y AND push_bit n (- 1))"
    show "drop_bit n x = drop_bit n y"
    proof (rule bit_eqI)
      fix i
      have "bit (x AND push_bit n (- 1)) (n + i) = bit (y AND push_bit n (- 1)) (n + i)" by (simp only: eq)
      then show "bit (drop_bit n x) i = bit (drop_bit n y) i"
        by (cases "n + i < LENGTH('a)") (auto simp: bit_simps dest: bit_imp_le_length)
    qed
  next
    assume eq: "drop_bit n x = drop_bit n y"
    show "(x AND push_bit n (- 1)) = (y AND push_bit n (- 1))"
    proof (rule bit_eqI)
      fix i
      have "bit (drop_bit n x) (i - n) = bit (drop_bit n y) (i - n)" by (simp only: eq)
      then show "bit (x AND push_bit n (- 1)) i = bit (y AND push_bit n (- 1)) i"
        by (cases "n \<le> i") (simp_all add: bit_simps)
    qed
  qed
  also have "\<dots> \<longleftrightarrow> unat (drop_bit n x) = unat (drop_bit n y)"
    by (rule word_unat_eq_iff)
  also have "\<dots> \<longleftrightarrow> unat x div 2 ^ n = unat y div 2 ^ n"
    by (simp only: unat_drop_bit_eq) (simp only: drop_bit_eq_div)
  finally show ?thesis .
qed

lemma unat_mapped: "unat (to_ipv6_mapped a) = 0xFFFF * 2 ^ 32 + unat a"
proof -
  have "unat a < 4294967296" by (rule unsigned_less [of a, simplified])
  then show ?thesis by (simp add: to_ipv6_mapped_def unat_of_nat del: of_nat_add)
qed

lemma to_ipv4_mapped_Some: "to_ipv4_mapped a = Some w \<longleftrightarrow> a = to_ipv6_mapped w"
proof
  assume "to_ipv4_mapped a = Some w"
  then have d: "unat a div 4294967296 = 65535" and w: "w = word_of_nat (unat a mod 4294967296)"
    by (simp_all add: to_ipv4_mapped_def split: if_splits)
  have "unat w = unat a mod 4294967296" by (simp add: w unat_of_nat)
  then have "unat (to_ipv6_mapped w) = 65535 * 4294967296 + unat a mod 4294967296" by (simp add: unat_mapped)
  also have "\<dots> = unat a" using d div_mult_mod_eq [of "unat a" 4294967296] by simp
  finally show "a = to_ipv6_mapped w" by (simp add: word_unat_eq_iff)
qed simp

lemma to_ipv4_mapped_None: "to_ipv4_mapped a = None \<longleftrightarrow> unat a div 2 ^ 32 \<noteq> 0xFFFF"
  by (simp add: to_ipv4_mapped_def)

lemma mapped_div:
  assumes "n \<le> 32"
  shows "unat (to_ipv6_mapped a) div 2 ^ n = 0xFFFF * 2 ^ (32 - n) + unat a div 2 ^ n"
proof -
  have "(0xFFFF * 2 ^ 32 :: nat) = (0xFFFF * 2 ^ (32 - n)) * 2 ^ n"
    using assms by (simp add: mult.assoc power_add [symmetric])
  then show ?thesis unfolding unat_mapped by (simp only: div_mult_self3 [of "2 ^ n"] power_not_zero zero_neq_numeral not_False_eq_True)
qed

lemma unat_div_max [simp]: "unat (a :: u32) div 4294967296 = 0"
  "unat (b :: u128) div 340282366920938463463374607431768211456 = 0"
proof -
  have "unat a < 4294967296" by (rule unsigned_less [of a, simplified])
  then show "unat a div 4294967296 = 0" by simp
  have "unat b < 340282366920938463463374607431768211456" by (rule unsigned_less [of b, simplified])
  then show "unat b div 340282366920938463463374607431768211456 = 0" by simp
qed

lemma v4_in_iff: "p \<le> 32 \<Longrightarrow> v4_in b ip p \<longleftrightarrow> unat b div 2 ^ (32 - p) = unat ip div 2 ^ (32 - p)"
  unfolding v4_in_def Let_def mask_eq_iff by simp

lemma v6_in_iff: "p \<le> 128 \<Longrightarrow> v6_in b ip p \<longleftrightarrow> unat b div 2 ^ (128 - p) = unat ip div 2 ^ (128 - p)"
  unfolding v6_in_def Let_def mask_eq_iff by simp

lemma div_shift: "n \<le> 32 \<Longrightarrow> (x :: nat) div 2 ^ n div 2 ^ (32 - n) = x div 2 ^ 32"
  by (simp add: div_mult2_eq [symmetric] power_add [symmetric])

lemma cidr_contains_in_block: "cidr_ok c \<Longrightarrow> cidr_contains c ip \<longleftrightarrow> in_block c ip"
proof -
  assume ok: "cidr_ok c"
  show ?thesis
  proof (cases "c_base c")
    case (V4 b)
    with ok have p: "c_prefix c \<le> 32" and n: "128 - fixed_bits c = 32 - c_prefix c" and
      n32: "32 - c_prefix c \<le> 32" by (simp_all add: cidr_ok_def fixed_bits_def)
    have v4: "in_block c (V4 a) \<longleftrightarrow> v4_in b a (c_prefix c)" for a
      by (simp add: in_block_def n V4 mapped_div [OF n32] v4_in_iff [OF p])
    have foreign: "\<not> in_block c (V6 a)" if "unat a div 2 ^ 32 \<noteq> 0xFFFF" for a
    proof
      assume "in_block c (V6 a)"
      then have "unat (to_ipv6_mapped b) div 2 ^ (32 - c_prefix c) = unat a div 2 ^ (32 - c_prefix c)"
        by (simp add: in_block_def n V4)
      then have "unat (to_ipv6_mapped b) div 2 ^ 32 = unat a div 2 ^ 32"
        by (metis div_shift n32)
      with that show False using mapped_div [of 32 b] by simp
    qed
    have mapped: "in_block c (V6 (to_ipv6_mapped a)) = in_block c (V4 a)" for a by (simp add: in_block_def)
    show ?thesis
    proof (cases ip)
      case (V6 a)
      with V4 v4 foreign [of a] mapped show ?thesis
        by (auto simp: cidr_contains_def to_ipv4_mapped_Some to_ipv4_mapped_None split: option.splits)
    qed (simp add: cidr_contains_def V4 v4)
  next
    case (V6 b)
    with ok have p: "c_prefix c \<le> 128" by (simp add: cidr_ok_def)
    then show ?thesis
      by (cases ip) (simp_all add: cidr_contains_def in_block_def fixed_bits_def V6 v6_in_iff)
  qed
qed

subsection \<open>Lists of rules\<close>

lemma set_map_filter: "set (List.map_filter f xs) = {y. \<exists>x \<in> set xs. f x = Some y}"
  by (force simp: map_filter_def)

lemma cidr_parse_Nil [simp]: "cidr_parse [] = None"
  by (simp add: cidr_parse_def)

lemma port_range_parse_Nil [simp]: "port_range_parse [] = None"
  by (simp add: port_range_parse_def)

lemma set_parse_list:
  "parse [] = None \<Longrightarrow> set (parse_list raw parse) =
     {r. \<exists>item. item \<in> set (split_char CHR '','' (unwrap_or raw [])) \<and> parse (trim item) = Some r}"
proof (cases raw)
  case (Some s)
  assume "parse [] = None"
  then have "(if trim i = [] then None else parse (trim i)) = parse (trim i)" for i by simp
  then show ?thesis by (auto simp: parse_list_def set_map_filter Let_def Some)
qed (simp add: parse_list_def)

text \<open>A rendered IPv4 block is read back.\<close>

lemma solid_code_cases: "code CHR ''/'' = 47" "code CHR ''.'' = 46" "code CHR '','' = 44"
  by (simp_all add: code_def)

lemma slash_not_in_v4: "CHR ''/'' \<notin> set (show_v4 a)"
  using set_show_v4 [of "CHR ''/''" a] by (auto simp: solid_code_cases)

lemma cidr_parse_render:
  assumes "p \<le> 32"
  shows "cidr_parse (show_v4 a @ ''/'' @ show_dec p) = Some \<lparr>c_base = V4 a, c_prefix = p\<rparr>"
proof -
  have solid: "list_all solid (show_v4 a @ ''/'' @ show_dec p)"
    by (simp add: solid_def ws1_def code_def)
  have "split_once CHR ''/'' (show_v4 a @ ''/'' @ show_dec p) = Some (show_v4 a, show_dec p)"
    using split_once_append [OF slash_not_in_v4] by simp
  then show ?thesis
    using assms trim_solid [OF solid]
    by (simp add: cidr_parse_def Let_def trim_solid parse_ip_show_v4 parse_uint_show_dec)
qed

subsection \<open>Ports\<close>

lemma port_range_parse_cases:
  assumes "port_range_parse t = Some r"
  obtains s e where "s \<le> e" "e \<le> 65535" "r = \<lparr>pr_start = word_of_nat s, pr_end = word_of_nat e\<rparr>"
  using assms
  by (auto simp: port_range_parse_def Let_def dest!: parse_uint_le split: if_splits option.splits)
    (meson le_trans nle_le)+

lemma port_range_contains_iff:
  "port_range_contains r p \<longleftrightarrow> unat (pr_start r) \<le> unat p \<and> unat p \<le> unat (pr_end r)"
  by (simp add: port_range_contains_def word_le_nat_alt)

lemma port_range_parse_nonempty: "port_range_parse t = Some r \<Longrightarrow> port_range_contains r (pr_start r)"
  by (erule port_range_parse_cases) (simp add: port_range_contains_iff unat_of_nat)

lemma port_range_render:
  assumes s: "s \<le> 65535" and e: "e \<le> 65535"
  shows "port_range_parse (show_dec s @ ''-'' @ show_dec e) =
    Some \<lparr>pr_start = word_of_nat (min s e), pr_end = word_of_nat (max s e)\<rparr>"
proof -
  have solid: "list_all solid (show_dec s @ ''-'' @ show_dec e)" by (simp add: solid_def ws1_def code_def)
  have "CHR ''-'' \<notin> set (show_dec s)" using digit_of_show_dec [of "CHR ''-''" s] by (auto simp: code_def)
  from split_once_append [OF this, of "show_dec e"]
  have "split_once CHR ''-'' (show_dec s @ ''-'' @ show_dec e) = Some (show_dec s, show_dec e)" by simp
  then show ?thesis using s e trim_solid [OF solid]
    by (simp add: port_range_parse_def Let_def trim_solid parse_uint_show_dec min_def max_def)
qed

subsection \<open>Properties\<close>

text \<open>C29: the addresses a panel row forbids are exactly those that share the leading bits of one
  of the comma-separated blocks that parse, when every address is read as a 128-bit number with
  IPv4 in its mapped form. In particular an IPv4 rule also stops the mapped IPv6 form of the
  address, and an unparsable item forbids nothing.\<close>

theorem forbidden_ip_exact:
  "ip_forbidden (policy_from_user u) ip \<longleftrightarrow>
     (\<exists>item c. item \<in> set (split_char CHR '','' (unwrap_or (pu_forbidden_ip u) [])) \<and>
        cidr_parse (trim item) = Some c \<and> in_block c ip)"
  by (auto simp: ip_forbidden_def policy_from_user_def list_ex_iff set_parse_list
      cidr_contains_in_block cidr_parse_ok)

text \<open>A row whose list has the rule \<open>a.b.c.d/p\<close> forbids every IPv4 address with the same first
  \<open>p\<close> bits, also when the client asks for its mapped IPv6 form.\<close>

theorem forbidden_block_enforced:
  assumes item: "show_v4 a @ ''/'' @ show_dec p \<in> set (split_char CHR '','' (unwrap_or (pu_forbidden_ip u) []))"
    and p: "p \<le> 32" and b: "unat b div 2 ^ (32 - p) = unat a div 2 ^ (32 - p)"
  shows "ip_forbidden (policy_from_user u) (V4 b) \<and> ip_forbidden (policy_from_user u) (V6 (to_ipv6_mapped b))"
proof -
  let ?c = "\<lparr>c_base = V4 a, c_prefix = p\<rparr>"
  have ok: "cidr_ok ?c" using p by (simp add: cidr_ok_def)
  have "trim (show_v4 a @ ''/'' @ show_dec p) = show_v4 a @ ''/'' @ show_dec p"
    by (rule trim_solid) (simp add: solid_def ws1_def code_def)
  then have mem: "?c \<in> set (up_forbidden_ips (policy_from_user u))"
    using item cidr_parse_render [OF p, of a] by (auto simp: policy_from_user_def set_parse_list)
  have "cidr_contains ?c (V4 b)" "cidr_contains ?c (V6 (to_ipv6_mapped b))"
    using b p by (simp_all add: cidr_contains_def v4_in_iff)
  with mem show ?thesis by (auto simp: ip_forbidden_def list_ex_iff)
qed

definition sample_row :: panel_user where
  "sample_row = \<lparr>pu_id = 1477, pu_user_id = None, pu_port = 558, pu_password = ''x'', pu_method = None,
     pu_protocol = None, pu_protocol_param = None, pu_obfs = None, pu_obfs_param = None,
     pu_enable = Some 1, pu_is_multi_user = 0, pu_node_speedlimit = Some 0, pu_node_connector = Some 4,
     pu_forbidden_ip = Some ''127.0.0.0/8,::1/128'', pu_forbidden_port = Some ''25,2000-1000''\<rparr>"

theorem forbidden_block_enforced_witness:
  "ip_forbidden (policy_from_user sample_row) (V4 0x7F000001) \<and>
   ip_forbidden (policy_from_user sample_row) (V6 (to_ipv6_mapped 0x7F000001))"
proof (rule forbidden_block_enforced [where a = "0x7F000000" and p = 8])
  have "v4_octets 0x7F000000 = [0x7F, 0, 0, 0]"
    by (simp add: v4_octets_def be_bytes_def le_bytes_numeral)
  moreover have "show_dec 127 = ''127''" "show_dec 0 = ''0''" "show_dec 8 = ''8''" by code_simp+
  ultimately have "show_v4 0x7F000000 @ ''/'' @ show_dec 8 = ''127.0.0.0/8''" by (simp add: show_v4_def)
  then show "show_v4 0x7F000000 @ ''/'' @ show_dec 8
      \<in> set (split_char CHR '','' (unwrap_or (pu_forbidden_ip sample_row) []))"
    by (simp add: sample_row_def)
qed simp_all

text \<open>A row whose list has the range \<open>s-e\<close>, in either order, forbids every port between the two
  ends, and a row forbids a port only because of an item that parses to a range around it.\<close>

theorem forbidden_ports_exact:
  "(port_forbidden (policy_from_user u) port \<longleftrightarrow>
     (\<exists>item r. item \<in> set (split_char CHR '','' (unwrap_or (pu_forbidden_port u) [])) \<and>
        port_range_parse (trim item) = Some r \<and> unat (pr_start r) \<le> unat port \<and> unat port \<le> unat (pr_end r))) \<and>
   port_range_parse (show_dec (unat s) @ ''-'' @ show_dec (unat e)) = Some \<lparr>pr_start = min s e, pr_end = max s e\<rparr>"
proof
  show "port_forbidden (policy_from_user u) port \<longleftrightarrow>
     (\<exists>item r. item \<in> set (split_char CHR '','' (unwrap_or (pu_forbidden_port u) [])) \<and>
        port_range_parse (trim item) = Some r \<and> unat (pr_start r) \<le> unat port \<and> unat port \<le> unat (pr_end r))"
    by (auto simp: port_forbidden_def policy_from_user_def list_ex_iff set_parse_list port_range_contains_iff)
  have "unat s < 65536" "unat e < 65536" by (rule unsigned_less [of s, simplified] unsigned_less [of e, simplified])+
  then show "port_range_parse (show_dec (unat s) @ ''-'' @ show_dec (unat e)) = Some \<lparr>pr_start = min s e, pr_end = max s e\<rparr>"
    by (subst port_range_render) (simp_all add: min_def max_def word_le_nat_alt)
qed

text \<open>The connection-time policy never depends on the speed limit, the speed limit is the
  panel's Mbit/s in bytes per second rounded down and saturated at the largest \<open>u64\<close>, and the
  device cap is the panel's number as long as that fits 32 bits.\<close>

theorem policy_limits:
  "needs_connection_policy (policy_from_user (u\<lparr>pu_node_speedlimit := s\<rparr>)) =
     needs_connection_policy (policy_from_user u) \<and>
   int (unat (up_speed_limit_bps (policy_from_user u))) =
     min (2 ^ 64 - 1) \<lfloor>max 0 (unwrap_or (pu_node_speedlimit u) 0) * 131072\<rfloor> \<and>
   int (unat (up_conn_limit (policy_from_user u))) =
     max 0 (unwrap_or (pu_node_connector u) 0) mod 2 ^ 32"
proof -
  let ?m = "max 0 (unwrap_or (pu_node_speedlimit u) 0)"
  have m: "0 \<le> ?m" by simp
  have "speed_of (pu_node_speedlimit u) = word_of_nat (min (2 ^ 64 - 1) (nat \<lfloor>?m * 131072\<rfloor>))"
    by (simp add: speed_of_def Let_def max.commute mult.commute)
  then have "unat (speed_of (pu_node_speedlimit u)) = min (2 ^ 64 - 1) (nat \<lfloor>?m * 131072\<rfloor>)"
    by (simp add: unat_of_nat)
  then have speed: "int (unat (speed_of (pu_node_speedlimit u))) = min (2 ^ 64 - 1) \<lfloor>?m * 131072\<rfloor>"
    by (simp add: of_nat_min)
  have conn: "int (unat (conn_limit_of (pu_node_connector u))) = max 0 (unwrap_or (pu_node_connector u) 0) mod 2 ^ 32"
    by (simp add: conn_limit_of_def max.commute uint_word_of_int)
  show ?thesis using speed conn by (simp add: policy_from_user_def needs_connection_policy_def)
qed

end
