(* ===== verification/Relay_Target.thy ===== *)
theory Relay_Target
  imports Ssr_Address Policy
begin

text \<open>
  How both relays reach a target: \<open>connect_target_checked\<close> of \<^verbatim>\<open>src/src/tcp.rs\<close> and
  \<open>resolve_udp_dest\<close> of \<^verbatim>\<open>src/src/udp.rs\<close>. The operating system's resolver and
  \<open>connect\<close> are the \<open>net\<close> argument; a connected stream is named by the address it is connected
  to, a failure by its message. The law the code relies on is that resolving a host and a port gives addresses with that port.
\<close>

record net =
  nt_lookup :: "string \<Rightarrow> u16 \<Rightarrow> string + socket_addr list"
  nt_connect_host :: "string \<Rightarrow> u16 \<Rightarrow> string + socket_addr"
  nt_connect :: "socket_addr \<Rightarrow> string + unit"

definition net_ok :: "net \<Rightarrow> bool" where
  "net_ok nt \<longleftrightarrow>
     (\<forall>h p addrs. nt_lookup nt h p = Inr addrs \<longrightarrow> list_all (\<lambda>a. sa_port a = p) addrs) \<and>
     (\<forall>h p a. nt_connect_host nt h p = Inr a \<longrightarrow> sa_port a = p)"

text \<open>\<open>Display\<close> of a socket address (without an IPv6 scope id).\<close>

definition show_socket_addr :: "socket_addr \<Rightarrow> string" where
  "show_socket_addr a =
     (case sa_ip a of
        V4 v \<Rightarrow> show_v4 v
      | V6 v \<Rightarrow> ''['' @ show_v6 v @ '']'') @ '':'' @ show_dec (unat (sa_port a))"

definition policy_blocks_port :: "enforcement_config \<Rightarrow> user_policy option \<Rightarrow> u16 \<Rightarrow> bool" where
  "policy_blocks_port enf policy p \<longleftrightarrow>
     ec_forbidden enf \<and> (case policy of Some pol \<Rightarrow> port_forbidden pol p | None \<Rightarrow> False)"

definition ip_check :: "enforcement_config \<Rightarrow> user_policy option \<Rightarrow> bool" where
  "ip_check enf policy \<longleftrightarrow> ec_forbidden enf \<and> (case policy of Some pol \<Rightarrow> has_forbidden_ip pol | None \<Rightarrow> False)"

text \<open>The loop over the allowed addresses; \<open>Inl Panic\<close> where the \<open>expect\<close> on the last error would fire.\<close>

fun connect_first :: "net \<Rightarrow> address \<Rightarrow> socket_addr list \<Rightarrow> string option \<Rightarrow> socket_addr result" where
  "connect_first nt target [] last_err =
     (case last_err of None \<Rightarrow> Inl Panic | Some _ \<Rightarrow> Inl (ConnectFailed (host target) (port target)))"
| "connect_first nt target (a # addrs) last_err =
     (case nt_connect nt a of
        Inr _ \<Rightarrow> Inr a
      | Inl err \<Rightarrow> connect_first nt target addrs (Some err))"

definition connect_target_checked ::
  "net \<Rightarrow> address \<Rightarrow> user_policy option \<Rightarrow> enforcement_config \<Rightarrow> socket_addr result" where
  "connect_target_checked nt target policy enf =
     (let (h, p) = connect_target target in
      if policy_blocks_port enf policy p then Inl (PortForbidden p)
      else if \<not> ip_check enf policy then map_sum Io id (nt_connect_host nt h p)
      else case policy of
             None \<Rightarrow> Inl Panic
           | Some pol \<Rightarrow>
               (case nt_lookup nt h p of
                  Inl _ \<Rightarrow> Inl (ResolveFailed h p)
                | Inr resolved \<Rightarrow>
                    if resolved = [] then Inl (DidNotResolve h p)
                    else let allowed = filter (\<lambda>a. \<not> ip_forbidden pol (sa_ip a)) resolved in
                         if allowed = [] then Inl (OnlyForbidden h p)
                         else connect_first nt target allowed None))"

datatype udp_dest = Addr socket_addr | HostPort string u16

definition resolve_udp_dest ::
  "net \<Rightarrow> address \<Rightarrow> user_policy option \<Rightarrow> enforcement_config \<Rightarrow> udp_dest result" where
  "resolve_udp_dest nt target policy enf =
     (if \<not> ip_check enf policy then Inr (HostPort (host target) (port target))
      else case policy of
             None \<Rightarrow> Inl Panic
           | Some pol \<Rightarrow>
               (case nt_lookup nt (host target) (port target) of
                  Inl _ \<Rightarrow> Inl (ResolveFailed (host target) (port target))
                | Inr resolved \<Rightarrow>
                    if resolved = [] then Inl (DidNotResolve (host target) (port target))
                    else case find (\<lambda>a. \<not> ip_forbidden pol (sa_ip a)) resolved of
                           Some a \<Rightarrow> Inr (Addr a)
                         | None \<Rightarrow> Inl (OnlyForbidden (host target) (port target))))"

subsection \<open>Lemmas\<close>

lemma connect_first_Inr:
  "connect_first nt target addrs err = Inr a \<Longrightarrow> a \<in> set addrs \<and> nt_connect nt a = Inr ()"
  by (induction nt target addrs err rule: connect_first.induct) (auto split: sum.splits option.splits)

lemma connect_first_total:
  "addrs \<noteq> [] \<or> err \<noteq> None \<Longrightarrow>
   connect_first nt target addrs err =
     (case filter (\<lambda>a. nt_connect nt a = Inr ()) addrs of
        a # _ \<Rightarrow> Inr a
      | [] \<Rightarrow> Inl (ConnectFailed (host target) (port target)))"
  by (induction nt target addrs err rule: connect_first.induct) (auto split: sum.splits)

lemma no_ip_list: "\<not> has_forbidden_ip pol \<Longrightarrow> \<not> ip_forbidden pol ip"
  by (simp add: has_forbidden_ip_def ip_forbidden_def)

lemma connect_checked_sound:
  assumes "connect_target_checked nt target (Some pol) enf = Inr a" "ec_forbidden enf"
  shows "\<not> ip_forbidden pol (sa_ip a)" "\<not> port_forbidden pol (port target)"
    "net_ok nt \<Longrightarrow> sa_port a = port target"
proof -
  have p: "\<not> policy_blocks_port enf (Some pol) (port target)"
    using assms(1) by (auto simp: connect_target_checked_def connect_target_def)
  then show "\<not> port_forbidden pol (port target)" using assms(2) by (simp add: policy_blocks_port_def)
  have "\<not> ip_forbidden pol (sa_ip a) \<and> (net_ok nt \<longrightarrow> sa_port a = port target)"
  proof (cases "has_forbidden_ip pol")
    case True
    then obtain resolved where res: "nt_lookup nt (host target) (port target) = Inr resolved"
      and a: "connect_first nt target (filter (\<lambda>a. \<not> ip_forbidden pol (sa_ip a)) resolved) None = Inr a"
      using assms p by (auto simp: connect_target_checked_def connect_target_def ip_check_def Let_def
          split: sum.splits if_splits)
    from connect_first_Inr [OF a] have "a \<in> set resolved" "\<not> ip_forbidden pol (sa_ip a)" by auto
    then show ?thesis using res by (auto simp: net_ok_def list_all_iff)
  next
    case False
    then have "nt_connect_host nt (host target) (port target) = Inr a"
      using assms p by (cases "nt_connect_host nt (host target) (port target)")
        (simp_all add: connect_target_checked_def connect_target_def ip_check_def)
    then show ?thesis using no_ip_list [OF False] by (auto simp: net_ok_def)
  qed
  then show "\<not> ip_forbidden pol (sa_ip a)" "net_ok nt \<Longrightarrow> sa_port a = port target" by auto
qed

lemma resolve_udp_sound:
  assumes "resolve_udp_dest nt target (Some pol) enf = Inr d" "ec_forbidden enf"
  shows "case d of
      Addr a \<Rightarrow> \<not> ip_forbidden pol (sa_ip a) \<and> (net_ok nt \<longrightarrow> sa_port a = port target)
    | HostPort h p \<Rightarrow> \<not> has_forbidden_ip pol \<and> h = host target \<and> p = port target"
proof (cases "has_forbidden_ip pol")
  case True
  then obtain resolved a where res: "nt_lookup nt (host target) (port target) = Inr resolved"
    and a: "find (\<lambda>a. \<not> ip_forbidden pol (sa_ip a)) resolved = Some a" and d: "d = Addr a"
    using assms by (auto simp: resolve_udp_dest_def ip_check_def split: sum.splits if_splits option.splits)
  from a have "a \<in> set resolved" "\<not> ip_forbidden pol (sa_ip a)" by (auto simp: find_Some_iff)
  then show ?thesis using res d by (auto simp: net_ok_def list_all_iff)
next
  case False
  then show ?thesis using assms by (auto simp: resolve_udp_dest_def ip_check_def)
qed

lemma connect_checked_allowed:
  assumes "ip_check enf (Some pol)" "\<not> policy_blocks_port enf (Some pol) (port target)"
    and "nt_lookup nt (host target) (port target) = Inr resolved"
    and "list_ex (\<lambda>a. \<not> ip_forbidden pol (sa_ip a)) resolved"
  shows "connect_target_checked nt target (Some pol) enf =
    (case filter (\<lambda>a. \<not> ip_forbidden pol (sa_ip a) \<and> nt_connect nt a = Inr ()) resolved of
       a # _ \<Rightarrow> Inr a
     | [] \<Rightarrow> Inl (ConnectFailed (host target) (port target)))"
proof -
  let ?allowed = "filter (\<lambda>a. \<not> ip_forbidden pol (sa_ip a)) resolved"
  have ne: "?allowed \<noteq> []" "resolved \<noteq> []" using assms(4) by (auto simp: list_ex_iff filter_empty_conv)
  have "connect_target_checked nt target (Some pol) enf = connect_first nt target ?allowed None"
    using assms ne by (auto simp: connect_target_checked_def connect_target_def Let_def filter_empty_conv)
  also have "\<dots> = (case filter (\<lambda>a. nt_connect nt a = Inr ()) ?allowed of
       a # _ \<Rightarrow> Inr a | [] \<Rightarrow> Inl (ConnectFailed (host target) (port target)))"
    using ne by (intro connect_first_total) simp
  finally show ?thesis by (simp add: conj_commute)
qed

subsection \<open>Properties\<close>


text \<open>A resolver that gives the loopback address before a public one, for a user who may not reach
  \<open>127.0.0.0/8\<close>.\<close>

definition sample_net :: net where
  "sample_net = \<lparr>nt_lookup = (\<lambda>_ p. Inr [\<lparr>sa_ip = V4 0x7F000001, sa_port = p\<rparr>, \<lparr>sa_ip = V4 0x08080808, sa_port = p\<rparr>]),
     nt_connect_host = (\<lambda>_ p. Inr \<lparr>sa_ip = V4 0x7F000001, sa_port = p\<rparr>), nt_connect = (\<lambda>_. Inr ())\<rparr>"

definition sample_policy :: user_policy where
  "sample_policy = \<lparr>up_speed_limit_bps = 0, up_conn_limit = 0,
     up_forbidden_ips = [\<lparr>c_base = V4 0x7F000000, c_prefix = 8\<rparr>], up_forbidden_ports = [\<lparr>pr_start = 25, pr_end = 25\<rparr>]\<rparr>"

definition enforce_all :: enforcement_config where
  "enforce_all = \<lparr>ec_forbidden = True, ec_conn_limit = True, ec_audit_block = True, ec_speed = True\<rparr>"

lemma sample_net_ok: "net_ok sample_net"
  by (simp add: net_ok_def sample_net_def)

lemma sample_policy_blocks:
  "ip_forbidden sample_policy (V4 0x7F000001)" "\<not> ip_forbidden sample_policy (V4 0x08080808)"
  "has_forbidden_ip sample_policy" "\<not> port_forbidden sample_policy 80" "port_forbidden sample_policy 25"
proof -
  have "v4_in 0x7F000000 0x7F000001 8" by code_simp
  moreover have "\<not> v4_in 0x7F000000 0x08080808 8" by code_simp
  ultimately show "ip_forbidden sample_policy (V4 0x7F000001)" "\<not> ip_forbidden sample_policy (V4 0x08080808)"
    by (simp_all add: ip_forbidden_def sample_policy_def cidr_contains_def)
qed (simp_all add: has_forbidden_ip_def port_forbidden_def sample_policy_def port_range_contains_def)


end
