(* ===== verification/Config.thy ===== *)
theory Config
  imports SSR_Prelude
begin

text \<open>
  \<^verbatim>\<open>src/src/config.rs\<close>: the configuration structs and their interval accessors.
  A \<open>Duration\<close> is a number of nanoseconds.
\<close>

type_synonym duration = nat

definition duration_secs :: "nat \<Rightarrow> duration" where
  "duration_secs s = s * 1000000000"

record panel_config =
  pc_base_url :: string
  pc_key :: string
  pc_node_id :: u64
  pc_request_timeout_secs :: nat
  pc_poll_interval_secs :: nat
  pc_traffic_report_interval_secs :: nat
  pc_heartbeat_interval_secs :: nat
  pc_ipv4_only :: bool

record node_config =
  nc_listen_host :: string
  nc_method :: string
  nc_protocol :: string
  nc_obfs :: string
  nc_server_port :: u16
  nc_timeout_secs :: nat
  nc_workers :: nat
  nc_tcp_enabled :: bool
  nc_udp_enabled :: bool
  nc_enforce_forbidden :: bool
  nc_enforce_conn_limit :: bool
  nc_audit_block :: bool
  nc_enforce_speed :: bool

record limits_config =
  lc_max_users :: nat
  lc_max_sessions :: nat
  lc_session_ttl_secs :: nat
  lc_max_udp_associations :: nat
  lc_udp_association_ttl_secs :: nat
  lc_max_alive_ips :: nat
  lc_alive_ip_ttl_secs :: nat
  lc_max_detect_logs :: nat
  lc_detect_log_ttl_secs :: nat
  lc_max_accepts_per_port :: nat

record config =
  cfg_panel :: panel_config
  cfg_node :: node_config
  cfg_limits :: limits_config

definition node_timeout :: "node_config \<Rightarrow> duration" where
  "node_timeout n = duration_secs (nc_timeout_secs n)"

definition session_ttl :: "limits_config \<Rightarrow> duration" where
  "session_ttl l = duration_secs (lc_session_ttl_secs l)"

definition udp_association_ttl :: "limits_config \<Rightarrow> duration" where
  "udp_association_ttl l = duration_secs (lc_udp_association_ttl_secs l)"

definition alive_ip_ttl :: "limits_config \<Rightarrow> duration" where
  "alive_ip_ttl l = duration_secs (lc_alive_ip_ttl_secs l)"

definition detect_log_ttl :: "limits_config \<Rightarrow> duration" where
  "detect_log_ttl l = duration_secs (lc_detect_log_ttl_secs l)"

definition request_timeout :: "panel_config \<Rightarrow> duration" where
  "request_timeout p = duration_secs (pc_request_timeout_secs p)"

definition poll_interval :: "panel_config \<Rightarrow> duration" where
  "poll_interval p = duration_secs (pc_poll_interval_secs p)"

definition traffic_report_interval :: "panel_config \<Rightarrow> duration" where
  "traffic_report_interval p = duration_secs (pc_traffic_report_interval_secs p)"

definition heartbeat_interval :: "panel_config \<Rightarrow> duration" where
  "heartbeat_interval p = duration_secs (pc_heartbeat_interval_secs p)"

end
