(* ===== verification/Ssr_Session.thy ===== *)
theory Ssr_Session
  imports Ssr_Cipher Ssr_Protocol_Props Panel Config
begin

text \<open>
  \<^verbatim>\<open>src/src/ssr/mod.rs\<close>: the profile check, the datagram codec and \<open>ServerSession\<close>,
  the codec state of one TCP connection (cipher below, \<open>auth_aes128_md5\<close> above). Random IVs
  come from the \<open>getrandom\<close> crate: \<open>rand n\<close> is what it delivers for \<open>n\<close> bytes, \<open>None\<close> its
  failure.
\<close>

subsection \<open>Profile\<close>

record profile =
  pf_method :: string
  pf_protocol :: string
  pf_obfs :: string
  pf_timeout :: duration

definition ensure_supported :: "profile \<Rightarrow> unit result" where
  "ensure_supported pf =
     (if (pf_method pf = ''rc4-md5'' \<or> pf_method pf = ''chacha20-ietf'') \<and>
         pf_protocol pf = ''auth_aes128_md5'' \<and> pf_obfs pf = ''plain''
      then (case from_method (pf_method pf) of Inl e \<Rightarrow> Inl e | Inr _ \<Rightarrow> Inr ())
      else Inl (UnsupportedProfile (pf_method pf) (pf_protocol pf) (pf_obfs pf)))"

definition profile_new :: "string \<Rightarrow> string \<Rightarrow> string \<Rightarrow> duration \<Rightarrow> profile result" where
  "profile_new m p ob t =
     (let pf = \<lparr>pf_method = to_ascii_lowercase m, pf_protocol = to_ascii_lowercase p,
                pf_obfs = to_ascii_lowercase ob, pf_timeout = t\<rparr>
      in case ensure_supported pf of Inl e \<Rightarrow> Inl e | Inr _ \<Rightarrow> Inr pf)"

definition profile_from_user :: "panel_user \<Rightarrow> node_config \<Rightarrow> profile result" where
  "profile_from_user u n =
     profile_new (unwrap_or (pu_method u) (nc_method n)) (unwrap_or (pu_protocol u) (nc_protocol n))
       (unwrap_or (pu_obfs u) (nc_obfs n)) (node_timeout n)"

text \<open>\<open>Profile::cipher_kind\<close>; \<open>Inl Panic\<close> where the \<open>expect\<close> would fire.\<close>

definition profile_cipher_kind :: "profile \<Rightarrow> cipher_kind result" where
  "profile_cipher_kind pf = (case from_method (pf_method pf) of Inl _ \<Rightarrow> Inl Panic | Inr k \<Rightarrow> Inr k)"

definition derive_master_key :: "'cc crypto \<Rightarrow> string \<Rightarrow> cipher_kind \<Rightarrow> bytes" where
  "derive_master_key C password k = evp_bytes_to_key C (str_bytes password) (key_len k)"

definition derive_user_auth_key :: "'cc crypto \<Rightarrow> string \<Rightarrow> bytes" where
  "derive_user_auth_key C password = user_auth_key C password"

subsection \<open>Datagrams\<close>

definition udp_decrypt_packet ::
  "'cc crypto \<Rightarrow> bytes \<Rightarrow> (u64 \<Rightarrow> bytes option) \<Rightarrow> int \<Rightarrow> bytes \<Rightarrow> cipher_kind \<Rightarrow>
   (bytes \<times> u64 option) result" where
  "udp_decrypt_packet C mkey us multi packet k =
     (if length packet < iv_len k then Inl (UdpShorterThanIv (iv_len k))
      else
        let iv = take (iv_len k) packet in
        case new_stream C k mkey iv of
          Inl e \<Rightarrow> Inl e
        | Inr c \<Rightarrow>
            let (_, body) = stream_process C c (drop (iv_len k) packet)
            in udp_server_post_decrypt C mkey us multi iv body)"

definition udp_encrypt_packet ::
  "'cc crypto \<Rightarrow> (nat \<Rightarrow> bytes option) \<Rightarrow> bytes \<Rightarrow> bytes \<Rightarrow> bytes \<Rightarrow> cipher_kind \<Rightarrow> bytes result" where
  "udp_encrypt_packet C rand mkey proto_key header_and_payload k =
     (let data = udp_server_pre_encrypt C proto_key header_and_payload in
      case rand (iv_len k) of
        None \<Rightarrow> Inl RandomFailure
      | Some iv \<Rightarrow>
          (case new_stream C k mkey iv of
             Inl e \<Rightarrow> Inl e
           | Inr c \<Rightarrow> let (_, body) = stream_process C c data in Inr (iv @ body)))"

subsection \<open>ServerSession\<close>

record 'cc session =
  ss_cipher :: cipher_kind
  ss_master_key :: bytes
  ss_recv_iv_buf :: bytes
  ss_decryptor :: "'cc stream_cipher option"
  ss_protocol :: "auth option"
  ss_users :: "u64 \<Rightarrow> bytes option"
  ss_is_multi_user :: int
  ss_send_iv :: bytes
  ss_encryptor :: "'cc stream_cipher"
  ss_send_iv_emitted :: bool

definition session_new ::
  "'cc crypto \<Rightarrow> (nat \<Rightarrow> bytes option) \<Rightarrow> string \<Rightarrow> (u64 \<Rightarrow> bytes option) \<Rightarrow> int \<Rightarrow> cipher_kind \<Rightarrow>
   'cc session result" where
  "session_new C rand password us multi k =
     (let mkey = evp_bytes_to_key C (str_bytes password) (key_len k) in
      case rand (iv_len k) of
        None \<Rightarrow> Inl RandomFailure
      | Some iv \<Rightarrow>
          (case new_stream C k mkey iv of
             Inl e \<Rightarrow> Inl e
           | Inr enc \<Rightarrow> Inr
               \<lparr>ss_cipher = k, ss_master_key = mkey, ss_recv_iv_buf = [], ss_decryptor = None,
                ss_protocol = None, ss_users = us, ss_is_multi_user = multi, ss_send_iv = iv,
                ss_encryptor = enc, ss_send_iv_emitted = False\<rparr>))"

text \<open>The second half of \<open>decrypt\<close>, once the decryptor exists.\<close>

definition decrypt_cipher_bytes :: "'cc crypto \<Rightarrow> 'cc session \<Rightarrow> bytes \<Rightarrow> 'cc session \<times> bytes result" where
  "decrypt_cipher_bytes C s cipher_bytes =
     (if cipher_bytes = [] then (s, Inr [])
      else
        case ss_decryptor s of
          None \<Rightarrow> (s, Inl Panic)
        | Some d \<Rightarrow>
            let (d', plain) = stream_process C d cipher_bytes; s1 = s\<lparr>ss_decryptor := Some d'\<rparr> in
            (case ss_protocol s1 of
               None \<Rightarrow> (s1, Inl Panic)
             | Some p \<Rightarrow>
                 let (p', r) = server_post_decrypt C p plain in (s1\<lparr>ss_protocol := Some p'\<rparr>, r)))"

definition session_decrypt :: "'cc crypto \<Rightarrow> 'cc session \<Rightarrow> bytes \<Rightarrow> 'cc session \<times> bytes result" where
  "session_decrypt C s raw =
     (if ss_decryptor s = None then
        let buf = ss_recv_iv_buf s @ raw; n = iv_len (ss_cipher s) in
        if length buf < n then (s\<lparr>ss_recv_iv_buf := buf\<rparr>, Inr [])
        else
          let iv = take n buf; s1 = s\<lparr>ss_recv_iv_buf := []\<rparr> in
          case new_stream C (ss_cipher s) (ss_master_key s) iv of
            Inl e \<Rightarrow> (s1, Inl e)
          | Inr d \<Rightarrow> decrypt_cipher_bytes C
              (s1\<lparr>ss_decryptor := Some d,
                  ss_protocol := Some (auth_new C (ss_master_key s) iv (ss_users s) (ss_is_multi_user s))\<rparr>)
              (drop n buf)
      else decrypt_cipher_bytes C s raw)"

definition session_user_id :: "'cc session \<Rightarrow> u64 option" where
  "session_user_id s = (case ss_protocol s of None \<Rightarrow> None | Some p \<Rightarrow> user_id p)"

definition session_encrypt :: "'cc crypto \<Rightarrow> 'cc session \<Rightarrow> bytes \<Rightarrow> 'cc session \<times> bytes result" where
  "session_encrypt C s plaintext =
     (case ss_protocol s of
        None \<Rightarrow> (s, Inl EncryptBeforeHandshake)
      | Some p \<Rightarrow>
          let (p', body) = server_pre_encrypt C p plaintext;
              (e', wire) = stream_process C (ss_encryptor s) body;
              s1 = s\<lparr>ss_protocol := Some p', ss_encryptor := e'\<rparr>
          in if ss_send_iv_emitted s1 then (s1, Inr wire)
             else (s1\<lparr>ss_send_iv_emitted := True\<rparr>, Inr (ss_send_iv s1 @ wire)))"

subsection \<open>The receive path is a chunked decoder\<close>

definition session_idle :: "'cc crypto \<Rightarrow> 'cc session \<Rightarrow> bool" where
  "session_idle C s \<longleftrightarrow> chacha_ok C \<and>
     (case ss_decryptor s of
        None \<Rightarrow> length (ss_recv_iv_buf s) < iv_len (ss_cipher s)
      | Some d \<Rightarrow> (\<exists>p. ss_protocol s = Some p \<and> auth_step C p = More p))"

interpretation auth_dec:
  chunked_decoder "server_post_decrypt C" "\<lambda>p. auth_step C p = More p" for C :: "'cc crypto"
  using auth_stream.chunked_decoder_axioms [of C] by (simp add: server_post_decrypt_def [abs_def])

interpretation dec:
  deciphering "stream_process C" "\<lambda>_. chacha_ok C" "server_post_decrypt C" "\<lambda>p. auth_step C p = More p"
  for C :: "'cc crypto"
  by unfold_locales

definition with_codec :: "'cc session \<Rightarrow> 'cc stream_cipher \<times> auth \<Rightarrow> 'cc session" where
  "with_codec s dp = s\<lparr>ss_decryptor := Some (fst dp), ss_protocol := Some (snd dp)\<rparr>"

text \<open>After the IV, the session is the composed decoder.\<close>

lemma decrypt_cipher_bytes_eq:
  assumes "chacha_ok C" "auth_step C p = More p"
  shows "decrypt_cipher_bytes C (with_codec s (d, p)) xs =
    map_prod (with_codec s) id (decipher (stream_process C) (server_post_decrypt C) (d, p) xs)"
proof (cases "xs = []")
  case True
  then show ?thesis using dec.pair.decode_nil [where s = "(d, p)"] assms
    by (simp add: decrypt_cipher_bytes_def)
next
  case False
  then show ?thesis 
    by (simp add: decrypt_cipher_bytes_def decipher_def with_codec_def case_prod_beta Let_def)
qed

lemma with_codec_id: "ss_decryptor s = Some d \<Longrightarrow> ss_protocol s = Some p \<Longrightarrow> with_codec s (d, p) = s"
  by (simp add: with_codec_def)

lemma agree_map_prod: "agree a b \<Longrightarrow> agree (map_prod f id a) (map_prod f id b)"
  by (cases a; cases b) (auto simp: agree_def)

lemma map_prod_swap: "map_prod id g (map_prod f id a) = map_prod f id (map_prod id g a)"
  by (cases a) simp

lemma codec_idle: "session_idle C (with_codec s (d, p)) \<longleftrightarrow> chacha_ok C \<and> auth_step C p = More p"
  by (simp add: session_idle_def with_codec_def)

lemma decrypt_cipher_bytes_append:
  assumes i: "chacha_ok C" "auth_step C p = More p"
    and a: "decrypt_cipher_bytes C (with_codec s (d, p)) a = (s1, Inr x)"
  shows "\<exists>d1 p1. s1 = with_codec s (d1, p1) \<and> auth_step C p1 = More p1 \<and>
      agree (map_prod id (map_sum id (\<lambda>y. x @ y)) (decrypt_cipher_bytes C s1 b))
            (decrypt_cipher_bytes C (with_codec s (d, p)) (a @ b))"
proof -
  obtain d1 p1 where q: "decipher (stream_process C) (server_post_decrypt C) (d, p) a = ((d1, p1), Inr x)"
    "s1 = with_codec s (d1, p1)"
    using a by (cases "decipher (stream_process C) (server_post_decrypt C) (d, p) a")
      (auto simp: decrypt_cipher_bytes_eq [OF i])
  have i1: "auth_step C p1 = More p1" using dec.pair.decode_idle [OF _ q(1)] i by auto
  have "agree (map_prod id (map_sum id (\<lambda>y. x @ y))
        (decipher (stream_process C) (server_post_decrypt C) (d1, p1) b))
      (decipher (stream_process C) (server_post_decrypt C) (d, p) (a @ b))"
    using dec.pair.decode_ok [OF _ q(1), of b] i by simp
  from agree_map_prod [OF this, of "with_codec s"] i1 q(2) show ?thesis
    by (intro exI [of _ d1] exI [of _ p1])
      (simp add: decrypt_cipher_bytes_eq [OF i] decrypt_cipher_bytes_eq [OF i(1) i1] map_prod_swap)
qed

lemma decrypt_cipher_bytes_fail:
  assumes i: "chacha_ok C" "auth_step C p = More p"
    and a: "decrypt_cipher_bytes C (with_codec s (d, p)) a = (s1, Inl e)"
  shows "snd (decrypt_cipher_bytes C (with_codec s (d, p)) (a @ b)) = Inl e"
proof -
  obtain q where "decipher (stream_process C) (server_post_decrypt C) (d, p) a = (q, Inl e)"
    using a by (cases "decipher (stream_process C) (server_post_decrypt C) (d, p) a")
      (auto simp: decrypt_cipher_bytes_eq [OF i])
  from dec.pair.decode_fail [OF _ this, of b] i show ?thesis
    by (simp add: decrypt_cipher_bytes_eq [OF i])
qed

subsection \<open>Consuming the IV\<close>

definition start_codec :: "'cc crypto \<Rightarrow> 'cc session \<Rightarrow> bytes \<Rightarrow> 'cc stream_cipher \<Rightarrow> 'cc session" where
  "start_codec C s iv d = with_codec (s\<lparr>ss_recv_iv_buf := []\<rparr>)
     (d, auth_new C (ss_master_key s) iv (ss_users s) (ss_is_multi_user s))"

lemma session_decrypt_started:
  "ss_decryptor s = Some d \<Longrightarrow> session_decrypt C s raw = decrypt_cipher_bytes C s raw"
  by (simp add: session_decrypt_def)

lemma session_decrypt_waiting:
  assumes "ss_decryptor s = None" "length (ss_recv_iv_buf s @ raw) < iv_len (ss_cipher s)"
  shows "session_decrypt C s raw = (s\<lparr>ss_recv_iv_buf := ss_recv_iv_buf s @ raw\<rparr>, Inr [])"
  using assms by (simp add: session_decrypt_def)

lemma session_decrypt_iv:
  fixes s :: "'cc session"
  defines "n \<equiv> iv_len (ss_cipher s)" and "buf raw \<equiv> ss_recv_iv_buf s @ raw"
  assumes "ss_decryptor s = None" "n \<le> length (buf raw)"
  shows "session_decrypt C s raw =
    (case new_stream C (ss_cipher s) (ss_master_key s) (take n (buf raw)) of
       Inl e \<Rightarrow> (s\<lparr>ss_recv_iv_buf := []\<rparr>, Inl e)
     | Inr d \<Rightarrow> decrypt_cipher_bytes C (start_codec C s (take n (buf raw)) d) (drop n (buf raw)))"
  using assms by (auto simp: session_decrypt_def start_codec_def with_codec_def Let_def split: sum.splits)

lemma session_decrypt_more_iv:
  assumes "ss_decryptor s = None"
  shows "session_decrypt C (s\<lparr>ss_recv_iv_buf := ss_recv_iv_buf s @ a\<rparr>) b = session_decrypt C s (a @ b)"
  using assms by (simp add: session_decrypt_def Let_def split: sum.splits)

lemma session_idle_cases:
  assumes "session_idle C s"
  obtains (started) d p where "ss_decryptor s = Some d" "ss_protocol s = Some p" "auth_step C p = More p"
    | (waiting) "ss_decryptor s = None" "length (ss_recv_iv_buf s @ a) < iv_len (ss_cipher s)"
    | (iv) "ss_decryptor s = None" "iv_len (ss_cipher s) \<le> length (ss_recv_iv_buf s @ a)"
  using assms by (cases "ss_decryptor s"; cases "length (ss_recv_iv_buf s @ a) < iv_len (ss_cipher s)")
    (auto simp: session_idle_def not_less)

lemma session_decrypt_iv_append:
  assumes "ss_decryptor s = None" "iv_len (ss_cipher s) \<le> length (ss_recv_iv_buf s @ a)"
    and "new_stream C (ss_cipher s) (ss_master_key s) (take (iv_len (ss_cipher s)) (ss_recv_iv_buf s @ a)) = Inr d"
  shows "session_decrypt C s (a @ b) =
    decrypt_cipher_bytes C (start_codec C s (take (iv_len (ss_cipher s)) (ss_recv_iv_buf s @ a)) d)
      (drop (iv_len (ss_cipher s)) (ss_recv_iv_buf s @ a) @ b)"
  using assms by (subst session_decrypt_iv) simp_all

lemma decrypt_started_codec:
  "session_decrypt C (with_codec s dp) b = decrypt_cipher_bytes C (with_codec s dp) b"
  by (simp add: session_decrypt_started with_codec_def)

lemma session_decode_ok:
  assumes idle: "session_idle C s" and r: "session_decrypt C s a = (s1, Inr x)"
  shows "session_idle C s1 \<and>
    agree (map_prod id (map_sum id (\<lambda>y. x @ y)) (session_decrypt C s1 b)) (session_decrypt C s (a @ b))"
proof -
  have C: "chacha_ok C" using idle by (simp add: session_idle_def)
  from idle show ?thesis
  proof (cases rule: session_idle_cases [where a = a])
    case (started d p)
    then have w: "s = with_codec s (d, p)" by (simp add: with_codec_id)
    have "decrypt_cipher_bytes C (with_codec s (d, p)) a = (s1, Inr x)"
      using r w started(1) by (metis session_decrypt_started)
    from decrypt_cipher_bytes_append [OF C started(3) this, of b] show ?thesis
      using w started(1) by (metis C codec_idle decrypt_started_codec session_decrypt_started)
  next
    case waiting
    then show ?thesis using r C session_decrypt_more_iv [OF waiting(1), of C a b]
      by (auto simp: session_decrypt_waiting session_idle_def prod.map_id0 sum.map_id0 id_def [symmetric])
  next
    case iv
    let ?iv = "take (iv_len (ss_cipher s)) (ss_recv_iv_buf s @ a)"
    let ?rest = "drop (iv_len (ss_cipher s)) (ss_recv_iv_buf s @ a)"
    obtain d where d: "new_stream C (ss_cipher s) (ss_master_key s) ?iv = Inr d"
      "decrypt_cipher_bytes C (start_codec C s ?iv d) ?rest = (s1, Inr x)"
      using r iv by (auto simp: session_decrypt_iv split: sum.splits)
    from decrypt_cipher_bytes_append [OF C auth_new_quiet d(2) [unfolded start_codec_def], of b]
    show ?thesis
      by (auto simp: codec_idle C session_decrypt_iv_append [OF iv d(1)] start_codec_def decrypt_started_codec)
  qed
qed

lemma session_decode_fail:
  assumes idle: "session_idle C s" and r: "session_decrypt C s a = (s1, Inl e)"
  shows "snd (session_decrypt C s (a @ b)) = Inl e"
proof -
  have C: "chacha_ok C" using idle by (simp add: session_idle_def)
  from idle show ?thesis
  proof (cases rule: session_idle_cases [where a = a])
    case (started d p)
    then show ?thesis
      using decrypt_cipher_bytes_fail [OF C started(3), of s d a s1 e b] r
      by (simp add: with_codec_id [OF started(1,2)] session_decrypt_started)
  next
    case waiting
    then show ?thesis using r by (simp add: session_decrypt_waiting)
  next
    case iv
    let ?iv = "take (iv_len (ss_cipher s)) (ss_recv_iv_buf s @ a)"
    show ?thesis
    proof (cases "new_stream C (ss_cipher s) (ss_master_key s) ?iv")
      case (Inl e')
      then show ?thesis using r iv by (simp add: session_decrypt_iv)
    next
      case (Inr d)
      then have "decrypt_cipher_bytes C (start_codec C s ?iv d)
          (drop (iv_len (ss_cipher s)) (ss_recv_iv_buf s @ a)) = (s1, Inl e)"
        using r iv by (simp add: session_decrypt_iv)
      from decrypt_cipher_bytes_fail [OF C auth_new_quiet this [unfolded start_codec_def], of b]
      show ?thesis by (simp add: session_decrypt_iv_append [OF iv Inr] start_codec_def)
    qed
  qed
qed

interpretation sess: chunked_decoder "session_decrypt C" "session_idle C" for C :: "'cc crypto"
proof
  show "session_decrypt C s [] = (s, Inr [])" if "session_idle C s" for s
    using that by (cases "ss_decryptor s")
      (auto simp: session_idle_def session_decrypt_def decrypt_cipher_bytes_def)
qed (blast dest: session_decode_ok session_decode_fail)+

end
