(* ===== verification/Ssr_Session_Props.thy ===== *)
theory Ssr_Session_Props
  imports Ssr_Session
begin

text \<open>
  What the codec of a connection guarantees end to end: chunking of the TCP stream cannot be
  observed, a conforming client is decoded and attributed, replies are decodable, datagrams
  round-trip, the profile gate admits exactly the supported methods, and none of the
  \<open>expect\<close> calls in the codec can fire.
\<close>

subsection \<open>Fresh sessions\<close>

lemma session_new_fields:
  assumes "session_new C rand password us multi k = Inr s"
  shows "ss_cipher s = k" "ss_master_key s = derive_master_key C password k" "ss_recv_iv_buf s = []"
    "ss_decryptor s = None" "ss_users s = us" "ss_is_multi_user s = multi" "ss_protocol s = None"
    "\<not> ss_send_iv_emitted s" "rand (iv_len k) = Some (ss_send_iv s)"
    "new_stream C k (derive_master_key C password k) (ss_send_iv s) = Inr (ss_encryptor s)"
  using assms by (auto simp: session_new_def derive_master_key_def Let_def split: option.splits sum.splits)

lemma session_new_idle:
  "chacha_ok C \<Longrightarrow> session_new C rand password us multi k = Inr s \<Longrightarrow> session_idle C s"
  by (simp add: session_idle_def session_new_fields)

lemma length_derive_master_key [simp]:
  "crypto_ok C \<Longrightarrow> length (derive_master_key C password k) = key_len k"
  by (simp add: derive_master_key_def)

lemma session_new_total:
  assumes "crypto_ok C" "rand (iv_len k) = Some iv" "length iv = iv_len k"
  shows "\<exists>s. session_new C rand password us multi k = Inr s"
proof -
  obtain e where "new_stream C k (derive_master_key C password k) iv = Inr e"
    using new_stream_total [OF assms(1) _ assms(3)] assms(1) by force
  then show ?thesis using assms(2) by (simp add: session_new_def derive_master_key_def)
qed

text \<open>A fresh session fed with an IV and ciphertext runs the protocol layer on the plaintext.\<close>

lemma session_decrypt_fresh_codec:
  assumes C: "crypto_ok C" and s: "session_new C rand password us multi k = Inr s"
    and iv: "length civ = iv_len k" "new_stream C k (derive_master_key C password k) civ = Inr enc"
    and st: "server_post_decrypt C (auth_new C (derive_master_key C password k) civ us multi) stream = (p, r)"
    and w: "stream_process C enc stream = (enc', wire)"
  shows "session_decrypt C s (civ @ wire) = (with_codec (s\<lparr>ss_recv_iv_buf := []\<rparr>) (enc', p), r)"
proof -
  note f = session_new_fields [OF s]
  have u: "stream_process C enc wire = (enc', stream)"
    by (rule sc.process_undo [OF crypto_okD(4) [OF C] w])
  have "session_decrypt C s (civ @ wire) = decrypt_cipher_bytes C (start_codec C s civ enc) wire"
    using iv f by (subst session_decrypt_iv) simp_all
  also have "\<dots> = map_prod (with_codec (s\<lparr>ss_recv_iv_buf := []\<rparr>)) id ((enc', p), r)"
    using u st f by (simp add: start_codec_def decipher_def
        decrypt_cipher_bytes_eq [OF crypto_okD(4) [OF C] auth_new_quiet])
  finally show ?thesis by simp
qed

lemma session_decrypt_fresh:
  assumes "crypto_ok C" "session_new C rand password us multi k = Inr s"
    and "length civ = iv_len k" "new_stream C k (derive_master_key C password k) civ = Inr enc"
    and "server_post_decrypt C (auth_new C (derive_master_key C password k) civ us multi) stream = (p, r)"
  shows "\<exists>s'. session_decrypt C s (civ @ snd (stream_process C enc stream)) = (s', r) \<and> ss_protocol s' = Some p"
  using session_decrypt_fresh_codec [OF assms surjective_pairing] by (simp add: with_codec_def)

subsection \<open>The send path\<close>

lemma wire_data_stream_append:
  "wire_data_stream C ukey i (xs @ ys) =
     wire_data_stream C ukey i xs @ wire_data_stream C ukey (i + word_of_nat (length xs)) ys"
  by (induction xs arbitrary: i) (auto simp: algebra_simps)

definition reply_stream :: "'cc crypto \<Rightarrow> auth \<Rightarrow> bytes list \<Rightarrow> bytes" where
  "reply_stream C p plains =
     wire_data_stream C (user_key p) (pack_id p) (map (\<lambda>b. ([1], b)) (concat (map units plains)))"

lemma reply_stream_Cons:
  assumes "server_pre_encrypt C p plain = (p', body)"
  shows "reply_stream C p (plain # plains) = body @ reply_stream C p' plains"
  using assms by (auto simp: reply_stream_def server_pre_encrypt_wire wire_data_stream_append)

lemma feed_session_encrypt:
  assumes C: "chacha_ok C"
  shows "ss_protocol s = Some p \<Longrightarrow> ss_send_iv_emitted s \<Longrightarrow>
    \<exists>s'. feed_result (session_encrypt C) s plains =
      (s', Inr (snd (stream_process C (ss_encryptor s) (reply_stream C p plains)))) \<and> ss_send_iv_emitted s'"
proof (induction plains arbitrary: s p)
  case Nil
  then show ?case by (simp add: reply_stream_def sc.process_nil [OF C])
next
  case (Cons plain plains)
  obtain p' body where b: "server_pre_encrypt C p plain = (p', body)" by fastforce
  obtain e' wire where e: "stream_process C (ss_encryptor s) body = (e', wire)" by fastforce
  let ?s = "s\<lparr>ss_protocol := Some p', ss_encryptor := e'\<rparr>"
  have 1: "session_encrypt C s plain = (?s, Inr wire)"
    using Cons.prems b e by (simp add: session_encrypt_def)
  obtain s' where 2: "feed_result (session_encrypt C) ?s plains =
      (s', Inr (snd (stream_process C e' (reply_stream C p' plains))))" "ss_send_iv_emitted s'"
    using Cons.IH [of ?s p'] Cons.prems by auto
  have "snd (stream_process C (ss_encryptor s) (body @ reply_stream C p' plains)) =
      wire @ snd (stream_process C e' (reply_stream C p' plains))"
    by (simp add: sc.process_append [OF C] e case_prod_beta)
  then show ?case using 1 2 by (simp add: reply_stream_Cons [OF b])
qed

lemma feed_session_encrypt_first:
  assumes C: "chacha_ok C" and p: "ss_protocol s = Some p" "\<not> ss_send_iv_emitted s" "plains \<noteq> []"
  shows "\<exists>s'. feed_result (session_encrypt C) s plains =
      (s', Inr (ss_send_iv s @ snd (stream_process C (ss_encryptor s) (reply_stream C p plains)))) \<and>
    ss_send_iv_emitted s'"
proof -
  obtain plain rest where pl: "plains = plain # rest" using p(3) by (cases plains) auto
  obtain p' body where b: "server_pre_encrypt C p plain = (p', body)" by fastforce
  obtain e' wire where e: "stream_process C (ss_encryptor s) body = (e', wire)" by fastforce
  let ?s = "s\<lparr>ss_protocol := Some p', ss_encryptor := e', ss_send_iv_emitted := True\<rparr>"
  have 1: "session_encrypt C s plain = (?s, Inr (ss_send_iv s @ wire))"
    using p b e by (simp add: session_encrypt_def)
  obtain s' where 2: "feed_result (session_encrypt C) ?s rest =
      (s', Inr (snd (stream_process C e' (reply_stream C p' rest))))" "ss_send_iv_emitted s'"
    using feed_session_encrypt [OF C, of ?s p' rest] by auto
  have "snd (stream_process C (ss_encryptor s) (body @ reply_stream C p' rest)) =
      wire @ snd (stream_process C e' (reply_stream C p' rest))"
    by (simp add: sc.process_append [OF C] e case_prod_beta)
  then show ?thesis using 1 2 by (simp add: pl reply_stream_Cons [OF b])
qed

lemma reply_stream_decodes:
  assumes "crypto_ok C" "has_recv_header peer" "user_key peer = user_key p" "recv_id peer = pack_id p"
    "recv_buf peer = []"
  shows "\<exists>peer'. server_post_decrypt C peer (reply_stream C p plains) = (peer', Inr (concat plains))"
proof -
  let ?ps = "map (\<lambda>b. ([1], b)) (concat (map units plains)) :: (bytes \<times> bytes) list"
  have ok: "list_all wire_ok ?ps"
    using wire_ok_units by (induction plains) (simp_all add: list_all_append)
  have "concat (concat (map units plains)) = concat plains" by (induction plains) simp_all
  then have "concat (map snd ?ps) = concat plains" by (simp add: comp_def)
  then show ?thesis
    using data_loop_wire [OF assms(1) ok, of "buffer peer (reply_stream C p plains)" "[]"] assms
    by (simp add: server_post_decrypt_def post_decrypt_buffered_def reply_stream_def)
qed

lemma conforming_stream_decodes:
  assumes mkey_def: "mkey = derive_master_key C password k" and u_def: "u = word_of_nat (unat (uid :: u32))"
    and "crypto_ok C" "session_new C rand password us multi k = Inr s"
    and "length civ = iv_len k" "new_stream C k mkey civ = Inr enc"
    and "ukey = selected_key mkey civ us multi u"
    and "length auth12 = 12" "35 + length pad + length payload < MAX_PACKET" "list_all wire_ok ps"
  shows "\<exists>s'. session_decrypt C s (civ @ snd (stream_process C enc
        (wire_auth_packet C mkey civ ukey uid check auth12 pad payload @ wire_data_stream C ukey 1 ps))) =
      (s', Inr (payload @ concat (map snd ps))) \<and>
    session_user_id s' = (if us u = None then None else Some u)"
proof -
  let ?stream = "wire_auth_packet C mkey civ ukey uid check auth12 pad payload @ wire_data_stream C ukey 1 ps"
  obtain p where p: "server_post_decrypt C (auth_new C mkey civ us multi) ?stream =
      (p, Inr (payload @ concat (map snd ps)))" "user_id p = selected_user us u"
    using post_decrypt_wire [OF assms(3,8,9,10), of mkey civ us multi uid check] assms(7)
    by (auto simp: u_def)
  show ?thesis
    using session_decrypt_fresh [OF assms(3,4,5) _ p(1) [unfolded mkey_def]]
      assms(6) p(2) by (fastforce simp: mkey_def session_user_id_def selected_user_def)
qed

subsection \<open>Properties\<close>

text \<open>C1: how TCP cuts the client's byte stream is invisible. Feeding a fresh session the same
  bytes in two different sequences of reads (down to one byte at a time, splitting the IV,
  the auth header or any packet) yields the same decoded payload, the same final codec state,
  or the same error.\<close>

theorem session_decrypt_chunking:
  assumes "crypto_ok C" "session_new C rand password us multi k = Inr s"
    and "concat chunks = concat chunks'"
  shows "agree (feed_result (session_decrypt C) s chunks) (feed_result (session_decrypt C) s chunks')"
  using assms(3) by (rule sess.same_stream_same_result
      [OF session_new_idle [OF crypto_okD(4) [OF assms(1)] assms(2)]])

theorem session_decrypt_chunking_witness:
  "\<exists>s. session_new sample_crypto (\<lambda>n. Some (replicate n 3)) ''pw'' Map.empty 0 Rc4Md5 = Inr s \<and>
     agree (feed_result (session_decrypt sample_crypto) s [[1, 2], [3]])
           (feed_result (session_decrypt sample_crypto) s [[1], [2, 3]])"
proof -
  obtain s where s: "session_new sample_crypto (\<lambda>n. Some (replicate n 3)) ''pw'' Map.empty 0 Rc4Md5 = Inr s"
    using session_new_total [OF sample_crypto_ok, of "\<lambda>n. Some (replicate n 3)" Rc4Md5] by fastforce
  have c: "concat [[1, 2], [3 :: byte]] = concat [[1], [2, 3]]" by simp
  show ?thesis using s session_decrypt_chunking [OF sample_crypto_ok s c] by blast
qed

text \<open>C2: a conforming client is served. Whatever password, cipher, user table and mode, if a
  client sends its IV followed by the encrypted auth packet and data packets (with any valid
  random padding, in any TCP chunks), signed with the key the server selects for its uid, the
  session returns exactly the application payload and attributes the connection to that uid
  when it is in the table and to nobody otherwise.\<close>

theorem conforming_client_served:
  assumes mkey_def: "mkey = derive_master_key C password k" and u_def: "u = word_of_nat (unat (uid :: u32))"
    and "crypto_ok C" "session_new C rand password us multi k = Inr s"
    and "length civ = iv_len k" "new_stream C k mkey civ = Inr enc"
    and "ukey = selected_key mkey civ us multi u"
    and "length auth12 = 12" "35 + length pad + length payload < MAX_PACKET" "list_all wire_ok ps"
    and "concat chunks = civ @ snd (stream_process C enc
           (wire_auth_packet C mkey civ ukey uid check auth12 pad payload @ wire_data_stream C ukey 1 ps))"
  shows "\<exists>s'. feed_result (session_decrypt C) s chunks = (s', Inr (payload @ concat (map snd ps))) \<and>
    session_user_id s' = (if us u = None then None else Some u)"
proof -
  from conforming_stream_decodes [OF assms(1-10)] assms(11) obtain s' where
    s': "session_decrypt C s (concat chunks) = (s', Inr (payload @ concat (map snd ps)))"
    "session_user_id s' = (if us u = None then None else Some u)" by metis
  have "agree (feed_result (session_decrypt C) s chunks) (session_decrypt C s (concat chunks))"
    by (rule sess.feed_any_chunks [OF session_new_idle [OF crypto_okD(4) [OF assms(3)] assms(4)]])
  then have "feed_result (session_decrypt C) s chunks = (s', Inr (payload @ concat (map snd ps)))"
    using s'(1) by (auto simp: agree_def prod_eq_iff)
  then show ?thesis using s'(2) by blast
qed

theorem conforming_client_served_witness:
  "\<exists>s civ enc stream. session_new sample_crypto (\<lambda>n. Some (replicate n 3)) ''pw'' [7 \<mapsto> [8]] 2 Chacha20Ietf = Inr s \<and>
     length civ = 12 \<and> new_stream sample_crypto Chacha20Ietf (derive_master_key sample_crypto ''pw'' Chacha20Ietf) civ = Inr enc \<and>
     (\<exists>s'. feed_result (session_decrypt sample_crypto) s [civ, snd (stream_process sample_crypto enc stream)] =
         (s', Inr [9, 10, 11]) \<and> session_user_id s' = Some 7)"
proof -
  let ?C = sample_crypto and ?us = "[7 \<mapsto> [8]] :: u64 \<Rightarrow> bytes option"
  let ?mkey = "derive_master_key ?C ''pw'' Chacha20Ietf"
  let ?civ = "replicate 12 4 :: bytes"
  let ?ukey = "selected_key ?mkey ?civ ?us 2 7"
  let ?stream = "wire_auth_packet ?C ?mkey ?civ ?ukey 7 1 (replicate 12 0) [5] [9, 10] @
    wire_data_stream ?C ?ukey 1 [([1], [11])]"
  obtain s where s: "session_new ?C (\<lambda>n. Some (replicate n 3)) ''pw'' ?us 2 Chacha20Ietf = Inr s"
    using session_new_total [OF sample_crypto_ok, of "\<lambda>n. Some (replicate n 3)" Chacha20Ietf] by fastforce
  obtain enc where e: "new_stream ?C Chacha20Ietf ?mkey ?civ = Inr enc"
    using new_stream_total [OF sample_crypto_ok, of ?mkey Chacha20Ietf ?civ] sample_crypto_ok by auto
  have h: "length ?civ = iv_len Chacha20Ietf" "length (replicate 12 (0::byte)) = 12"
    "35 + length [5 :: byte] + length [9, 10 :: byte] < MAX_PACKET" "list_all wire_ok [([1], [11])]"
    "concat [?civ, snd (stream_process ?C enc ?stream)] = ?civ @ snd (stream_process ?C enc ?stream)"
    by (simp_all add: MAX_PACKET_def wire_ok_def valid_pre_def)
  have u: "(7 :: u64) = word_of_nat (unat (7 :: u32))" by simp
  show ?thesis
    using s e h(1) conforming_client_served [OF refl u sample_crypto_ok s h(1) e refl h(2-5)]
    by (intro exI [of _ s] exI [of _ ?civ] exI [of _ enc] exI [of _ ?stream]) auto
qed

text \<open>Replies are decodable and the IV is sent exactly once. For any sequence of at least one
  \<open>encrypt\<close> call on a connection whose send direction is still unused, the wire bytes are the
  send IV followed by ciphertext; a client that keys its cipher with that IV and holds the
  user key recovers the concatenation of the plaintexts.\<close>

theorem session_replies_decodable:
  assumes "crypto_ok C" "ss_protocol s = Some p" "\<not> ss_send_iv_emitted s" "plains \<noteq> []"
    and "has_recv_header peer" "user_key peer = user_key p" "recv_id peer = pack_id p" "recv_buf peer = []"
  shows "\<exists>s' cipher peer'. feed_result (session_encrypt C) s plains = (s', Inr (ss_send_iv s @ cipher)) \<and>
    ss_send_iv_emitted s' \<and>
    server_post_decrypt C peer (snd (stream_process C (ss_encryptor s) cipher)) = (peer', Inr (concat plains))"
proof -
  note cc = crypto_okD(4) [OF assms(1)]
  let ?c = "snd (stream_process C (ss_encryptor s) (reply_stream C p plains))"
  have "snd (stream_process C (ss_encryptor s) ?c) = reply_stream C p plains"
    by (simp add: sc.process_symmetric [OF cc])
  moreover obtain peer' where "server_post_decrypt C peer (reply_stream C p plains) = (peer', Inr (concat plains))"
    using reply_stream_decodes [OF assms(1,5-8)] by blast
  moreover obtain s' where "feed_result (session_encrypt C) s plains = (s', Inr (ss_send_iv s @ ?c))"
    "ss_send_iv_emitted s'"
    using feed_session_encrypt_first [OF cc assms(2,3,4)] by blast
  ultimately show ?thesis by (intro exI [of _ s'] exI [of _ ?c] exI [of _ peer']) simp
qed

theorem session_replies_decodable_witness:
  "\<exists>s p s' cipher peer peer'. ss_protocol s = Some p \<and> \<not> ss_send_iv_emitted s \<and> has_recv_header peer \<and>
     feed_result (session_encrypt sample_crypto) s [[1, 2], [], [3]] = (s', Inr (ss_send_iv s @ cipher)) \<and>
     server_post_decrypt sample_crypto peer (snd (stream_process sample_crypto (ss_encryptor s) cipher)) =
       (peer', Inr [1, 2, 3])"
proof -
  obtain s0 where s0: "session_new sample_crypto (\<lambda>n. Some (replicate n 3)) ''pw'' Map.empty 0 Rc4Md5 = Inr s0"
    using session_new_total [OF sample_crypto_ok, of "\<lambda>n. Some (replicate n 3)" Rc4Md5] by fastforce
  let ?p = "auth_new sample_crypto [1] [2] Map.empty 0"
  let ?s = "s0\<lparr>ss_protocol := Some ?p\<rparr>"
  let ?peer = "?p\<lparr>has_recv_header := True\<rparr>"
  have h: "ss_protocol ?s = Some ?p" "\<not> ss_send_iv_emitted ?s" "[[1, 2], [], [3]] \<noteq> ([] :: bytes list)"
    "has_recv_header ?peer" "user_key ?peer = user_key ?p" "recv_id ?peer = pack_id ?p" "recv_buf ?peer = []"
    using session_new_fields(8) [OF s0] by (simp_all add: auth_new_def)
  show ?thesis using h(1,2,4) session_replies_decodable [OF sample_crypto_ok h] by fastforce
qed

text \<open>What a client sends for a datagram after the IV: payload, uid and MAC, encrypted.\<close>

definition wire_datagram :: "'cc crypto \<Rightarrow> 'cc stream_cipher \<Rightarrow> bytes \<Rightarrow> u32 \<Rightarrow> bytes \<Rightarrow> bytes" where
  "wire_datagram C c key uid payload =
     snd (stream_process C c (payload @ le_bytes 4 (unat uid) @ hmac_md5_prefix C key (payload @ le_bytes 4 (unat uid)) 4))"

lemma udp_request_decodes:
  assumes "crypto_ok C" "new_stream C k mkey iv = Inr c" "length iv = iv_len k"
    and "udp_user mkey us multi iv (word_of_nat (unat (uid :: u32))) = (key, who)"
  shows "udp_decrypt_packet C mkey us multi (iv @ wire_datagram C c key uid payload) k = Inr (payload, who)"
proof -
  have "udp_decrypt_packet C mkey us multi (iv @ snd (stream_process C c body)) k =
      udp_server_post_decrypt C mkey us multi iv body" for body
    using assms(2,3) sc.process_symmetric [OF crypto_okD(4) [OF assms(1)], of c body]
    by (simp add: udp_decrypt_packet_def case_prod_beta Let_def)
  moreover have "udp_server_post_decrypt C mkey us multi iv (payload @ le_bytes 4 (unat uid) @
      hmac_md5_prefix C key (payload @ le_bytes 4 (unat uid)) 4) = Inr (payload, who)"
    unfolding udp_accept_spec
    by (rule exI [of _ "le_bytes 4 (unat uid)"], rule exI
        [of _ "hmac_md5_prefix C key (payload @ le_bytes 4 (unat uid)) 4"])
      (use assms(1,4) in \<open>simp add: wire_simps unat_u32_mod\<close>)
  ultimately show ?thesis by (simp add: wire_datagram_def)
qed

lemma udp_reply_decodes:
  assumes "crypto_ok C" "new_stream C k mkey iv = Inr c" "rand (iv_len k) = Some iv"
  shows "\<exists>cipher. udp_encrypt_packet C rand mkey proto_key data k = Inr (iv @ cipher) \<and>
    snd (stream_process C c cipher) = data @ hmac_md5_prefix C proto_key data 4"
  using assms(2,3) sc.process_symmetric [OF crypto_okD(4) [OF assms(1)], of c]
  by (simp add: udp_encrypt_packet_def udp_server_pre_encrypt_def case_prod_beta)

text \<open>Datagrams round-trip. A client datagram (IV, then the encrypted payload, uid and MAC
  under the key the uid selects) is decoded to its payload and attribution; and every datagram
  the server emits is its random IV followed by ciphertext that decrypts to the header and
  payload followed by a MAC under \<open>proto_key\<close>.\<close>

theorem udp_packets_roundtrip:
  assumes "crypto_ok C" "length mkey = key_len k" "length iv = iv_len k"
  shows "\<exists>c. new_stream C k mkey iv = Inr c \<and>
    (\<forall>us multi uid payload key who.
       udp_user mkey us multi iv (word_of_nat (unat (uid :: u32))) = (key, who) \<longrightarrow>
       udp_decrypt_packet C mkey us multi (iv @ wire_datagram C c key uid payload) k = Inr (payload, who)) \<and>
    (\<forall>proto_key data rand. rand (iv_len k) = Some iv \<longrightarrow>
       (\<exists>cipher. udp_encrypt_packet C rand mkey proto_key data k = Inr (iv @ cipher) \<and>
          snd (stream_process C c cipher) = data @ hmac_md5_prefix C proto_key data 4))"
proof -
  obtain c where c: "new_stream C k mkey iv = Inr c" using new_stream_total [OF assms] by blast
  show ?thesis using c udp_request_decodes [OF assms(1) c assms(3)] udp_reply_decodes [OF assms(1) c] by blast
qed

theorem udp_packets_roundtrip_witness:
  "\<exists>c. new_stream sample_crypto Rc4Md5 (replicate 16 1) (replicate 16 2) = Inr c \<and>
     udp_decrypt_packet sample_crypto (replicate 16 1) Map.empty 0
       (replicate 16 2 @ wire_datagram sample_crypto c (replicate 16 1) 0 [5]) Rc4Md5 = Inr ([5], None)"
proof -
  have h: "length (replicate 16 (1 :: byte)) = key_len Rc4Md5" "length (replicate 16 (2 :: byte)) = iv_len Rc4Md5"
    by simp_all
  have u: "udp_user (replicate 16 1) Map.empty 0 (replicate 16 2) (word_of_nat (unat (0 :: u32))) =
      (replicate 16 1, None)" by (simp add: udp_user_def)
  from udp_packets_roundtrip [OF sample_crypto_ok h] show ?thesis using u by blast
qed

subsection \<open>The codec does not panic\<close>

fun codec_error :: "error \<Rightarrow> bool" where
  "codec_error CheckHeadMismatch = True"
| "codec_error AuthHmacMismatch = True"
| "codec_error (BadAuthLength n) = True"
| "codec_error AuthChecksumMismatch = True"
| "codec_error (RndLenOverrun n) = True"
| "codec_error DataLengthMac = True"
| "codec_error (BadDataLength n) = True"
| "codec_error DataChecksumMismatch = True"
| "codec_error DataPaddingOverrun = True"
| "codec_error _ = False"

lemma header_step_error: "header_step C st = Fail st' e \<Longrightarrow> codec_error e"
  by (auto simp: header_step_def Let_def split: if_splits)

lemma data_step_error: "data_step C st = Fail st' e \<Longrightarrow> codec_error e"
  by (auto simp: data_step_def Let_def split: if_splits)

lemma data_loop_error: "snd (data_loop C st out) = Inl e \<Longrightarrow> codec_error e"
proof (induction C st out rule: data_loop.induct)
  case (1 C st out)
  then show ?case
    by (subst (asm) (2) data_loop.simps) (auto dest: data_step_error split: outcome.splits)
qed

lemma server_post_decrypt_error: "snd (server_post_decrypt C st xs) = Inl e \<Longrightarrow> codec_error e"
  by (auto simp: server_post_decrypt_def post_decrypt_buffered_def dest: data_loop_error header_step_error
      split: outcome.splits if_splits)

definition session_keyed :: "'cc session \<Rightarrow> bool" where
  "session_keyed s \<longleftrightarrow> length (ss_master_key s) = key_len (ss_cipher s) \<and>
     (ss_decryptor s = None \<longleftrightarrow> ss_protocol s = None)"

lemma decrypt_cipher_bytes_keyed:
  assumes "session_keyed s" "ss_decryptor s \<noteq> None"
  shows "snd (decrypt_cipher_bytes C s xs) = Inl e \<Longrightarrow> codec_error e" "session_keyed (fst (decrypt_cipher_bytes C s xs))"
  using assms
  by (auto simp: decrypt_cipher_bytes_def session_keyed_def case_prod_beta Let_def dest: server_post_decrypt_error
      split: if_splits)

lemma session_decrypt_keyed:
  assumes "crypto_ok C" "session_keyed s"
  shows "(snd (session_decrypt C s xs) = Inl e \<longrightarrow> codec_error e) \<and> session_keyed (fst (session_decrypt C s xs))"
proof (cases "ss_decryptor s = None \<and> iv_len (ss_cipher s) \<le> length (ss_recv_iv_buf s @ xs)")
  case True
  let ?iv = "take (iv_len (ss_cipher s)) (ss_recv_iv_buf s @ xs)"
  have "length (ss_master_key s) = key_len (ss_cipher s)" "length ?iv = iv_len (ss_cipher s)"
    using assms(2) True by (auto simp: session_keyed_def)
  then obtain d where d: "new_stream C (ss_cipher s) (ss_master_key s) ?iv = Inr d"
    using new_stream_total [OF assms(1)] by blast
  have k: "session_keyed (start_codec C s ?iv d)" "ss_decryptor (start_codec C s ?iv d) \<noteq> None"
    using assms(2) by (simp_all add: session_keyed_def start_codec_def with_codec_def)
  show ?thesis using True d decrypt_cipher_bytes_keyed [OF k] by (simp add: session_decrypt_iv)
next
  case False
  show ?thesis
  proof (cases "ss_decryptor s")
    case None
    then show ?thesis using False assms(2)
      by (simp add: session_decrypt_waiting session_keyed_def not_le)
  next
    case (Some d)
    then show ?thesis using decrypt_cipher_bytes_keyed [OF assms(2)] by (simp add: session_decrypt_started)
  qed
qed

lemma session_new_keyed:
  "crypto_ok C \<Longrightarrow> session_new C rand password us multi k = Inr s \<Longrightarrow> session_keyed s"
  using session_new_fields [of C rand password us multi k s] by (simp add: session_keyed_def)

lemma feed_decrypt_keyed:
  "crypto_ok C \<Longrightarrow> session_keyed s \<Longrightarrow> snd (feed_result (session_decrypt C) s cs) = Inl e \<Longrightarrow> codec_error e"
proof (induction cs arbitrary: s)
  case (Cons c cs)
  have "(snd (session_decrypt C s c) = Inl e \<longrightarrow> codec_error e) \<and> session_keyed (fst (session_decrypt C s c))"
    by (rule session_decrypt_keyed [OF Cons.prems(1,2)])
  then show ?case using Cons.IH [of "fst (session_decrypt C s c)"] Cons.prems
    by (auto split: prod.splits sum.splits)
qed simp



subsection \<open>The profile gate\<close>

lemma from_method_supported:
  "from_method ''rc4-md5'' = Inr Rc4Md5" "from_method ''chacha20-ietf'' = Inr Chacha20Ietf"
  by (simp_all add: from_method_def to_ascii_lowercase_def ascii_lower_def code_def)

lemma ensure_supported_iff:
  "ensure_supported pf = Inr x \<longleftrightarrow>
     (pf_method pf = ''rc4-md5'' \<or> pf_method pf = ''chacha20-ietf'') \<and>
     pf_protocol pf = ''auth_aes128_md5'' \<and> pf_obfs pf = ''plain''"
  unfolding ensure_supported_def by (cases "pf_method pf = ''rc4-md5''"; cases "pf_method pf = ''chacha20-ietf''")
    (simp_all only: from_method_supported sum.case if_True if_False simp_thms, auto)

text \<open>\<open>Profile::new\<close> admits exactly the two supported cipher methods with protocol
  \<open>auth_aes128_md5\<close> and obfuscation \<open>plain\<close>, ignoring ASCII case, and a profile it returns
  always has a cipher: the \<open>expect\<close> in \<open>cipher_kind\<close> cannot fire.\<close>

theorem profile_gate:
  "((\<exists>pf. profile_new m p ob t = Inr pf) \<longleftrightarrow>
     (to_ascii_lowercase m = ''rc4-md5'' \<or> to_ascii_lowercase m = ''chacha20-ietf'') \<and>
     to_ascii_lowercase p = ''auth_aes128_md5'' \<and> to_ascii_lowercase ob = ''plain'') \<and>
   (\<forall>pf. profile_new m p ob t = Inr pf \<longrightarrow>
     profile_cipher_kind pf = Inr (if to_ascii_lowercase m = ''rc4-md5'' then Rc4Md5 else Chacha20Ietf))"
proof -
  let ?pf = "\<lparr>pf_method = to_ascii_lowercase m, pf_protocol = to_ascii_lowercase p,
      pf_obfs = to_ascii_lowercase ob, pf_timeout = t\<rparr>"
  have new: "profile_new m p ob t = Inr pf \<longleftrightarrow>
      ((to_ascii_lowercase m = ''rc4-md5'' \<or> to_ascii_lowercase m = ''chacha20-ietf'') \<and>
       to_ascii_lowercase p = ''auth_aes128_md5'' \<and> to_ascii_lowercase ob = ''plain'') \<and> pf = ?pf" for pf
    using ensure_supported_iff [of ?pf "()"]
    by (cases "ensure_supported ?pf") (auto simp: profile_new_def Let_def)
  have kind: "profile_cipher_kind ?pf = Inr (if to_ascii_lowercase m = ''rc4-md5'' then Rc4Md5 else Chacha20Ietf)"
    if "to_ascii_lowercase m = ''rc4-md5'' \<or> to_ascii_lowercase m = ''chacha20-ietf''"
    using that by (elim disjE) (simp_all add: profile_cipher_kind_def from_method_supported)
  show ?thesis unfolding new using kind by blast
qed

theorem profile_gate_witness:
  "\<exists>pf. profile_new ''RC4-MD5'' ''auth_aes128_md5'' ''plain'' 5 = Inr pf \<and> profile_cipher_kind pf = Inr Rc4Md5"
proof -
  have l: "to_ascii_lowercase ''RC4-MD5'' = ''rc4-md5''" "to_ascii_lowercase ''auth_aes128_md5'' = ''auth_aes128_md5''"
    "to_ascii_lowercase ''plain'' = ''plain''"
    by code_simp+
  show ?thesis using profile_gate [of "''RC4-MD5''" "''auth_aes128_md5''" "''plain''" 5] unfolding l by auto
qed

end
