(* ===== verification/Reference_Client.thy ===== *)
theory Reference_Client
  imports Ssr_Session_Props
begin

text \<open>
  \<^verbatim>\<open>src/src/ssr/mod.rs\<close>, \<open>ClientCodec\<close>: the client half of the protocol that the repository
  keeps beside the server codec to drive it. \<open>client_step\<close> is one turn of the
  \<open>while self.recv_buf.len() > 4\<close> loop of \<open>client_recv\<close>, \<open>client_loop\<close> the loop; a slice index
  out of range is \<open>Inl Panic\<close>. The repository's tests run a few fixed conversations between this
  client and a \<open>ServerSession\<close>; the theorem below is their assertion for every conversation.
\<close>

record 'cc client_codec =
  cc_kind :: cipher_kind
  cc_master_key :: bytes
  cc_send_iv :: bytes
  cc_encryptor :: "'cc stream_cipher"
  cc_sent_header :: bool
  cc_pack_id :: u32
  cc_recv_iv_buf :: bytes
  cc_decryptor :: "'cc stream_cipher option"
  cc_recv_id :: u32
  cc_user_key :: bytes
  cc_recv_buf :: bytes

definition client_new_kind :: "'cc crypto \<Rightarrow> string \<Rightarrow> cipher_kind \<Rightarrow> 'cc client_codec result" where
  "client_new_kind C password kind =
     (let mkey = evp_bytes_to_key C (str_bytes password) (key_len kind);
          send_iv = replicate (iv_len kind) 0x42
      in case new_stream C kind mkey send_iv of
           Inl e \<Rightarrow> Inl e
         | Inr encryptor \<Rightarrow> Inr
             \<lparr>cc_kind = kind, cc_master_key = mkey, cc_send_iv = send_iv, cc_encryptor = encryptor,
              cc_sent_header = False, cc_pack_id = 1, cc_recv_iv_buf = [], cc_decryptor = None,
              cc_recv_id = 1, cc_user_key = mkey, cc_recv_buf = []\<rparr>)"

definition client_new :: "'cc crypto \<Rightarrow> string \<Rightarrow> 'cc client_codec result" where
  "client_new C password = client_new_kind C password Rc4Md5"

definition with_fixed_uid :: "'cc client_codec \<Rightarrow> u32 \<Rightarrow> 'cc client_codec" where
  "with_fixed_uid c uid = c\<lparr>cc_recv_id := uid\<rparr>"

definition client_new_multi_kind ::
  "'cc crypto \<Rightarrow> string \<Rightarrow> u32 \<Rightarrow> string \<Rightarrow> cipher_kind \<Rightarrow> 'cc client_codec result" where
  "client_new_multi_kind C carrier_password uid user_password kind =
     (let mkey = evp_bytes_to_key C (str_bytes carrier_password) (key_len kind);
          send_iv = replicate (iv_len kind) 0x42
      in case new_stream C kind mkey send_iv of
           Inl e \<Rightarrow> Inl e
         | Inr encryptor \<Rightarrow> Inr (with_fixed_uid
             \<lparr>cc_kind = kind, cc_master_key = mkey, cc_send_iv = send_iv, cc_encryptor = encryptor,
              cc_sent_header = False, cc_pack_id = 1, cc_recv_iv_buf = [], cc_decryptor = None,
              cc_recv_id = 1, cc_user_key = derive_user_auth_key C user_password, cc_recv_buf = []\<rparr> uid))"

definition client_new_multi :: "'cc crypto \<Rightarrow> string \<Rightarrow> u32 \<Rightarrow> string \<Rightarrow> 'cc client_codec result" where
  "client_new_multi C carrier_password uid user_password =
     client_new_multi_kind C carrier_password uid user_password Rc4Md5"

subsection \<open>Sending\<close>

definition client_pack_auth :: "'cc crypto \<Rightarrow> 'cc client_codec \<Rightarrow> bytes \<Rightarrow> bytes" where
  "client_pack_auth C c buf =
     (let rnd_len = 0 :: nat;
          data_len = (word_of_nat (7 + 4 + 16 + 4 + length buf + rnd_len + 4) :: u16);
          data = replicate 12 0 @ le_bytes 2 (unat data_len) @ le_bytes 2 (unat (word_of_nat rnd_len :: u16));
          aes_seed = base64_encode C (cc_user_key c) @ str_bytes ''auth_aes128_md5'';
          key = evp_bytes_to_key C aes_seed 16;
          block = aes128_encrypt C key data;
          uid = (if 1 < cc_recv_id c then le_bytes 4 (unat (cc_recv_id c)) else replicate 4 0);
          packet = uid @ block;
          mac_key = cc_send_iv c @ cc_master_key c;
          auth_hmac = hmac_md5_prefix C mac_key packet 4;
          check_byte = [0x11];
          head = check_byte @ hmac_md5_prefix C mac_key check_byte 6;
          full = head @ (packet @ auth_hmac) @ buf
      in full @ hmac_md5_prefix C (cc_user_key c) full 4)"

definition client_pack_data :: "'cc crypto \<Rightarrow> 'cc client_codec \<Rightarrow> bytes \<Rightarrow> 'cc client_codec \<times> bytes" where
  "client_pack_data C c buf =
     (let data = 0x01 # buf;
          data_len = (word_of_nat (length data + 8) :: u16);
          mac_key = cc_user_key c @ le_bytes 4 (unat (cc_pack_id c));
          len_bytes = le_bytes 2 (unat data_len);
          mac = hmac_md5_prefix C mac_key len_bytes 2;
          packet = len_bytes @ mac @ data;
          tail = hmac_md5_prefix C mac_key packet 4
      in (c\<lparr>cc_pack_id := cc_pack_id c + 1\<rparr>, packet @ tail))"

definition client_first_send :: "'cc crypto \<Rightarrow> 'cc client_codec \<Rightarrow> bytes \<Rightarrow> 'cc client_codec \<times> bytes" where
  "client_first_send C c payload =
     (let proto = client_pack_auth C c payload;
          c1 = c\<lparr>cc_sent_header := True\<rparr>;
          (e', body) = stream_process C (cc_encryptor c1) proto
      in (c1\<lparr>cc_encryptor := e'\<rparr>, cc_send_iv c1 @ body))"

definition client_send :: "'cc crypto \<Rightarrow> 'cc client_codec \<Rightarrow> bytes \<Rightarrow> 'cc client_codec \<times> bytes" where
  "client_send C c payload =
     (let (c1, packet) = client_pack_data C c payload;
          (e', body) = stream_process C (cc_encryptor c1) packet
      in (c1\<lparr>cc_encryptor := e'\<rparr>, body))"

subsection \<open>Receiving\<close>

definition client_step :: "'cc client_codec \<Rightarrow> 'cc client_codec outcome" where
  "client_step c =
     (let buf = cc_recv_buf c in
      if 4 < length buf then
        let len = u16_le buf in
        if length buf < len then More c
        else
          let c1 = c\<lparr>cc_recv_id := cc_recv_id c + 1\<rparr>;
              pos = unat (buf ! 4) + 4
          in if len < 4 \<or> len - 4 < pos then Fail c1 Panic
             else Packet (c1\<lparr>cc_recv_buf := drop len buf\<rparr>) (subslice pos (len - 4) buf)
      else More c)"

lemma client_step_progress:
  "client_step c = Packet c' p \<Longrightarrow> length (cc_recv_buf c') < length (cc_recv_buf c)"
  by (auto simp: client_step_def Let_def split: if_splits)

function client_loop :: "'cc client_codec \<Rightarrow> bytes \<Rightarrow> 'cc client_codec \<times> bytes result" where
  "client_loop c out =
     (case client_step c of
        More c' \<Rightarrow> (c', Inr out)
      | Fail c' e \<Rightarrow> (c', Inl e)
      | Packet c' p \<Rightarrow> client_loop c' (out @ p))"
  by pat_completeness auto
termination
  by (relation "measure (\<lambda>(c, out). length (cc_recv_buf c))") (auto dest: client_step_progress)

declare client_loop.simps [simp del]

definition client_buffer :: "'cc client_codec \<Rightarrow> bytes \<Rightarrow> 'cc client_codec" where
  "client_buffer c xs = c\<lparr>cc_recv_buf := cc_recv_buf c @ xs\<rparr>"

text \<open>\<open>client_recv\<close> from the call of \<open>process\<close> on.\<close>

definition client_cipher_bytes :: "'cc crypto \<Rightarrow> 'cc client_codec \<Rightarrow> bytes \<Rightarrow> 'cc client_codec \<times> bytes result" where
  "client_cipher_bytes C c cipher_bytes =
     (case cc_decryptor c of
        None \<Rightarrow> (c, Inl Panic)
      | Some d \<Rightarrow>
          let (d', plain) = stream_process C d cipher_bytes
          in client_loop (client_buffer (c\<lparr>cc_decryptor := Some d'\<rparr>) plain) [])"

definition client_recv :: "'cc crypto \<Rightarrow> 'cc client_codec \<Rightarrow> bytes \<Rightarrow> 'cc client_codec \<times> bytes result" where
  "client_recv C c raw =
     (if cc_decryptor c = None then
        let c1 = c\<lparr>cc_recv_iv_buf := cc_recv_iv_buf c @ raw\<rparr>; n = iv_len (cc_kind c) in
        if length (cc_recv_iv_buf c1) < n then (c1, Inr [])
        else
          let iv = take n (cc_recv_iv_buf c1); rest = drop n (cc_recv_iv_buf c1) in
          (case new_stream C (cc_kind c1) (cc_master_key c1) iv of
             Inl e \<Rightarrow> (c1, Inl e)
           | Inr d \<Rightarrow> client_cipher_bytes C (c1\<lparr>cc_decryptor := Some d\<rparr>) rest)
      else client_cipher_bytes C c raw)"

subsection \<open>The client's packets are the protocol's packets\<close>

definition client_uid :: "'cc client_codec \<Rightarrow> u32" where
  "client_uid c = (if 1 < cc_recv_id c then cc_recv_id c else 0)"

lemma le_bytes_zero: "le_bytes n 0 = replicate n 0"
  by (induction n) simp_all

lemma client_pack_auth_wire:
  assumes "35 + length buf < MAX_PACKET"
  shows "client_pack_auth C c buf = wire_auth_packet C (cc_master_key c) (cc_send_iv c) (cc_user_key c)
    (client_uid c) 0x11 (replicate 12 0) [] buf"
proof -
  have l: "unat (word_of_nat (7 + 4 + 16 + 4 + length buf + 0 + 4) :: u16) = 35 + length ([] :: bytes) + length buf"
    using assms by (simp add: unat_of_nat MAX_PACKET_def del: of_nat_add of_nat_Suc)
  have u: "(if 1 < cc_recv_id c then le_bytes 4 (unat (cc_recv_id c)) else replicate 4 0) =
      le_bytes 4 (unat (client_uid c))"
    by (simp add: client_uid_def le_bytes_zero)
  show ?thesis unfolding client_pack_auth_def wire_auth_packet_def Let_def l u
    by (simp add: derive_aes_key_def SALT_def)
qed

lemma client_pack_data_wire:
  assumes "9 + length buf < MAX_PACKET"
  shows "client_pack_data C c buf = (c\<lparr>cc_pack_id := cc_pack_id c + 1\<rparr>,
    wire_data_packet C (cc_user_key c) (cc_pack_id c) [1] buf)"
proof -
  have "unat (word_of_nat (length (1 # buf) + 8) :: u16) = 8 + length [1 :: byte] + length buf"
    using assms by (simp add: unat_of_nat MAX_PACKET_def del: of_nat_add of_nat_Suc)
  then show ?thesis unfolding client_pack_data_def wire_data_packet_def data_mac_key_def Let_def
    by (simp del: of_nat_add of_nat_Suc)
qed

lemma client_step_wire:
  assumes C: "crypto_ok C" and ok: "wire_ok ([1], payload)"
    and buf: "cc_recv_buf c = wire_data_packet C ukey i [1] payload @ rest"
  shows "client_step c = Packet (c\<lparr>cc_recv_id := cc_recv_id c + 1, cc_recv_buf := rest\<rparr>) payload"
proof -
  let ?n = "9 + length payload"
  define L where "L = le_bytes 2 ?n"
  define M where "M = hmac_md5_prefix C (data_mac_key ukey i) L 2"
  define T where "T = hmac_md5_prefix C (data_mac_key ukey i) (L @ M @ 1 # payload) 4"
  have len: "length L = 2" "length M = 2" "length T = 4" using C by (simp_all add: L_def M_def T_def)
  have b: "cc_recv_buf c = L @ M @ 1 # payload @ T @ rest"
    using buf by (simp add: wire_data_packet_def Let_def L_def M_def T_def)
  have n: "?n < 8192" using ok by (simp add: wire_ok_def MAX_PACKET_def)
  have u: "u16_le (cc_recv_buf c) = ?n" using len n by (simp add: u16_le_def b L_def wire_simps)
  have "cc_recv_buf c ! 4 = 1" "drop ?n (cc_recv_buf c) = rest" "subslice 5 (?n - 4) (cc_recv_buf c) = payload"
    "4 < length (cc_recv_buf c)" "?n \<le> length (cc_recv_buf c)"
    using len by (simp_all add: b nth_append subslice_def drop_Cons')
  then show ?thesis unfolding client_step_def Let_def u by simp
qed

lemma client_loop_wire:
  assumes C: "crypto_ok C"
  shows "list_all wire_ok (map (Pair [1]) bs) \<Longrightarrow>
     cc_recv_buf c = wire_data_stream C ukey i (map (Pair [1]) bs) \<Longrightarrow>
     client_loop c out = (c\<lparr>cc_recv_id := cc_recv_id c + word_of_nat (length bs), cc_recv_buf := []\<rparr>,
       Inr (out @ concat bs))"
proof (induction bs arbitrary: c i out)
  case Nil
  then show ?case by (subst client_loop.simps) (simp add: client_step_def)
next
  case (Cons b bs)
  let ?c = "c\<lparr>cc_recv_id := cc_recv_id c + 1, cc_recv_buf := wire_data_stream C ukey (i + 1) (map (Pair [1]) bs)\<rparr>"
  have "client_step c = Packet ?c b" using Cons.prems by (intro client_step_wire [OF C]) auto
  moreover have "client_loop ?c (out @ b) =
      (?c\<lparr>cc_recv_id := cc_recv_id ?c + word_of_nat (length bs), cc_recv_buf := []\<rparr>, Inr ((out @ b) @ concat bs))"
    using Cons.prems by (intro Cons.IH) auto
  ultimately show ?case by (subst client_loop.simps) (simp add: algebra_simps)
qed

subsection \<open>The receive path is a chunked decoder\<close>

lemma client_buffer_sel [simp]:
  "cc_recv_buf (client_buffer c xs) = cc_recv_buf c @ xs" "cc_recv_id (client_buffer c xs) = cc_recv_id c"
  "cc_decryptor (client_buffer c xs) = cc_decryptor c"
  by (simp_all add: client_buffer_def)

lemma client_step_packet_app:
  assumes "client_step c = Packet c' p"
  shows "client_step (client_buffer c ys) = Packet (client_buffer c' ys) p"
proof -
  let ?n = "u16_le (cc_recv_buf c)"
  have h: "4 < length (cc_recv_buf c)" "?n \<le> length (cc_recv_buf c)" "\<not> (?n < 4 \<or> ?n - 4 < unat (cc_recv_buf c ! 4) + 4)"
    "c' = c\<lparr>cc_recv_id := cc_recv_id c + 1, cc_recv_buf := drop ?n (cc_recv_buf c)\<rparr>"
    "p = subslice (unat (cc_recv_buf c ! 4) + 4) (?n - 4) (cc_recv_buf c)"
    using assms by (auto simp: client_step_def Let_def split: if_splits)
  then show ?thesis
    by (simp add: client_step_def Let_def client_buffer_def u16_le_append nth_append slice_simps)
qed

lemma client_step_fail_app:
  assumes "client_step c = Fail c' e"
  shows "\<exists>t. client_step (client_buffer c ys) = Fail t e"
  using assms by (auto simp: client_step_def Let_def u16_le_append nth_append split: if_splits)

interpretation client_stream:
  packet_stream client_step client_loop client_buffer "\<lambda>c. length (cc_recv_buf c)"
proof
  fix c c' :: "'cc client_codec" and out p ys xs e
  show "client_loop c out =
     (case client_step c of
        More c' \<Rightarrow> (c', Inr out)
      | Fail c' e \<Rightarrow> (c', Inl e)
      | Packet c' p \<Rightarrow> client_loop c' (out @ p))" by (rule client_loop.simps)
  show "client_step (client_buffer c' ys) = client_step (client_buffer c ys)" if "client_step c = More c'"
    using that by (auto simp: client_step_def Let_def split: if_splits)
qed (auto simp: client_buffer_def client_step_packet_app [unfolded client_buffer_def]
    client_step_fail_app [unfolded client_buffer_def] dest: client_step_progress)

text \<open>The decryptor is invisible to the packet loop.\<close>

definition with_decryptor :: "'cc client_codec \<Rightarrow> 'cc stream_cipher \<Rightarrow> 'cc client_codec" where
  "with_decryptor c d = c\<lparr>cc_decryptor := Some d\<rparr>"

lemma client_step_decryptor: "client_step (with_decryptor c d) = map_outcome (\<lambda>c. with_decryptor c d) (client_step c)"
  by (simp add: client_step_def with_decryptor_def Let_def)

lemma client_loop_decryptor:
  "client_loop (with_decryptor c d) out = map_prod (\<lambda>c. with_decryptor c d) id (client_loop c out)"
proof (induction c out rule: client_loop.induct)
  case (1 c out)
  show ?case
  proof (cases "client_step c")
    case (Packet q xs)
    then show ?thesis using "1.IH" [OF Packet]
      by (subst (1 2) client_loop.simps) (simp add: client_step_decryptor id_def)
  qed (subst (1 2) client_loop.simps; simp add: client_step_decryptor)+
qed

definition client_unpack :: "'cc client_codec \<Rightarrow> bytes \<Rightarrow> 'cc client_codec \<times> bytes result" where
  "client_unpack c plain = client_loop (client_buffer c plain) []"

interpretation client_unpacks: chunked_decoder client_unpack "\<lambda>c :: 'cc client_codec. client_step c = More c"
  using client_stream.chunked_decoder_axioms by (simp add: client_unpack_def [abs_def])

interpretation client_dec:
  deciphering "stream_process C" "\<lambda>_. chacha_ok C" client_unpack "\<lambda>c :: 'cc client_codec. client_step c = More c"
  for C :: "'cc crypto"
  by unfold_locales

definition join_client :: "'cc stream_cipher \<times> 'cc client_codec \<Rightarrow> 'cc client_codec" where
  "join_client = (\<lambda>(d, c). with_decryptor c d)"

lemma client_recv_started:
  "client_recv C (with_decryptor c d) xs =
    map_prod join_client id (decipher (stream_process C) client_unpack (d, c) xs)"
proof -
  have "client_buffer (with_decryptor c d) ys = with_decryptor (client_buffer c ys) d" for d ys
    by (simp add: with_decryptor_def client_buffer_def)
  then show ?thesis
    by (simp add: client_recv_def client_cipher_bytes_def decipher_def join_client_def client_unpack_def
        client_loop_decryptor [unfolded with_decryptor_def] with_decryptor_def map_prod_def case_prod_beta Let_def)
qed

definition client_idle :: "'cc crypto \<Rightarrow> 'cc client_codec \<Rightarrow> bool" where
  "client_idle C c \<longleftrightarrow> chacha_ok C \<and> cc_decryptor c \<noteq> None \<and> client_step c = More c"

lemma client_idleE:
  assumes "client_idle C c"
  obtains d where "chacha_ok C" "c = with_decryptor c d" "client_step c = More c"
proof -
  obtain d where "cc_decryptor c = Some d" using assms by (auto simp: client_idle_def)
  then have "c = with_decryptor c d" by (cases c) (simp add: with_decryptor_def)
  then show thesis using that assms by (auto simp: client_idle_def)
qed

lemma client_idle_join: "chacha_ok C \<Longrightarrow> client_step c = More c \<Longrightarrow> client_idle C (with_decryptor c d)"
  by (simp add: client_idle_def client_step_decryptor) (simp add: with_decryptor_def)

interpretation client_rx: chunked_decoder "client_recv C" "client_idle C" for C :: "'cc crypto"
proof (unfold_locales, goal_cases)
  case (1 c)
  then obtain d where c: "chacha_ok C" "c = with_decryptor c d" "client_step c = More c" by (rule client_idleE)
  then show ?case using client_dec.pair.decode_nil [of C "(d, c)"] client_recv_started [of C c d "[]"]
    by (simp add: join_client_def)
next
  case (2 c a c1 x)
  then obtain d where c: "chacha_ok C" "c = with_decryptor c d" "client_step c = More c" by (metis client_idleE)
  obtain d1 q where q: "decipher (stream_process C) client_unpack (d, c) a = ((d1, q), Inr x)" "c1 = with_decryptor q d1"
    using 2(2) client_recv_started [of C c d a] c(2)
    by (cases "decipher (stream_process C) client_unpack (d, c) a") (auto simp: join_client_def)
  then show ?case using client_dec.pair.decode_idle [OF _ q(1)] c client_idle_join [of C q d1] by simp
next
  case (3 c a c1 x b)
  then obtain d where c: "chacha_ok C" "c = with_decryptor c d" "client_step c = More c" by (metis client_idleE)
  obtain d1 q where q: "decipher (stream_process C) client_unpack (d, c) a = ((d1, q), Inr x)" "c1 = with_decryptor q d1"
    using 3(2) client_recv_started [of C c d a] c(2)
    by (cases "decipher (stream_process C) client_unpack (d, c) a") (auto simp: join_client_def)
  from client_dec.pair.decode_ok [OF _ q(1), of b] c
  have "agree (map_prod id (map_sum id (\<lambda>y. x @ y)) (decipher (stream_process C) client_unpack (d1, q) b))
      (decipher (stream_process C) client_unpack (d, c) (a @ b))" by simp
  from agree_map_prod [OF this, of join_client] show ?case
    using client_recv_started [of C c d "a @ b"] c(2) by (simp add: q(2) client_recv_started map_prod_swap)
next
  case (4 c a c1 e b)
  then obtain d where c: "chacha_ok C" "c = with_decryptor c d" "client_step c = More c" by (metis client_idleE)
  obtain q where q: "decipher (stream_process C) client_unpack (d, c) a = (q, Inl e)"
    using 4(2) client_recv_started [of C c d a] c(2)
    by (cases "decipher (stream_process C) client_unpack (d, c) a") auto
  then show ?case using client_dec.pair.decode_fail [OF _ q, of b] c client_recv_started [of C c d "a @ b"] by simp
qed

text \<open>Before the server's IV is complete the client only buffers; however the IV and what follows
  are cut, the bytes after it reach the decoder.\<close>

lemma client_recv_chunks:
  assumes C: "chacha_ok C"
  shows "cc_decryptor c = None \<Longrightarrow> client_step c = More c \<Longrightarrow> length (cc_recv_iv_buf c) < iv_len (cc_kind c) \<Longrightarrow>
    cc_recv_iv_buf c @ concat cs = iv @ wire \<Longrightarrow> length iv = iv_len (cc_kind c) \<Longrightarrow>
    new_stream C (cc_kind c) (cc_master_key c) iv = Inr d \<Longrightarrow>
    \<exists>b. agree (feed_result (client_recv C) c cs) (client_recv C (with_decryptor (c\<lparr>cc_recv_iv_buf := b\<rparr>) d) wire)"
proof (induction cs arbitrary: c)
  case Nil
  then show ?case by (metis append_Nil2 concat.simps(1) length_append not_add_less1)
next
  case (Cons a cs)
  let ?n = "iv_len (cc_kind c)" and ?buf = "cc_recv_iv_buf c @ a"
  let ?c = "c\<lparr>cc_recv_iv_buf := ?buf\<rparr>"
  have st: "client_step (c\<lparr>cc_recv_iv_buf := b\<rparr>) = More (c\<lparr>cc_recv_iv_buf := b\<rparr>)" for b
    using Cons.prems(2) by (auto simp: client_step_def Let_def split: if_splits)
  show ?case
  proof (cases "length ?buf < ?n")
    case True
    then have "client_recv C c a = (?c, Inr [])" using Cons.prems(1) by (simp add: client_recv_def Let_def)
    moreover obtain b where "agree (feed_result (client_recv C) ?c cs)
        (client_recv C (with_decryptor (?c\<lparr>cc_recv_iv_buf := b\<rparr>) d) wire)"
      using Cons.IH [of ?c] Cons.prems True st by auto
    moreover have "feed_result (client_recv C) c (a # cs) = feed_result (client_recv C) ?c cs"
      if "client_recv C c a = (?c, Inr [])" using that by (auto split: prod.splits sum.splits)
    ultimately show ?thesis by (auto simp del: feed_result.simps)
  next
    case False
    let ?s = "with_decryptor ?c d"
    have whole: "?buf @ concat cs = iv @ wire" using Cons.prems(4) by simp
    have le: "?n \<le> length ?buf" using False by simp
    have iv: "take ?n ?buf = iv"
      using arg_cong [OF whole, of "take ?n"] le Cons.prems(5) by (simp del: append_assoc)
    have w: "drop ?n ?buf @ concat cs = wire"
      using arg_cong [OF whole, of "drop ?n"] le Cons.prems(5) by (simp del: append_assoc)
    have "client_recv C c a = client_recv C ?s (drop ?n ?buf)"
      using False Cons.prems(1,6) iv by (simp add: client_recv_def Let_def with_decryptor_def)
    then have "feed_result (client_recv C) c (a # cs) = feed_result (client_recv C) ?s (drop ?n ?buf # cs)" by simp
    moreover have "client_idle C ?s" by (rule client_idle_join [OF C st])
    ultimately have "agree (feed_result (client_recv C) c (a # cs)) (client_recv C ?s wire)"
      using client_rx.feed_any_chunks [of C ?s "drop ?n ?buf # cs"] w by simp
    then show ?thesis by blast
  qed
qed

lemma client_recv_wire:
  assumes "crypto_ok C" "cc_decryptor c = Some d" "cc_recv_buf c = []" "list_all wire_ok (map (Pair [1]) bs)"
    and "stream_process C d (wire_data_stream C ukey i (map (Pair [1]) bs)) = (d', wire)"
  shows "client_recv C c wire =
    (c\<lparr>cc_decryptor := Some d', cc_recv_id := cc_recv_id c + word_of_nat (length bs), cc_recv_buf := []\<rparr>, Inr (concat bs))"
proof -
  let ?body = "wire_data_stream C ukey i (map (Pair [1]) bs)"
  let ?c = "c\<lparr>cc_decryptor := Some d', cc_recv_buf := ?body\<rparr>"
  have "stream_process C d wire = (d', ?body)" by (rule sc.process_undo [OF crypto_okD(4) [OF assms(1)] assms(5)])
  then have "client_recv C c wire = client_loop ?c []"
    using assms(2,3) by (simp add: client_recv_def client_cipher_bytes_def client_buffer_def)
  moreover have "cc_recv_buf ?c = ?body" by simp
  from client_loop_wire [OF assms(1,4) this, of "[]"]
  have "client_loop ?c [] = (?c\<lparr>cc_recv_id := cc_recv_id ?c + word_of_nat (length bs), cc_recv_buf := []\<rparr>, Inr ([] @ concat bs))" .
  ultimately show ?thesis by simp
qed

subsection \<open>A conversation\<close>

text \<open>One message of a conversation. \<open>net n wire\<close> is how the network cuts the bytes of the message
  that has \<open>n\<close> messages after it.\<close>

datatype turn = FromClient bytes | FromServer bytes

fun said :: "turn \<Rightarrow> bytes" where
  "said (FromClient m) = m"
| "said (FromServer m) = m"

definition client_say :: "'cc crypto \<Rightarrow> 'cc client_codec \<Rightarrow> bytes \<Rightarrow> 'cc client_codec \<times> bytes" where
  "client_say C c m = (if cc_sent_header c then client_send C c m else client_first_send C c m)"

text \<open>The messages the other side reads, in order, or the first error.\<close>

fun exchange ::
  "'cc crypto \<Rightarrow> (nat \<Rightarrow> bytes \<Rightarrow> bytes list) \<Rightarrow> 'cc client_codec \<Rightarrow> 'cc session \<Rightarrow> turn list \<Rightarrow>
   ('cc client_codec \<times> 'cc session) \<times> bytes list result" where
  "exchange C net c s [] = ((c, s), Inr [])"
| "exchange C net c s (FromClient m # ts) =
     (let (c1, wire) = client_say C c m in
      case feed_result (session_decrypt C) s (net (length ts) wire) of
        (s1, Inl e) \<Rightarrow> ((c1, s1), Inl e)
      | (s1, Inr got) \<Rightarrow> map_prod id (map_sum id (Cons got)) (exchange C net c1 s1 ts))"
| "exchange C net c s (FromServer m # ts) =
     (case session_encrypt C s m of
        (s1, Inl e) \<Rightarrow> ((c, s1), Inl e)
      | (s1, Inr wire) \<Rightarrow>
          (case feed_result (client_recv C) c (net (length ts) wire) of
             (c1, Inl e) \<Rightarrow> ((c1, s1), Inl e)
           | (c1, Inr got) \<Rightarrow> map_prod id (map_sum id (Cons got)) (exchange C net c1 s1 ts)))"

text \<open>What fits a data packet; the server cuts long messages itself.\<close>

fun turn_fits :: "turn \<Rightarrow> bool" where
  "turn_fits (FromClient m) \<longleftrightarrow> 9 + length m < MAX_PACKET"
| "turn_fits (FromServer m) \<longleftrightarrow> True"

text \<open>The two ends between messages: same keys and counters, and each cipher state the image of
  the other side's.\<close>

definition linked :: "'cc crypto \<Rightarrow> u64 option \<Rightarrow> 'cc client_codec \<Rightarrow> 'cc session \<Rightarrow> bool" where
  "linked C who c s \<longleftrightarrow> cc_sent_header c \<and> cc_recv_buf c = [] \<and> ss_decryptor s = Some (cc_encryptor c) \<and>
     (\<exists>p. ss_protocol s = Some p \<and> has_recv_header p \<and> recv_buf p = [] \<and> user_key p = cc_user_key c \<and>
        recv_id p = cc_pack_id c \<and> user_id p = who) \<and>
     (if ss_send_iv_emitted s then cc_decryptor c = Some (ss_encryptor s)
      else cc_decryptor c = None \<and> cc_recv_iv_buf c = [] \<and> length (ss_send_iv s) = iv_len (cc_kind c) \<and>
        new_stream C (cc_kind c) (cc_master_key c) (ss_send_iv s) = Inr (ss_encryptor s))"

lemma agree_feedI: "agree (feed_result f s cs) (t, Inr x) \<Longrightarrow> feed_result f s cs = (t, Inr x)"
  by (auto simp: agree_def prod_eq_iff)

lemma linked_client_turn:
  assumes C: "crypto_ok C" and l: "linked C who c s" and m: "9 + length m < MAX_PACKET"
    and w: "client_say C c m = (c1, wire)" "concat chunks = wire"
  shows "\<exists>s1. feed_result (session_decrypt C) s chunks = (s1, Inr m) \<and> linked C who c1 s1"
proof -
  note cc = crypto_okD(4) [OF C]
  let ?packet = "wire_data_packet C (cc_user_key c) (cc_pack_id c) [1] m"
  obtain p where p: "ss_protocol s = Some p" "has_recv_header p" "recv_buf p = []" "user_key p = cc_user_key c"
    "recv_id p = cc_pack_id c" "user_id p = who" and d: "ss_decryptor s = Some (cc_encryptor c)" and h: "cc_sent_header c"
    using l by (auto simp: linked_def)
  obtain e' where e: "stream_process C (cc_encryptor c) ?packet = (e', wire)"
    and c1: "c1 = c\<lparr>cc_pack_id := cc_pack_id c + 1, cc_encryptor := e'\<rparr>"
    using w(1) h by (auto simp: client_say_def client_send_def client_pack_data_wire [OF m] split: prod.splits)
  let ?p = "p\<lparr>recv_id := recv_id p + 1\<rparr>"
  have ok: "list_all wire_ok [([1], m)]" using m by (simp add: wire_ok_def valid_pre_def)
  have "server_post_decrypt C p ?packet = (?p, Inr m)"
    using data_loop_wire [OF C ok, of "buffer p ?packet" "[]"] p
    by (simp add: server_post_decrypt_def post_decrypt_buffered_def buffer_def)
  then have dec: "decipher (stream_process C) (server_post_decrypt C) (cc_encryptor c, p) wire = ((e', ?p), Inr m)"
    using sc.process_undo [OF cc e] by (simp add: decipher_def)
  have q: "auth_step C p = More p" using p(2,3) by (simp add: auth_step_def data_step_def)
  have i: "session_idle C s" using cc d p(1) q by (simp add: session_idle_def)
  have "session_decrypt C s wire = (with_codec s (e', ?p), Inr m)"
    using decrypt_cipher_bytes_eq [OF cc q, of s "cc_encryptor c" wire] dec
    by (simp add: session_decrypt_started [OF d] with_codec_id [OF d p(1)])
  then have "feed_result (session_decrypt C) s chunks = (with_codec s (e', ?p), Inr m)"
    using sess.feed_any_chunks [OF i, of chunks] w(2) by (intro agree_feedI) simp
  moreover have "linked C who c1 (with_codec s (e', ?p))"
    using l p by (simp add: linked_def c1 with_codec_def)
  ultimately show ?thesis by blast
qed

lemma linked_server_turn:
  assumes C: "crypto_ok C" and l: "linked C who c s"
  shows "\<exists>s1 wire. session_encrypt C s m = (s1, Inr wire) \<and>
    (\<forall>chunks. concat chunks = wire \<longrightarrow>
      (\<exists>c1. feed_result (client_recv C) c chunks = (c1, Inr m) \<and> linked C who c1 s1))"
proof -
  note cc = crypto_okD(4) [OF C]
  obtain p where p: "ss_protocol s = Some p" using l by (auto simp: linked_def)
  let ?bs = "units m"
  let ?body = "wire_data_stream C (user_key p) (pack_id p) (map (Pair [1]) ?bs)"
  let ?p = "p\<lparr>pack_id := pack_id p + word_of_nat (length ?bs)\<rparr>"
  obtain e' w where e: "stream_process C (ss_encryptor s) ?body = (e', w)" by fastforce
  let ?s = "s\<lparr>ss_protocol := Some ?p, ss_encryptor := e', ss_send_iv_emitted := True\<rparr>"
  have enc: "session_encrypt C s m = (?s, Inr ((if ss_send_iv_emitted s then [] else ss_send_iv s) @ w))"
    using e p by (auto simp: session_encrypt_def server_pre_encrypt_wire Let_def)
  have ok: "list_all wire_ok (map (Pair [1]) ?bs)" using wire_ok_units [of m] by simp
  have st: "client_step c = More c" using l by (simp add: client_step_def linked_def)
  have "\<exists>c1. feed_result (client_recv C) c chunks = (c1, Inr m) \<and> linked C who c1 ?s"
    if ch: "concat chunks = (if ss_send_iv_emitted s then [] else ss_send_iv s) @ w" for chunks
  proof (cases "ss_send_iv_emitted s")
    case True
    then have d: "cc_decryptor c = Some (ss_encryptor s)" "cc_recv_buf c = []" using l by (simp_all add: linked_def)
    have "client_idle C c" using cc d(1) st by (simp add: client_idle_def)
    then show ?thesis
      using client_rx.feed_any_chunks [of C c chunks] client_recv_wire [OF C d ok e] ch True l p
      by (auto dest!: agree_feedI simp: linked_def)
  next
    case False
    then have d: "cc_decryptor c = None" "cc_recv_iv_buf c = []" "length (ss_send_iv s) = iv_len (cc_kind c)"
      "new_stream C (cc_kind c) (cc_master_key c) (ss_send_iv s) = Inr (ss_encryptor s)" "cc_recv_buf c = []"
      using l by (simp_all add: linked_def)
    have b: "length (cc_recv_iv_buf c) < iv_len (cc_kind c)" "cc_recv_iv_buf c @ concat chunks = ss_send_iv s @ w"
      using d(2) ch False by simp_all
    obtain b where a: "agree (feed_result (client_recv C) c chunks)
        (client_recv C (with_decryptor (c\<lparr>cc_recv_iv_buf := b\<rparr>) (ss_encryptor s)) w)"
      using client_recv_chunks [OF cc d(1) st b d(3,4)] by blast
    let ?c = "with_decryptor (c\<lparr>cc_recv_iv_buf := b\<rparr>) (ss_encryptor s)"
    have "cc_decryptor ?c = Some (ss_encryptor s)" "cc_recv_buf ?c = []" using d(5) by (simp_all add: with_decryptor_def)
    from agree_feedI [OF a [unfolded client_recv_wire [OF C this ok e]]] show ?thesis
      using l p False by (auto simp: linked_def with_decryptor_def)
  qed
  with enc show ?thesis by blast
qed

lemma linked_exchange:
  assumes C: "crypto_ok C" and net: "\<And>n w. concat (net n w) = w"
  shows "linked C who c s \<Longrightarrow> list_all turn_fits ts \<Longrightarrow>
    \<exists>c1 s1. exchange C net c s ts = ((c1, s1), Inr (map said ts)) \<and> linked C who c1 s1"
proof (induction ts arbitrary: c s)
  case (Cons t ts)
  show ?case
  proof (cases t)
    case (FromClient m)
    obtain c1 wire where w: "client_say C c m = (c1, wire)" by fastforce
    have m: "9 + length m < MAX_PACKET" using Cons.prems(2) FromClient by simp
    obtain s1 where "feed_result (session_decrypt C) s (net (length ts) wire) = (s1, Inr m)" "linked C who c1 s1"
      using linked_client_turn [OF C Cons.prems(1) m w net] by blast
    then show ?thesis using Cons.IH [of c1 s1] Cons.prems(2) FromClient w by auto
  next
    case (FromServer m)
    obtain s1 wire where w: "session_encrypt C s m = (s1, Inr wire)"
      "\<forall>chunks. concat chunks = wire \<longrightarrow> (\<exists>c1. feed_result (client_recv C) c chunks = (c1, Inr m) \<and> linked C who c1 s1)"
      using linked_server_turn [OF C Cons.prems(1), of m] by blast
    then obtain c1 where "feed_result (client_recv C) c (net (length ts) wire) = (c1, Inr m)" "linked C who c1 s1"
      using net by blast
    then show ?thesis using Cons.IH [of c1 s1] Cons.prems(2) FromServer w(1) by auto
  qed
qed simp

subsection \<open>The first message\<close>

definition client_fresh :: "'cc crypto \<Rightarrow> string \<Rightarrow> cipher_kind \<Rightarrow> 'cc client_codec \<Rightarrow> bool" where
  "client_fresh C password k c \<longleftrightarrow> cc_kind c = k \<and> cc_master_key c = derive_master_key C password k \<and>
     length (cc_send_iv c) = iv_len k \<and> new_stream C k (cc_master_key c) (cc_send_iv c) = Inr (cc_encryptor c) \<and>
     \<not> cc_sent_header c \<and> cc_pack_id c = 1 \<and> cc_recv_iv_buf c = [] \<and> cc_decryptor c = None \<and> cc_recv_buf c = []"

lemma client_stream_total:
  "crypto_ok C \<Longrightarrow> \<exists>e. new_stream C k (evp_bytes_to_key C (str_bytes password) (key_len k)) (replicate (iv_len k) 0x42) = Inr e"
  by (rule new_stream_total) simp_all

lemma client_new_kind_ok:
  assumes "crypto_ok C"
  shows "\<exists>c. client_new_kind C password k = Inr c \<and> client_fresh C password k c \<and>
    client_uid c = 0 \<and> cc_user_key c = derive_master_key C password k"
proof -
  obtain e where "new_stream C k (evp_bytes_to_key C (str_bytes password) (key_len k)) (replicate (iv_len k) 0x42) = Inr e"
    using client_stream_total [OF assms] by blast
  then show ?thesis
    by (simp add: client_new_kind_def Let_def) (simp add: client_fresh_def client_uid_def derive_master_key_def)
qed

lemma client_new_multi_kind_ok:
  assumes "crypto_ok C" "1 < uid"
  shows "\<exists>c. client_new_multi_kind C password uid upw k = Inr c \<and> client_fresh C password k c \<and>
    client_uid c = uid \<and> cc_user_key c = derive_user_auth_key C upw"
proof -
  obtain e where "new_stream C k (evp_bytes_to_key C (str_bytes password) (key_len k)) (replicate (iv_len k) 0x42) = Inr e"
    using client_stream_total [OF assms(1)] by blast
  then show ?thesis using assms(2)
    by (simp add: client_new_multi_kind_def with_fixed_uid_def Let_def)
      (simp add: client_fresh_def client_uid_def derive_master_key_def)
qed

lemma first_turn_links:
  assumes C: "crypto_ok C" and s: "session_new C rand password us multi k = Inr s" "length (ss_send_iv s) = iv_len k"
    and c: "client_fresh C password k c"
      "cc_user_key c = selected_key (derive_master_key C password k) (cc_send_iv c) us multi u"
    and u: "u = word_of_nat (unat (client_uid c))"
    and m: "35 + length m < MAX_PACKET" and w: "client_say C c m = (c1, wire)" "concat chunks = wire"
  shows "\<exists>s1. feed_result (session_decrypt C) s chunks = (s1, Inr m) \<and> linked C (selected_user us u) c1 s1"
proof -
  note f = session_new_fields [OF s(1)]
  note cl = c(1) [unfolded client_fresh_def]
  let ?mkey = "derive_master_key C password k"
  let ?packet = "wire_auth_packet C ?mkey (cc_send_iv c) (cc_user_key c) (client_uid c) 0x11 (replicate 12 0) [] m"
  obtain e' body where e: "stream_process C (cc_encryptor c) ?packet = (e', body)" by fastforce
  have c1: "c1 = c\<lparr>cc_sent_header := True, cc_encryptor := e'\<rparr>" "wire = cc_send_iv c @ body"
    using w(1) cl e by (auto simp: client_say_def client_first_send_def client_pack_auth_wire [OF m])
  obtain p where p: "server_post_decrypt C (auth_new C ?mkey (cc_send_iv c) us multi) ?packet = (p, Inr m)"
    "has_recv_header p" "user_id p = selected_user us u" "user_key p = cc_user_key c" "recv_buf p = []" "recv_id p = 1"
    using post_decrypt_wire [OF C, of "replicate 12 0" "[]" m "[]" ?mkey "cc_send_iv c" us multi "client_uid c" "0x11"]
      m c(2) by (auto simp: u)
  have "session_decrypt C s wire = (with_codec (s\<lparr>ss_recv_iv_buf := []\<rparr>) (e', p), Inr m)"
    unfolding c1(2) by (rule session_decrypt_fresh_codec [OF C s(1) _ _ p(1) e]) (use cl in auto)
  then have "feed_result (session_decrypt C) s chunks = (with_codec (s\<lparr>ss_recv_iv_buf := []\<rparr>) (e', p), Inr m)"
    using sess.feed_any_chunks [OF session_new_idle [OF crypto_okD(4) [OF C] s(1)], of chunks] w(2)
    by (intro agree_feedI) simp
  moreover have "linked C (selected_user us u) c1 (with_codec (s\<lparr>ss_recv_iv_buf := []\<rparr>) (e', p))"
    using cl f s(2) p by (simp add: linked_def c1(1) with_codec_def)
  ultimately show ?thesis by blast
qed

lemma conversation_delivered:
  assumes C: "crypto_ok C" and net: "\<And>n w. concat (net n w) = w"
    and s: "session_new C rand password us multi k = Inr s" "length (ss_send_iv s) = iv_len k"
    and c: "client_fresh C password k c"
      "cc_user_key c = selected_key (derive_master_key C password k) (cc_send_iv c) us multi u"
      "u = word_of_nat (unat (client_uid c))"
    and m: "35 + length m < MAX_PACKET" "list_all turn_fits ts"
  shows "\<exists>c' s'. exchange C net c s (FromClient m # ts) = ((c', s'), Inr (m # map said ts)) \<and>
    session_user_id s' = selected_user us u"
proof -
  obtain c1 wire where w: "client_say C c m = (c1, wire)" by fastforce
  obtain s1 where s1: "feed_result (session_decrypt C) s (net (length ts) wire) = (s1, Inr m)"
    "linked C (selected_user us u) c1 s1"
    using first_turn_links [OF C s c m(1) w net] by blast
  obtain c2 s2 where "exchange C net c1 s1 ts = ((c2, s2), Inr (map said ts))" "linked C (selected_user us u) c2 s2"
    using linked_exchange [where net = net, OF C net s1(2) m(2)] by blast
  then show ?thesis using w s1(1) by (auto simp: linked_def session_user_id_def)
qed



end
