(* ===== verification/Rust_HashMap.thy ===== *)
theory Rust_HashMap
  imports Main
begin

text \<open>
  Rust's \<open>HashMap\<close> as the list of its entries in iteration order. The order of a hash map is
  unspecified, so no theorem depends on where an entry stands: lookups go through \<open>map_of\<close>,
  and statements quantify over all lists with distinct keys. \<open>hm_insert\<close> replaces an entry
  or adds one; where a new entry is put stands for an arbitrary choice.
\<close>

type_synonym ('k, 'v) hashmap = "('k \<times> 'v) list"

definition hm_ok :: "('k, 'v) hashmap \<Rightarrow> bool" where
  "hm_ok m \<longleftrightarrow> distinct (map fst m)"

definition hm_get :: "('k, 'v) hashmap \<Rightarrow> 'k \<Rightarrow> 'v option" where
  "hm_get m k = map_of m k"

definition hm_contains :: "('k, 'v) hashmap \<Rightarrow> 'k \<Rightarrow> bool" where
  "hm_contains m k \<longleftrightarrow> k \<in> fst ` set m"

definition hm_remove :: "'k \<Rightarrow> ('k, 'v) hashmap \<Rightarrow> ('k, 'v) hashmap" where
  "hm_remove k m = filter (\<lambda>(k', _). k' \<noteq> k) m"

text \<open>\<open>insert\<close>, and \<open>get_mut\<close> followed by an assignment on a present key.\<close>

fun hm_insert :: "'k \<Rightarrow> 'v \<Rightarrow> ('k, 'v) hashmap \<Rightarrow> ('k, 'v) hashmap" where
  "hm_insert k v [] = [(k, v)]"
| "hm_insert k v ((k', v') # m) = (if k' = k then (k, v) # m else (k', v') # hm_insert k v m)"

definition hm_retain :: "('k \<Rightarrow> 'v \<Rightarrow> bool) \<Rightarrow> ('k, 'v) hashmap \<Rightarrow> ('k, 'v) hashmap" where
  "hm_retain keep m = filter (\<lambda>(k, v). keep k v) m"

definition hm_keys :: "('k, 'v) hashmap \<Rightarrow> 'k list" where
  "hm_keys m = map fst m"

definition hm_values :: "('k, 'v) hashmap \<Rightarrow> 'v list" where
  "hm_values m = map snd m"

named_theorems hm_simps \<open>lookups and well-formedness after each hash-map operation\<close>

lemma hm_get_Nil [simp]: "hm_get [] k = None"
  by (simp add: hm_get_def)

lemma hm_ok_Nil [simp]: "hm_ok []"
  by (simp add: hm_ok_def)

lemma hm_get_insert [hm_simps]: "hm_get (hm_insert k v m) j = (if j = k then Some v else hm_get m j)"
  by (induction m) (auto simp: hm_get_def)

lemma fst_set_hm_insert: "fst ` set (hm_insert k v m) = insert k (fst ` set m)"
  by (induction k v m rule: hm_insert.induct) (simp_all add: insert_commute)

lemma hm_ok_insert [hm_simps]: "hm_ok m \<Longrightarrow> hm_ok (hm_insert k v m)"
  by (induction m) (auto simp: hm_ok_def fst_set_hm_insert image_iff)

lemma length_hm_insert [hm_simps]:
  "length (hm_insert k v m) = (if hm_contains m k then length m else Suc (length m))"
  by (induction k v m rule: hm_insert.induct) (simp_all add: hm_contains_def eq_commute)

lemma hm_ok_filter: "hm_ok m \<Longrightarrow> hm_ok (filter P m)"
  by (simp add: hm_ok_def distinct_map_filter)

lemma hm_get_filter:
  "hm_ok m \<Longrightarrow> hm_get (filter P m) k = (case hm_get m k of None \<Rightarrow> None | Some v \<Rightarrow> if P (k, v) then Some v else None)"
proof (induction m)
  case (Cons x m)
  have "hm_get (filter P m) (fst x) = None" if "hm_ok (x # m)"
    using that by (auto simp: hm_get_def hm_ok_def map_of_eq_None_iff)
  then show ?case using Cons by (cases x) (auto simp: hm_get_def hm_ok_def)
qed (simp add: hm_get_def)

lemma hm_get_retain [hm_simps]:
  "hm_ok m \<Longrightarrow> hm_get (hm_retain keep m) k =
     (case hm_get m k of None \<Rightarrow> None | Some v \<Rightarrow> if keep k v then Some v else None)"
  by (simp add: hm_retain_def hm_get_filter split: option.splits)

lemma hm_get_remove [hm_simps]: "hm_get (hm_remove k m) j = (if j = k then None else hm_get m j)"
  by (induction m) (auto simp: hm_remove_def hm_get_def)

lemma hm_ok_retain [hm_simps]: "hm_ok m \<Longrightarrow> hm_ok (hm_retain keep m)"
  by (simp add: hm_retain_def hm_ok_filter)

lemma hm_ok_remove [hm_simps]: "hm_ok m \<Longrightarrow> hm_ok (hm_remove k m)"
  by (simp add: hm_remove_def hm_ok_filter)

lemma hm_contains_iff: "hm_contains m k \<longleftrightarrow> hm_get m k \<noteq> None"
  by (auto simp: hm_contains_def hm_get_def map_of_eq_None_iff)

lemma hm_get_Some_mem: "hm_get m k = Some v \<Longrightarrow> (k, v) \<in> set m"
  by (simp add: hm_get_def map_of_SomeD)

lemma hm_mem_get: "hm_ok m \<Longrightarrow> (k, v) \<in> set m \<longleftrightarrow> hm_get m k = Some v"
  by (simp add: hm_get_def hm_ok_def)

lemma length_hm_retain_le: "length (hm_retain keep m) \<le> length m"
  by (simp add: hm_retain_def)

lemma hm_remove_absent: "\<not> hm_contains m k \<Longrightarrow> hm_remove k m = m"
  by (force simp: hm_remove_def hm_contains_def filter_id_conv)

lemma length_hm_remove:
  "hm_ok m \<Longrightarrow> length (hm_remove k m) = (if hm_contains m k then length m - 1 else length m)"
proof (induction m)
  case (Cons x m)
  obtain k' v where x: "x = (k', v)" by (cases x)
  show ?case
  proof (cases "k' = k")
    case True
    with Cons.prems x have "\<not> hm_contains m k" by (simp add: hm_ok_def hm_contains_def)
    from hm_remove_absent [OF this] True x show ?thesis by (simp add: hm_remove_def hm_contains_def)
  next
    case False
    have "m \<noteq> []" if "hm_contains m k" using that by (auto simp: hm_contains_def)
    with False Cons x show ?thesis
      by (auto simp: hm_remove_def hm_contains_def hm_ok_def Suc_diff_le Suc_le_eq)
  qed
qed (simp add: hm_remove_def hm_contains_def)

lemma set_hm_keys: "set (hm_keys m) = {k. hm_get m k \<noteq> None}"
  by (force simp: hm_keys_def hm_get_def map_of_eq_None_iff)

lemma hm_keys_eq_iff: "set (hm_keys a) = set (hm_keys b) \<longleftrightarrow> (\<forall>k. hm_get a k = None \<longleftrightarrow> hm_get b k = None)"
  by (simp only: set_hm_keys set_eq_iff mem_Collect_eq simp_thms)

end
