(* ===== verification/Arc_Ledger.thy ===== *)
theory Arc_Ledger
  imports SSR_Prelude Rust_HashMap
begin

text \<open>
  The contract shared by the three ledgers of \<^verbatim>\<open>src/src/traffic.rs\<close>: each keeps one shared
  object (an \<open>Arc\<close>) per user, hands it out to listeners and connections, and drops the users a
  poll no longer names. The identity of an \<open>Arc\<close> is its address, a natural number; what
  matters to the relay tasks is that a user keeps the same object from poll to poll and that two
  users never share one.
\<close>

locale arc_ledger =
  fixes invar :: "'s \<Rightarrow> bool"
    and ptr :: "'s \<Rightarrow> 'u \<Rightarrow> nat option"
    and ensure :: "'u \<Rightarrow> 'x \<Rightarrow> 's \<Rightarrow> 's \<times> nat"
    and drop_stale :: "'u set \<Rightarrow> 's \<Rightarrow> 's"
  assumes invar_ensure: "invar s \<Longrightarrow> invar (fst (ensure u x s))"
    and invar_drop: "invar s \<Longrightarrow> invar (drop_stale live s)"
    and ptr_inj: "invar s \<Longrightarrow> ptr s u = Some p \<Longrightarrow> ptr s v = Some p \<Longrightarrow> u = v"
    and ptr_ensure: "invar s \<Longrightarrow> ptr (fst (ensure u x s)) v =
      (if v = u then Some (snd (ensure u x s)) else ptr s v)"
    and ensure_old: "invar s \<Longrightarrow> ptr s u = Some p \<Longrightarrow> snd (ensure u x s) = p"
    and ptr_drop: "invar s \<Longrightarrow> ptr (drop_stale live s) v = (if v \<in> live then ptr s v else None)"
begin

text \<open>One poll: \<open>ensure_user\<close> for every row, then \<open>remove_stale_users\<close> with their ids.\<close>

definition ensure_all :: "('u \<times> 'x) list \<Rightarrow> 's \<Rightarrow> 's" where
  "ensure_all rows s = fold (\<lambda>(u, x) s. fst (ensure u x s)) rows s"

definition poll :: "('u \<times> 'x) list \<Rightarrow> 's \<Rightarrow> 's" where
  "poll rows s = drop_stale (fst ` set rows) (ensure_all rows s)"

lemma ensure_all_facts:
  "invar s \<Longrightarrow> invar (ensure_all rows s) \<and>
     (\<forall>u. ptr s u \<noteq> None \<longrightarrow> ptr (ensure_all rows s) u = ptr s u) \<and>
     dom (ptr (ensure_all rows s)) = dom (ptr s) \<union> fst ` set rows"
proof (induction rows arbitrary: s)
  case (Cons row rows)
  obtain u x where row: "row = (u, x)" by (cases row)
  let ?s = "fst (ensure u x s)"
  have inv: "invar ?s" using Cons.prems by (rule invar_ensure)
  have keep: "ptr ?s v = ptr s v" if "ptr s v \<noteq> None" for v
    using that ptr_ensure [OF Cons.prems, of u x v] ensure_old [OF Cons.prems, of u _ x] by auto
  have dm: "dom (ptr ?s) = insert u (dom (ptr s))"
    by (auto simp: dom_def ptr_ensure [OF Cons.prems])
  have step: "ensure_all (row # rows) s = ensure_all rows ?s" by (simp add: ensure_all_def row)
  have fst: "fst ` set (row # rows) = insert u (fst ` set rows)" by (simp add: row)
  show ?case unfolding step fst using Cons.IH [OF inv] keep dm by (auto simp del: not_None_eq)
qed (simp add: ensure_all_def)

lemma poll_preserves:
  assumes "P s" and "\<And>u x s. P s \<Longrightarrow> P (fst (ensure u x s))" and "\<And>live s. P s \<Longrightarrow> P (drop_stale live s)"
  shows "P (poll rows s)"
proof -
  have "P (ensure_all rows s)" if "P s" for s using that
    by (induction rows arbitrary: s) (auto simp: ensure_all_def assms(2))
  with assms(1,3) show ?thesis by (simp add: poll_def)
qed

lemma invar_poll: "invar s \<Longrightarrow> invar (poll rows s)"
  by (simp add: poll_def invar_drop ensure_all_facts)

lemma ptr_poll_stable:
  "invar s \<Longrightarrow> ptr s u = Some p \<Longrightarrow> u \<in> fst ` set rows \<Longrightarrow> ptr (poll rows s) u = Some p"
  using ensure_all_facts [of s rows] by (simp add: poll_def ptr_drop)

lemma dom_poll: "invar s \<Longrightarrow> dom (ptr (poll rows s)) = fst ` set rows"
  using ensure_all_facts [of s rows] by (auto simp: poll_def ptr_drop dom_def split: if_splits)

lemma invar_polls: "invar s \<Longrightarrow> invar (fold poll polls s)"
  by (induction polls arbitrary: s) (simp_all add: invar_poll)

lemma ptr_polls_stable:
  "invar s \<Longrightarrow> ptr s u = Some p \<Longrightarrow> \<forall>rows \<in> set polls. u \<in> fst ` set rows \<Longrightarrow>
   ptr (fold poll polls s) u = Some p"
  by (induction polls arbitrary: s) (simp_all add: invar_poll ptr_poll_stable)

end

subsection \<open>A table of addresses\<close>

text \<open>What the implementations share: the table maps users to distinct addresses below the
  number of objects allocated so far.\<close>

definition table_ok :: "nat \<Rightarrow> ('u, nat) hashmap \<Rightarrow> bool" where
  "table_ok n t \<longleftrightarrow> hm_ok t \<and> distinct (hm_values t) \<and> list_all (\<lambda>p. p < n) (hm_values t)"

lemma hm_values_insert_new: "hm_get t u = None \<Longrightarrow> hm_values (hm_insert u p t) = hm_values t @ [p]"
  by (induction u p t rule: hm_insert.induct) (auto simp: hm_get_def hm_values_def split: if_splits)

lemma hm_get_value: "hm_get t u = Some p \<Longrightarrow> p \<in> set (hm_values t)"
  by (force simp: hm_values_def dest: hm_get_Some_mem)

lemma table_ok_bound: "table_ok n t \<Longrightarrow> hm_get t u = Some p \<Longrightarrow> p < n"
  by (auto simp: table_ok_def list_all_iff dest: hm_get_value)

lemma table_ok_inj:
  assumes "table_ok n t" "hm_get t u = Some p" "hm_get t v = Some p"
  shows "u = v"
proof -
  have "inj_on snd (set t)" using assms(1) by (simp add: table_ok_def hm_values_def distinct_map)
  moreover have "(u, p) \<in> set t" "(v, p) \<in> set t" using assms by (simp_all add: hm_get_Some_mem)
  ultimately show ?thesis using inj_onD [of snd "set t" "(u, p)" "(v, p)"] by simp
qed

lemma table_ok_insert: "table_ok n t \<Longrightarrow> hm_get t u = None \<Longrightarrow> table_ok (Suc n) (hm_insert u n t)"
  by (auto simp: table_ok_def hm_simps hm_values_insert_new list_all_iff less_Suc_eq)

lemma table_ok_retain: "table_ok n t \<Longrightarrow> table_ok n (hm_retain keep t)"
  by (auto simp: table_ok_def hm_values_def hm_retain_def list_all_iff distinct_map_filter hm_ok_filter)

lemma table_ok_hm_ok: "table_ok n t \<Longrightarrow> hm_ok t"
  by (simp add: table_ok_def)

lemma table_ok_mono: "table_ok n t \<Longrightarrow> n \<le> m \<Longrightarrow> table_ok m t"
  by (auto simp: table_ok_def list_all_iff)

lemma table_ok_Nil [simp]: "table_ok n []"
  by (simp add: table_ok_def hm_values_def)

end
