(* ===== verification/Traffic.thy ===== *)
theory Traffic
  imports Arc_Ledger
begin

text \<open>
  \<^verbatim>\<open>src/src/traffic.rs\<close>, first part: \<open>UserCounters\<close> and \<open>TrafficLedger\<close>. The counters are
  shared between the ledger and the relay tasks, so they live in a store: a list indexed by the
  address of the \<open>Arc\<close>, which only grows. The lock is always released before the next
  operation, so each method is one step; an atomic \<open>fetch_add\<close> is one step too and needs no
  lock. The counters are \<open>u64\<close> and wrap.
\<close>

record user_counters =
  uc_upload :: u64
  uc_download :: u64

record counter_snapshot =
  cs_upload :: u64
  cs_download :: u64

record traffic_delta =
  td_user_id :: u64
  td_upload :: u64
  td_download :: u64
  td_checkpoint :: counter_snapshot

record traffic_ledger =
  tl_arcs :: "user_counters list"
  tl_counters :: "(u64, nat) hashmap"
  tl_checkpoints :: "(u64, counter_snapshot) hashmap"

definition counters_default :: user_counters where
  "counters_default = \<lparr>uc_upload = 0, uc_download = 0\<rparr>"

definition snapshot_default :: counter_snapshot where
  "snapshot_default = \<lparr>cs_upload = 0, cs_download = 0\<rparr>"

definition traffic_default :: traffic_ledger where
  "traffic_default = \<lparr>tl_arcs = [], tl_counters = [], tl_checkpoints = []\<rparr>"

definition record_upload :: "u64 \<Rightarrow> user_counters \<Rightarrow> user_counters" where
  "record_upload n c = c\<lparr>uc_upload := uc_upload c + n\<rparr>"

definition record_download :: "u64 \<Rightarrow> user_counters \<Rightarrow> user_counters" where
  "record_download n c = c\<lparr>uc_download := uc_download c + n\<rparr>"

definition snapshot :: "user_counters \<Rightarrow> counter_snapshot" where
  "snapshot c = \<lparr>cs_upload = uc_upload c, cs_download = uc_download c\<rparr>"

definition saturating_sub :: "u64 \<Rightarrow> u64 \<Rightarrow> u64" where
  "saturating_sub a b = (if b \<le> a then a - b else 0)"

text \<open>\<open>entry(k).or_default()\<close>.\<close>

definition or_default :: "'k \<Rightarrow> 'v \<Rightarrow> ('k, 'v) hashmap \<Rightarrow> ('k, 'v) hashmap" where
  "or_default k d m = (case hm_get m k of Some _ \<Rightarrow> m | None \<Rightarrow> hm_insert k d m)"

definition traffic_ensure_user :: "u64 \<Rightarrow> traffic_ledger \<Rightarrow> traffic_ledger \<times> nat" where
  "traffic_ensure_user user_id s =
     (case hm_get (tl_counters s) user_id of
        Some counters \<Rightarrow> (s, counters)
      | None \<Rightarrow>
          let counters = length (tl_arcs s)
          in (s\<lparr>tl_checkpoints := or_default user_id snapshot_default (tl_checkpoints s),
                tl_arcs := tl_arcs s @ [counters_default],
                tl_counters := hm_insert user_id counters (tl_counters s)\<rparr>, counters))"

definition traffic_remove_stale_users :: "u64 set \<Rightarrow> traffic_ledger \<Rightarrow> traffic_ledger" where
  "traffic_remove_stale_users live s =
     s\<lparr>tl_counters := hm_retain (\<lambda>user_id _. user_id \<in> live) (tl_counters s),
       tl_checkpoints := hm_retain (\<lambda>user_id _. user_id \<in> live) (tl_checkpoints s)\<rparr>"

definition delta_of :: "traffic_ledger \<Rightarrow> u64 \<times> nat \<Rightarrow> traffic_delta option" where
  "delta_of s = (\<lambda>(user_id, counters).
     let current = snapshot (tl_arcs s ! counters);
         checkpoint = (case hm_get (tl_checkpoints s) user_id of Some c \<Rightarrow> c | None \<Rightarrow> snapshot_default);
         upload = saturating_sub (cs_upload current) (cs_upload checkpoint);
         download = saturating_sub (cs_download current) (cs_download checkpoint)
     in if 0 < upload \<or> 0 < download
        then Some \<lparr>td_user_id = user_id, td_upload = upload, td_download = download, td_checkpoint = current\<rparr>
        else None)"

definition pending_deltas :: "traffic_ledger \<Rightarrow> traffic_delta list" where
  "pending_deltas s = List.map_filter (delta_of s) (tl_counters s)"

fun mark_reported :: "traffic_delta list \<Rightarrow> traffic_ledger \<Rightarrow> traffic_ledger" where
  "mark_reported [] s = s"
| "mark_reported (d # ds) s =
     mark_reported ds
       (if hm_contains (tl_counters s) (td_user_id d)
        then s\<lparr>tl_checkpoints := hm_insert (td_user_id d) (td_checkpoint d) (tl_checkpoints s)\<rparr>
        else s)"

text \<open>A relay task adds to the counter its \<open>Arc\<close> points to.\<close>

datatype direction = Upload | Download

definition count_bytes :: "direction \<Rightarrow> nat \<Rightarrow> u64 \<Rightarrow> traffic_ledger \<Rightarrow> traffic_ledger" where
  "count_bytes dir p n s =
     s\<lparr>tl_arcs := (tl_arcs s)[p := (case dir of Upload \<Rightarrow> record_upload | Download \<Rightarrow> record_download) n (tl_arcs s ! p)]\<rparr>"

subsection \<open>Well-formedness and the ledger contract\<close>

definition traffic_ok :: "traffic_ledger \<Rightarrow> bool" where
  "traffic_ok s \<longleftrightarrow> table_ok (length (tl_arcs s)) (tl_counters s) \<and> hm_ok (tl_checkpoints s) \<and>
     set (hm_keys (tl_checkpoints s)) = set (hm_keys (tl_counters s))"

definition traffic_ptr :: "traffic_ledger \<Rightarrow> u64 \<Rightarrow> nat option" where
  "traffic_ptr s u = hm_get (tl_counters s) u"

lemma hm_ok_or_default [hm_simps]: "hm_ok m \<Longrightarrow> hm_ok (or_default k d m)"
  by (simp add: or_default_def hm_simps split: option.split)

lemma hm_get_or_default [hm_simps]:
  "hm_get (or_default k d m) j = (if j = k \<and> hm_get m k = None then Some d else hm_get m j)"
  by (auto simp: or_default_def hm_simps split: option.split)

lemma traffic_ok_default: "traffic_ok traffic_default"
  by (simp add: traffic_ok_def traffic_default_def hm_keys_eq_iff)

lemma traffic_ok_ensure: "traffic_ok s \<Longrightarrow> traffic_ok (fst (traffic_ensure_user u s))"
  by (auto simp: traffic_ok_def traffic_ensure_user_def Let_def table_ok_insert hm_simps hm_keys_eq_iff
      split: option.split)

lemma traffic_ok_remove:
  assumes "traffic_ok s"
  shows "traffic_ok (traffic_remove_stale_users live s)"
proof -
  have hm: "hm_ok (tl_counters s)" "hm_ok (tl_checkpoints s)"
    using assms by (auto simp: traffic_ok_def table_ok_def)
  have "set (hm_keys (hm_retain (\<lambda>u _. u \<in> live) (tl_checkpoints s))) =
      set (hm_keys (hm_retain (\<lambda>u _. u \<in> live) (tl_counters s)))"
    using assms hm by (simp add: hm_keys_eq_iff traffic_ok_def hm_simps split: option.split)
      (metis not_Some_eq)
  with assms hm show ?thesis
    by (simp add: traffic_ok_def traffic_remove_stale_users_def table_ok_retain hm_simps)
qed

lemma traffic_ok_count: "traffic_ok s \<Longrightarrow> traffic_ok (count_bytes dir p n s)"
  by (simp add: traffic_ok_def count_bytes_def)

interpretation traffic: arc_ledger traffic_ok traffic_ptr "\<lambda>u (_ :: unit). traffic_ensure_user u"
  traffic_remove_stale_users
proof unfold_locales
  fix s u v p and x :: unit and live
  assume ok: "traffic_ok s"
  then have t: "table_ok (length (tl_arcs s)) (tl_counters s)" and hm: "hm_ok (tl_counters s)"
    by (simp_all add: traffic_ok_def table_ok_def)
  show "traffic_ok (fst (traffic_ensure_user u s))" "traffic_ok (traffic_remove_stale_users live s)"
    using ok by (simp_all add: traffic_ok_ensure traffic_ok_remove)
  show "u = v" if "traffic_ptr s u = Some p" "traffic_ptr s v = Some p"
    using that t by (auto simp: traffic_ptr_def intro: table_ok_inj)
  show "traffic_ptr (fst (traffic_ensure_user u s)) v =
      (if v = u then Some (snd (traffic_ensure_user u s)) else traffic_ptr s v)"
    by (simp add: traffic_ptr_def traffic_ensure_user_def Let_def hm_simps split: option.split)
  show "snd (traffic_ensure_user u s) = p" if "traffic_ptr s u = Some p"
    using that by (simp add: traffic_ptr_def traffic_ensure_user_def)
  show "traffic_ptr (traffic_remove_stale_users live s) v = (if v \<in> live then traffic_ptr s v else None)"
    using hm by (simp add: traffic_ptr_def traffic_remove_stale_users_def hm_simps split: option.split)
qed

subsection \<open>The reporting protocol\<close>

text \<open>
  \<open>BackendRuntime::report_traffic\<close> collects the pending deltas, posts them, and marks them
  reported only when the panel accepts; meanwhile relay tasks keep counting. The supervisor is
  sequential, so users are not removed while a report is in flight. The two logs are ghost
  state: every byte counted and every delta the panel accepted, by address of the counter.
\<close>

record reporter =
  rp_ledger :: traffic_ledger
  rp_inflight :: "traffic_delta list option"
  rp_counted :: "(nat \<times> direction \<times> nat) list"
  rp_accepted :: "(nat \<times> traffic_delta) list"

inductive report_step :: "reporter \<Rightarrow> reporter \<Rightarrow> bool" where
  ensure: "report_step w (w\<lparr>rp_ledger := fst (traffic_ensure_user u (rp_ledger w))\<rparr>)"
| count: "p < length (tl_arcs (rp_ledger w)) \<Longrightarrow>
    report_step w (w\<lparr>rp_ledger := count_bytes dir p n (rp_ledger w),
      rp_counted := (p, dir, unat n) # rp_counted w\<rparr>)"
| remove: "rp_inflight w = None \<Longrightarrow>
    report_step w (w\<lparr>rp_ledger := traffic_remove_stale_users live (rp_ledger w)\<rparr>)"
| collect: "rp_inflight w = None \<Longrightarrow> pending_deltas (rp_ledger w) \<noteq> [] \<Longrightarrow>
    report_step w (w\<lparr>rp_inflight := Some (pending_deltas (rp_ledger w))\<rparr>)"
| accepted: "rp_inflight w = Some ds \<Longrightarrow>
    report_step w (w\<lparr>rp_ledger := mark_reported ds (rp_ledger w), rp_inflight := None,
      rp_accepted := map (\<lambda>d. (the (traffic_ptr (rp_ledger w) (td_user_id d)), d)) ds @ rp_accepted w\<rparr>)"
| refused: "rp_inflight w = Some ds \<Longrightarrow> report_step w (w\<lparr>rp_inflight := None\<rparr>)"

inductive_cases report_stepE: "report_step w w'"

definition reporter_init :: reporter where
  "reporter_init = \<lparr>rp_ledger = traffic_default, rp_inflight = None, rp_counted = [], rp_accepted = []\<rparr>"

fun dir_counter :: "direction \<Rightarrow> user_counters \<Rightarrow> u64" where
  "dir_counter Upload c = uc_upload c"
| "dir_counter Download c = uc_download c"

fun dir_snapshot :: "direction \<Rightarrow> counter_snapshot \<Rightarrow> u64" where
  "dir_snapshot Upload c = cs_upload c"
| "dir_snapshot Download c = cs_download c"

fun dir_delta :: "direction \<Rightarrow> traffic_delta \<Rightarrow> u64" where
  "dir_delta Upload d = td_upload d"
| "dir_delta Download d = td_download d"

definition counted :: "direction \<Rightarrow> nat \<Rightarrow> reporter \<Rightarrow> nat" where
  "counted dir p w = sum_list (map (\<lambda>(q, e, n). if q = p \<and> e = dir then n else 0) (rp_counted w))"

definition accepted_bytes :: "direction \<Rightarrow> nat \<Rightarrow> reporter \<Rightarrow> nat" where
  "accepted_bytes dir p w = sum_list (map (\<lambda>(q, d). if q = p then unat (dir_delta dir d) else 0) (rp_accepted w))"

definition pending_bytes :: "direction \<Rightarrow> u64 \<Rightarrow> reporter \<Rightarrow> nat" where
  "pending_bytes dir u w =
     sum_list (map (\<lambda>d. if td_user_id d = u then unat (dir_delta dir d) else 0) (pending_deltas (rp_ledger w)))"

subsubsection \<open>Invariant\<close>

definition inv_counters :: "reporter \<Rightarrow> bool" where
  "inv_counters w \<longleftrightarrow>
     (\<forall>p < length (tl_arcs (rp_ledger w)). \<forall>dir.
        dir_counter dir (tl_arcs (rp_ledger w) ! p) = word_of_nat (counted dir p w)) \<and>
     (\<forall>p \<ge> length (tl_arcs (rp_ledger w)). \<forall>dir. counted dir p w = 0 \<and> accepted_bytes dir p w = 0)"

definition inv_checkpoints :: "reporter \<Rightarrow> bool" where
  "inv_checkpoints w \<longleftrightarrow>
     (\<forall>u p dir. traffic_ptr (rp_ledger w) u = Some p \<longrightarrow> counted dir p w < 2 ^ 64 \<longrightarrow>
        (\<exists>c. hm_get (tl_checkpoints (rp_ledger w)) u = Some c \<and>
          unat (dir_snapshot dir c) = accepted_bytes dir p w \<and> accepted_bytes dir p w \<le> counted dir p w))"

definition delta_fits :: "reporter \<Rightarrow> traffic_delta \<Rightarrow> bool" where
  "delta_fits w d \<longleftrightarrow>
     (\<exists>p. traffic_ptr (rp_ledger w) (td_user_id d) = Some p \<and>
        (\<forall>dir. counted dir p w < 2 ^ 64 \<longrightarrow>
           accepted_bytes dir p w + unat (dir_delta dir d) = unat (dir_snapshot dir (td_checkpoint d)) \<and>
           unat (dir_snapshot dir (td_checkpoint d)) \<le> counted dir p w))"

definition inv_inflight :: "reporter \<Rightarrow> bool" where
  "inv_inflight w \<longleftrightarrow>
     (case rp_inflight w of
        None \<Rightarrow> True
      | Some ds \<Rightarrow> distinct (map td_user_id ds) \<and> (\<forall>d \<in> set ds. delta_fits w d))"

definition reporter_inv :: "reporter \<Rightarrow> bool" where
  "reporter_inv w \<longleftrightarrow> traffic_ok (rp_ledger w) \<and> inv_counters w \<and> inv_checkpoints w \<and> inv_inflight w"

lemma dir_snapshot_snapshot [simp]: "dir_snapshot dir (snapshot c) = dir_counter dir c"
  by (cases dir) (simp_all add: snapshot_def)

lemma delta_of_Some:
  assumes "delta_of s (u, p) = Some d"
  shows "td_user_id d = u" "td_checkpoint d = snapshot (tl_arcs s ! p)"
    "dir_delta dir d = saturating_sub (dir_counter dir (tl_arcs s ! p))
       (dir_snapshot dir (case hm_get (tl_checkpoints s) u of Some c \<Rightarrow> c | None \<Rightarrow> snapshot_default))"
  using assms by (cases dir; auto simp: delta_of_def Let_def snapshot_def split: if_splits)+

lemma delta_of_None:
  "delta_of s (u, p) = None \<Longrightarrow>
    saturating_sub (dir_counter dir (tl_arcs s ! p))
       (dir_snapshot dir (case hm_get (tl_checkpoints s) u of Some c \<Rightarrow> c | None \<Rightarrow> snapshot_default)) = 0"
  by (cases dir) (auto simp: delta_of_def Let_def snapshot_def word_gt_0 split: if_splits)

lemma unat_saturating_sub: "unat (saturating_sub a b) = unat a - unat b"
  by (auto simp: saturating_sub_def unat_sub word_le_nat_alt)

text \<open>What is pending for a live counter is what was counted and not yet accepted.\<close>

lemma live_difference:
  assumes inv: "traffic_ok (rp_ledger w)" "inv_counters w" "inv_checkpoints w"
    and u: "traffic_ptr (rp_ledger w) u = Some p" and small: "counted dir p w < 2 ^ 64"
  shows "unat (dir_counter dir (tl_arcs (rp_ledger w) ! p)) = counted dir p w"
    and "unat (saturating_sub (dir_counter dir (tl_arcs (rp_ledger w) ! p))
       (dir_snapshot dir (case hm_get (tl_checkpoints (rp_ledger w)) u of Some c \<Rightarrow> c | None \<Rightarrow> snapshot_default)))
       + accepted_bytes dir p w = counted dir p w"
proof -
  have p: "p < length (tl_arcs (rp_ledger w))"
    using inv(1) u by (auto simp: traffic_ok_def traffic_ptr_def intro: table_ok_bound)
  then have "dir_counter dir (tl_arcs (rp_ledger w) ! p) = word_of_nat (counted dir p w)"
    using inv(2) by (simp add: inv_counters_def)
  with small show ctr: "unat (dir_counter dir (tl_arcs (rp_ledger w) ! p)) = counted dir p w"
    by (simp add: unat_of_nat)
  from inv(3) u small obtain c where "hm_get (tl_checkpoints (rp_ledger w)) u = Some c"
    "unat (dir_snapshot dir c) = accepted_bytes dir p w" "accepted_bytes dir p w \<le> counted dir p w"
    unfolding inv_checkpoints_def by blast
  then show "unat (saturating_sub (dir_counter dir (tl_arcs (rp_ledger w) ! p))
       (dir_snapshot dir (case hm_get (tl_checkpoints (rp_ledger w)) u of Some c \<Rightarrow> c | None \<Rightarrow> snapshot_default)))
       + accepted_bytes dir p w = counted dir p w"
    by (simp add: unat_saturating_sub ctr)
qed

lemma set_pending: "d \<in> set (pending_deltas s) \<longleftrightarrow> (\<exists>x \<in> set (tl_counters s). delta_of s x = Some d)"
  by (force simp: pending_deltas_def map_filter_def)

lemma pending_users_distinct:
  "hm_ok (tl_counters s) \<Longrightarrow> distinct (map td_user_id (pending_deltas s))"
proof -
  have "distinct (map td_user_id (List.map_filter (delta_of s) t)) \<and>
      set (map td_user_id (List.map_filter (delta_of s) t)) \<subseteq> fst ` set t" if "distinct (map fst t)" for t
    using that
  proof (induction t)
    case (Cons x t)
    then show ?case
      by (cases x; cases "delta_of s x") (auto simp: List.map_filter_simps dest: delta_of_Some(1))
  qed simp
  then show "hm_ok (tl_counters s) \<Longrightarrow> ?thesis" by (simp add: pending_deltas_def hm_ok_def)
qed

text \<open>Counted and accepted bytes depend on the logs only.\<close>

lemma counted_simps [simp]:
  "counted dir p (w\<lparr>rp_ledger := l\<rparr>) = counted dir p w"
  "counted dir p (w\<lparr>rp_inflight := f\<rparr>) = counted dir p w"
  "counted dir p (w\<lparr>rp_accepted := a\<rparr>) = counted dir p w"
  "counted dir p (w\<lparr>rp_counted := (q, e, n) # rp_counted w\<rparr>) =
     (if q = p \<and> e = dir then n else 0) + counted dir p w"
  by (simp_all add: counted_def)

lemma accepted_simps [simp]:
  "accepted_bytes dir p (w\<lparr>rp_ledger := l\<rparr>) = accepted_bytes dir p w"
  "accepted_bytes dir p (w\<lparr>rp_inflight := f\<rparr>) = accepted_bytes dir p w"
  "accepted_bytes dir p (w\<lparr>rp_counted := c\<rparr>) = accepted_bytes dir p w"
  "accepted_bytes dir p (w\<lparr>rp_accepted := a @ rp_accepted w\<rparr>) =
     sum_list (map (\<lambda>(q, d). if q = p then unat (dir_delta dir d) else 0) a) + accepted_bytes dir p w"
  by (simp_all add: accepted_bytes_def)

lemma inv_ensure:
  assumes "reporter_inv w"
  shows "reporter_inv (w\<lparr>rp_ledger := fst (traffic_ensure_user u (rp_ledger w))\<rparr>)"
proof (cases "traffic_ptr (rp_ledger w) u")
  case (Some p)
  then have "fst (traffic_ensure_user u (rp_ledger w)) = rp_ledger w"
    by (simp add: traffic_ensure_user_def traffic_ptr_def)
  with assms show ?thesis by simp
next
  case None
  let ?l = "rp_ledger w" and ?l' = "fst (traffic_ensure_user u (rp_ledger w))"
  let ?w = "w\<lparr>rp_ledger := ?l'\<rparr>"
  note inv = assms [unfolded reporter_inv_def]
  have ck0: "hm_get (tl_checkpoints ?l) u = None"
    using inv None by (simp add: traffic_ok_def hm_keys_eq_iff traffic_ptr_def)
  have l: "tl_arcs ?l' = tl_arcs ?l @ [counters_default]"
    "\<And>v. hm_get (tl_checkpoints ?l') v = (if v = u then Some snapshot_default else hm_get (tl_checkpoints ?l) v)"
    "\<And>v. traffic_ptr ?l' v = (if v = u then Some (length (tl_arcs ?l)) else traffic_ptr ?l v)"
    using None ck0 by (simp_all add: traffic_ensure_user_def traffic_ptr_def Let_def hm_simps)
  have zero: "counted dir (length (tl_arcs ?l)) w = 0" "accepted_bytes dir (length (tl_arcs ?l)) w = 0" for dir
    using inv by (simp_all add: inv_counters_def)
  have "dir_counter dir counters_default = 0" "dir_snapshot dir snapshot_default = 0" for dir
    by (cases dir; simp add: counters_default_def snapshot_default_def)+
  then have "inv_counters ?w" "inv_checkpoints ?w"
    using inv zero by (auto simp: inv_counters_def inv_checkpoints_def l nth_append less_Suc_eq_le Suc_le_eq)
  moreover have "inv_inflight ?w"
    using inv None by (auto simp: inv_inflight_def delta_fits_def l split: option.splits)
  ultimately show ?thesis using inv by (simp add: reporter_inv_def traffic_ok_ensure)
qed

lemma inv_remove:
  assumes "reporter_inv w" and idle: "rp_inflight w = None"
  shows "reporter_inv (w\<lparr>rp_ledger := traffic_remove_stale_users live (rp_ledger w)\<rparr>)"
proof -
  let ?l = "rp_ledger w" and ?l' = "traffic_remove_stale_users live (rp_ledger w)"
  note inv = assms(1) [unfolded reporter_inv_def]
  have arcs: "tl_arcs ?l' = tl_arcs ?l" by (simp add: traffic_remove_stale_users_def)
  have ptr: "traffic_ptr ?l' v = (if v \<in> live then traffic_ptr ?l v else None)" for v
    using inv by (simp add: traffic.ptr_drop)
  have ck: "hm_get (tl_checkpoints ?l') v = (if v \<in> live then hm_get (tl_checkpoints ?l) v else None)" for v
    using inv by (simp add: traffic_remove_stale_users_def traffic_ok_def hm_simps split: option.split)
  show ?thesis
    using inv idle
    by (auto simp: reporter_inv_def traffic_ok_remove inv_counters_def inv_checkpoints_def inv_inflight_def arcs ptr ck
        split: if_splits)
qed

lemma dir_counter_record:
  "dir_counter d ((case dir of Upload \<Rightarrow> record_upload | Download \<Rightarrow> record_download) n c) =
     (if d = dir then dir_counter d c + n else dir_counter d c)"
  by (cases d; cases dir) (simp_all add: record_upload_def record_download_def)

lemma inv_count:
  assumes "reporter_inv w" and p: "p < length (tl_arcs (rp_ledger w))"
  shows "reporter_inv (w\<lparr>rp_ledger := count_bytes dir p n (rp_ledger w),
    rp_counted := (p, dir, unat n) # rp_counted w\<rparr>)" (is "reporter_inv ?w")
proof -
  let ?l' = "count_bytes dir p n (rp_ledger w)"
  note inv = assms(1) [unfolded reporter_inv_def]
  have l: "traffic_ptr ?l' v = traffic_ptr (rp_ledger w) v"
    "tl_checkpoints ?l' = tl_checkpoints (rp_ledger w)"
    "length (tl_arcs ?l') = length (tl_arcs (rp_ledger w))" for v
    by (simp_all add: count_bytes_def traffic_ptr_def)
  have more: "counted e q w \<le> counted e q ?w" for e q by (simp add: counted_def)
  have cnt: "counted e q ?w = (if p = q \<and> dir = e then unat n else 0) + counted e q w" for e q
    by (simp add: counted_def)
  have acc: "accepted_bytes e q ?w = accepted_bytes e q w" for e q by (simp add: accepted_bytes_def)
  have "inv_counters ?w"
    unfolding inv_counters_def cnt acc
    using inv p by (auto simp: inv_counters_def l)
      (auto simp: count_bytes_def nth_list_update dir_counter_record)
  moreover have "inv_checkpoints ?w"
    unfolding inv_checkpoints_def acc
    using inv more by (auto simp: inv_checkpoints_def l) (meson le_less_trans le_trans)
  moreover have "inv_inflight ?w"
    using inv more by (auto simp: inv_inflight_def delta_fits_def l acc split: option.splits)
      (meson le_less_trans le_trans)+
  ultimately show ?thesis using inv by (simp add: reporter_inv_def traffic_ok_count)
qed

lemma pending_fits:
  assumes inv: "reporter_inv w" and d: "d \<in> set (pending_deltas (rp_ledger w))"
  shows "delta_fits w d"
proof -
  note i = inv [unfolded reporter_inv_def]
  from d obtain u p where up: "(u, p) \<in> set (tl_counters (rp_ledger w))" "delta_of (rp_ledger w) (u, p) = Some d"
    by (auto simp: set_pending)
  have ptr: "traffic_ptr (rp_ledger w) u = Some p"
    using up(1) i by (simp add: traffic_ptr_def traffic_ok_def table_ok_def hm_mem_get)
  show ?thesis
    unfolding delta_fits_def delta_of_Some(1,2) [OF up(2)] delta_of_Some(3) [OF up(2)] dir_snapshot_snapshot
  proof (intro exI conjI allI impI)
    show "traffic_ptr (rp_ledger w) u = Some p" by (rule ptr)
    fix dir assume small: "counted dir p w < 2 ^ 64"
    note diff = live_difference [OF _ _ _ ptr small]
    show "accepted_bytes dir p w + unat (saturating_sub (dir_counter dir (tl_arcs (rp_ledger w) ! p))
        (dir_snapshot dir (case hm_get (tl_checkpoints (rp_ledger w)) u of None \<Rightarrow> snapshot_default | Some c \<Rightarrow> c))) =
        unat (dir_counter dir (tl_arcs (rp_ledger w) ! p))"
      using diff i by simp
    show "unat (dir_counter dir (tl_arcs (rp_ledger w) ! p)) \<le> counted dir p w" using diff(1) i by simp
  qed
qed

lemma inv_collect:
  "reporter_inv w \<Longrightarrow> reporter_inv (w\<lparr>rp_inflight := Some (pending_deltas (rp_ledger w))\<rparr>)"
proof -
  assume inv: "reporter_inv w"
  then have "hm_ok (tl_counters (rp_ledger w))" by (simp add: reporter_inv_def traffic_ok_def table_ok_def)
  note distinct = pending_users_distinct [OF this]
  show ?thesis
    using inv distinct pending_fits [OF inv]
    by (simp add: reporter_inv_def inv_counters_def inv_checkpoints_def inv_inflight_def delta_fits_def)
qed

lemma inv_refused: "reporter_inv w \<Longrightarrow> reporter_inv (w\<lparr>rp_inflight := None\<rparr>)"
  by (simp add: reporter_inv_def inv_counters_def inv_checkpoints_def inv_inflight_def)

lemma mark_reported_fields [simp]:
  "tl_arcs (mark_reported ds s) = tl_arcs s" "tl_counters (mark_reported ds s) = tl_counters s"
  by (induction ds s rule: mark_reported.induct) (auto split: if_splits)

lemma mark_reported_other:
  "u \<notin> td_user_id ` set ds \<Longrightarrow> hm_get (tl_checkpoints (mark_reported ds s)) u = hm_get (tl_checkpoints s) u"
  by (induction ds s rule: mark_reported.induct) (auto simp: hm_simps)

lemma mark_reported_user:
  "distinct (map td_user_id ds) \<Longrightarrow> d \<in> set ds \<Longrightarrow> hm_contains (tl_counters s) (td_user_id d) \<Longrightarrow>
   hm_get (tl_checkpoints (mark_reported ds s)) (td_user_id d) = Some (td_checkpoint d)"
  by (induction ds s rule: mark_reported.induct) (auto simp: hm_simps mark_reported_other split: if_splits)

lemma traffic_ok_mark: "traffic_ok s \<Longrightarrow> traffic_ok (mark_reported ds s)"
proof (induction ds s rule: mark_reported.induct)
  case (2 d ds s)
  let ?s = "s\<lparr>tl_checkpoints := hm_insert (td_user_id d) (td_checkpoint d) (tl_checkpoints s)\<rparr>"
  have "traffic_ok ?s" if "hm_contains (tl_counters s) (td_user_id d)"
    using that "2.prems" by (auto simp: traffic_ok_def hm_simps hm_keys_eq_iff hm_contains_iff)
  then show ?case using 2 by simp
qed simp

lemma sum_list_single:
  fixes f :: "'a \<Rightarrow> nat"
  shows "distinct xs \<Longrightarrow> x \<in> set xs \<Longrightarrow> (\<And>y. y \<in> set xs \<Longrightarrow> y \<noteq> x \<Longrightarrow> f y = 0) \<Longrightarrow> sum_list (map f xs) = f x"
  by (simp add: sum_list_distinct_conv_sum_set sum.remove)

lemma sum_list_zero:
  fixes f :: "'a \<Rightarrow> nat"
  shows "(\<And>y. y \<in> set xs \<Longrightarrow> f y = 0) \<Longrightarrow> sum_list (map f xs) = 0"
  by (induction xs) simp_all

text \<open>What an accepted report adds to the bytes accepted for one counter.\<close>

definition report_gain :: "reporter \<Rightarrow> direction \<Rightarrow> nat \<Rightarrow> traffic_delta list \<Rightarrow> nat" where
  "report_gain w dir p ds =
     sum_list (map (\<lambda>d. if the (traffic_ptr (rp_ledger w) (td_user_id d)) = p then unat (dir_delta dir d) else 0) ds)"

lemma report_gain_hit:
  assumes ok: "traffic_ok (rp_ledger w)" and ds: "distinct (map td_user_id ds)"
    and fits: "\<And>d. d \<in> set ds \<Longrightarrow> traffic_ptr (rp_ledger w) (td_user_id d) \<noteq> None"
    and d: "d \<in> set ds" "traffic_ptr (rp_ledger w) (td_user_id d) = Some p"
  shows "report_gain w dir p ds = unat (dir_delta dir d)"
proof -
  have "distinct ds" using ds by (simp add: distinct_map)
  moreover have "the (traffic_ptr (rp_ledger w) (td_user_id e)) \<noteq> p" if "e \<in> set ds" "e \<noteq> d" for e
  proof
    assume "the (traffic_ptr (rp_ledger w) (td_user_id e)) = p"
    with fits [OF that(1)] have "traffic_ptr (rp_ledger w) (td_user_id e) = Some p" by auto
    with traffic.ptr_inj [OF ok this d(2)] ds that d(1) show False by (simp add: distinct_map inj_on_def)
  qed
  ultimately have "report_gain w dir p ds =
      (if the (traffic_ptr (rp_ledger w) (td_user_id d)) = p then unat (dir_delta dir d) else 0)"
    unfolding report_gain_def using d(1) by (intro sum_list_single) auto
  with d(2) show ?thesis by simp
qed

lemma report_gain_miss:
  assumes "\<And>d. d \<in> set ds \<Longrightarrow> traffic_ptr (rp_ledger w) (td_user_id d) \<notin> {None, Some p}"
  shows "report_gain w dir p ds = 0"
  unfolding report_gain_def by (rule sum_list_zero) (use assms in force)

lemma inv_accepted:
  assumes "reporter_inv w" and flight: "rp_inflight w = Some ds"
  shows "reporter_inv (w\<lparr>rp_ledger := mark_reported ds (rp_ledger w), rp_inflight := None,
      rp_accepted := map (\<lambda>d. (the (traffic_ptr (rp_ledger w) (td_user_id d)), d)) ds @ rp_accepted w\<rparr>)"
    (is "reporter_inv ?w")
proof -
  let ?l = "rp_ledger w"
  note inv = assms(1) [unfolded reporter_inv_def]
  have ds: "distinct (map td_user_id ds)" and fits: "\<And>d. d \<in> set ds \<Longrightarrow> delta_fits w d"
    using inv flight by (auto simp: inv_inflight_def)
  then have live: "\<And>d. d \<in> set ds \<Longrightarrow> traffic_ptr ?l (td_user_id d) \<noteq> None" by (auto simp: delta_fits_def)
  have cnt: "counted dir p ?w = counted dir p w" for dir p by (simp add: counted_def)
  have acc: "accepted_bytes dir p ?w = report_gain w dir p ds + accepted_bytes dir p w" for dir p
    by (simp add: accepted_bytes_def report_gain_def comp_def)
  have ptr: "traffic_ptr (mark_reported ds ?l) = traffic_ptr ?l" by (rule ext) (simp add: traffic_ptr_def)
  have bound: "p < length (tl_arcs ?l)" if "traffic_ptr ?l u = Some p" for u p
    using inv that by (auto simp: traffic_ok_def traffic_ptr_def intro: table_ok_bound)
  have "report_gain w dir p ds = 0" if "length (tl_arcs ?l) \<le> p" for dir p
    using bound [of _ p] that live by (intro report_gain_miss) auto
  then have "inv_counters ?w" unfolding inv_counters_def cnt acc using inv by (simp add: inv_counters_def)
  moreover have "\<exists>c. hm_get (tl_checkpoints (mark_reported ds ?l)) u = Some c \<and>
      unat (dir_snapshot dir c) = report_gain w dir p ds + accepted_bytes dir p w \<and>
      report_gain w dir p ds + accepted_bytes dir p w \<le> counted dir p w"
    if u: "traffic_ptr ?l u = Some p" and small: "counted dir p w < 2 ^ 64" for u p dir
  proof (cases "u \<in> td_user_id ` set ds")
    case True
    then obtain d where d: "d \<in> set ds" "u = td_user_id d" by auto
    have "hm_get (tl_checkpoints (mark_reported ds ?l)) u = Some (td_checkpoint d)"
      using mark_reported_user [OF ds d(1)] u d by (simp add: traffic_ptr_def hm_contains_iff)
    moreover have "report_gain w dir p ds = unat (dir_delta dir d)"
      using report_gain_hit [OF _ ds live d(1)] inv u d(2) by simp
    ultimately show ?thesis using fits [OF d(1)] u small d(2) by (auto simp: delta_fits_def)
  next
    case False
    have "traffic_ptr ?l (td_user_id d) \<noteq> Some p" if "d \<in> set ds" for d
      using False that traffic.ptr_inj [of ?l "td_user_id d" p u] inv u by auto
    then have "report_gain w dir p ds = 0" using live by (intro report_gain_miss) simp
    with inv u small False show ?thesis by (auto simp: mark_reported_other inv_checkpoints_def)
  qed
  then have "inv_checkpoints ?w" unfolding inv_checkpoints_def cnt acc by (simp add: ptr)
  ultimately show ?thesis using inv by (simp add: reporter_inv_def traffic_ok_mark inv_inflight_def)
qed

lemma report_step_inv: "report_step w w' \<Longrightarrow> reporter_inv w \<Longrightarrow> reporter_inv w'"
  by (erule report_stepE)
    (simp_all add: inv_ensure inv_count inv_remove inv_collect inv_accepted inv_refused)

lemma reporter_init_inv: "reporter_inv reporter_init"
  using traffic_ok_default
  by (simp add: reporter_inv_def reporter_init_def inv_counters_def inv_checkpoints_def
      inv_inflight_def counted_def accepted_bytes_def traffic_default_def traffic_ptr_def)

lemma reachable_inv: "report_step\<^sup>*\<^sup>* reporter_init w \<Longrightarrow> reporter_inv w"
  by (induction rule: rtranclp_induct) (auto intro: reporter_init_inv report_step_inv)

subsection \<open>Properties\<close>

lemma pending_bytes_live:
  assumes ok: "traffic_ok (rp_ledger w)" and u: "traffic_ptr (rp_ledger w) u = Some p"
  shows "pending_bytes dir u w = unat (saturating_sub (dir_counter dir (tl_arcs (rp_ledger w) ! p))
     (dir_snapshot dir (case hm_get (tl_checkpoints (rp_ledger w)) u of Some c \<Rightarrow> c | None \<Rightarrow> snapshot_default)))"
proof -
  let ?l = "rp_ledger w"
  have hm: "hm_ok (tl_counters ?l)" using ok by (simp add: traffic_ok_def table_ok_def)
  have mem: "(v, q) \<in> set (tl_counters ?l) \<longleftrightarrow> traffic_ptr ?l v = Some q" for v q
    using hm by (simp add: hm_mem_get traffic_ptr_def)
  have user: "delta_of ?l (u, p) = Some d" if "d \<in> set (pending_deltas ?l)" "td_user_id d = u" for d
  proof -
    from that(1) obtain v q where v: "traffic_ptr ?l v = Some q" "delta_of ?l (v, q) = Some d"
      using mem by (auto simp: set_pending)
    with delta_of_Some(1) [OF v(2)] that(2) u show ?thesis by simp
  qed
  note dist = pending_users_distinct [OF hm]
  show ?thesis
  proof (cases "delta_of ?l (u, p)")
    case None
    then have "td_user_id d \<noteq> u" if "d \<in> set (pending_deltas ?l)" for d using user that by auto
    then have "pending_bytes dir u w = 0" unfolding pending_bytes_def by (intro sum_list_zero) simp
    with delta_of_None [OF None] show ?thesis by simp
  next
    case (Some d)
    then have d: "d \<in> set (pending_deltas ?l)" "td_user_id d = u"
      using u mem by (auto simp: set_pending dest: delta_of_Some(1))
    have "pending_bytes dir u w = (if td_user_id d = u then unat (dir_delta dir d) else 0)"
      unfolding pending_bytes_def using dist d
      by (intro sum_list_single) (auto simp: distinct_map inj_on_def)
    with d(2) delta_of_Some(3) [OF Some] show ?thesis by simp
  qed
qed

text \<open>C17: traffic is accounted exactly once. In every reachable state of the reporting protocol, for
  every user of the ledger and each direction, the bytes the panel has accepted plus the bytes the
  next report would carry are the bytes the relay has counted, whatever was counted while reports
  were in flight and however many of them failed. (Counters are 64 bits wide.)\<close>

theorem traffic_exactly_once:
  assumes "report_step\<^sup>*\<^sup>* reporter_init w" and "traffic_ptr (rp_ledger w) u = Some p"
    and "counted dir p w < 2 ^ 64"
  shows "accepted_bytes dir p w + pending_bytes dir u w = counted dir p w"
  using reachable_inv [OF assms(1)] live_difference(2) [OF _ _ _ assms(2,3)] assms(2)
  by (simp add: reporter_inv_def pending_bytes_live)

text \<open>A run: user 7 uploads 100 bytes, a report is collected, 50 more bytes are counted, the panel
  accepts the report.\<close>

definition run_ledger :: traffic_ledger where
  "run_ledger = \<lparr>tl_arcs = [\<lparr>uc_upload = 100, uc_download = 0\<rparr>], tl_counters = [(7, 0)],
     tl_checkpoints = [(7, snapshot_default)]\<rparr>"

definition run_delta :: traffic_delta where
  "run_delta = \<lparr>td_user_id = 7, td_upload = 100, td_download = 0, td_checkpoint = \<lparr>cs_upload = 100, cs_download = 0\<rparr>\<rparr>"

definition run_end :: reporter where
  "run_end = \<lparr>rp_ledger = \<lparr>tl_arcs = [\<lparr>uc_upload = 150, uc_download = 0\<rparr>], tl_counters = [(7, 0)],
     tl_checkpoints = [(7, \<lparr>cs_upload = 100, cs_download = 0\<rparr>)]\<rparr>, rp_inflight = None,
     rp_counted = [(0, Upload, 50), (0, Upload, 100)], rp_accepted = [(0, run_delta)]\<rparr>"

lemma run_reachable: "report_step\<^sup>*\<^sup>* reporter_init run_end"
proof -
  let ?w1 = "reporter_init\<lparr>rp_ledger := fst (traffic_ensure_user 7 traffic_default)\<rparr>"
  let ?w2 = "reporter_init\<lparr>rp_ledger := run_ledger, rp_counted := [(0, Upload, 100)]\<rparr>"
  let ?w3 = "?w2\<lparr>rp_inflight := Some [run_delta]\<rparr>"
  let ?w4 = "?w3\<lparr>rp_ledger := count_bytes Upload 0 50 run_ledger, rp_counted := [(0, Upload, 50), (0, Upload, 100)]\<rparr>"
  have "report_step reporter_init ?w1"
    using ensure [of reporter_init 7] by (simp add: reporter_init_def)
  moreover have "report_step ?w1 ?w2"
    using count [of 0 ?w1 Upload 100]
    by (simp add: reporter_init_def traffic_ensure_user_def traffic_default_def count_bytes_def record_upload_def
        counters_default_def run_ledger_def or_default_def)
  moreover have pend: "pending_deltas run_ledger = [run_delta]"
    by (simp add: pending_deltas_def List.map_filter_simps delta_of_def run_ledger_def run_delta_def
        saturating_sub_def snapshot_def snapshot_default_def hm_get_def)
  have "report_step ?w2 ?w3"
    using collect [of ?w2] by (simp add: pend reporter_init_def)
  moreover have "report_step ?w3 ?w4"
    using count [of 0 ?w3 Upload 50] by (simp add: run_ledger_def reporter_init_def)
  moreover have "report_step ?w4 run_end"
    using accepted [of ?w4 "[run_delta]"]
    by (simp add: run_ledger_def run_delta_def run_end_def count_bytes_def record_upload_def hm_contains_def
        reporter_init_def traffic_ptr_def hm_get_def)
  ultimately show ?thesis by (meson converse_rtranclp_into_rtranclp rtranclp.rtrancl_refl)
qed

theorem traffic_exactly_once_witness:
  "accepted_bytes Upload 0 run_end = 100 \<and> pending_bytes Upload 7 run_end = 50"
proof -
  have "counted Upload 0 run_end = 150" "accepted_bytes Upload 0 run_end = 100"
    by (simp_all add: counted_def accepted_bytes_def run_end_def run_delta_def)
  moreover have "traffic_ptr (rp_ledger run_end) 7 = Some 0"
    by (simp add: traffic_ptr_def run_end_def hm_get_def)
  ultimately show ?thesis using traffic_exactly_once [OF run_reachable, of 7 0 Upload] by simp
qed

text \<open>A counter no user of the ledger points to stays unreachable, and no report mentions it.\<close>

definition orphan :: "nat \<Rightarrow> reporter \<Rightarrow> bool" where
  "orphan p w \<longleftrightarrow> reporter_inv w \<and> p < length (tl_arcs (rp_ledger w)) \<and> (\<forall>u. traffic_ptr (rp_ledger w) u \<noteq> Some p)"

lemma orphan_step:
  assumes "report_step w w'" and orphan: "orphan p w"
  shows "orphan p w' \<and> accepted_bytes dir p w' = accepted_bytes dir p w"
proof -
  note o = orphan [unfolded orphan_def]
  then have inv: "reporter_inv w'" using assms(1) report_step_inv by blast
  have ok: "traffic_ok (rp_ledger w)" using o by (simp add: reporter_inv_def)
  from assms(1) inv show ?thesis
  proof (cases rule: report_step.cases)
    case (ensure u)
    have "traffic_ptr (fst (traffic_ensure_user u (rp_ledger w))) v \<noteq> Some p" for v
      using o by (auto simp: traffic_ensure_user_def traffic_ptr_def Let_def hm_simps split: option.splits)
    moreover have "length (tl_arcs (rp_ledger w)) \<le> length (tl_arcs (fst (traffic_ensure_user u (rp_ledger w))))"
      by (simp add: traffic_ensure_user_def Let_def split: option.split)
    ultimately show ?thesis using ensure inv o by (simp add: orphan_def)
  next
    case (count q e n)
    then show ?thesis using inv o by (simp add: orphan_def count_bytes_def traffic_ptr_def accepted_bytes_def)
  next
    case (remove live)
    then show ?thesis using inv o traffic.ptr_drop [OF ok, of live]
      by (simp add: orphan_def traffic_remove_stale_users_def [of _ "rp_ledger w"])
  next
    case (accepted ds)
    have "report_gain w dir p ds = 0"
      using o accepted(2) by (intro report_gain_miss) (auto simp: reporter_inv_def inv_inflight_def delta_fits_def)
    then have "accepted_bytes dir p w' = accepted_bytes dir p w"
      by (simp add: accepted(1) accepted_bytes_def report_gain_def comp_def)
    then show ?thesis using inv o accepted by (simp add: orphan_def traffic_ptr_def)
  qed (use inv o in \<open>simp_all add: orphan_def\<close>)
qed

text \<open>C36: bytes counted for a user and not yet reported when the user leaves the panel's list are
  never reported: after \<open>remove_stale_users\<close> the accepted bytes of that counter stay what they
  were, although relays that still hold the counter keep adding to it.\<close>

theorem removed_user_traffic_unreported:
  assumes reach: "report_step\<^sup>*\<^sup>* reporter_init w" and idle: "rp_inflight w = None"
    and u: "traffic_ptr (rp_ledger w) u = Some p" and gone: "u \<notin> live"
    and later: "report_step\<^sup>*\<^sup>* (w\<lparr>rp_ledger := traffic_remove_stale_users live (rp_ledger w)\<rparr>) w'"
  shows "accepted_bytes dir p w' = accepted_bytes dir p w"
proof -
  let ?w = "w\<lparr>rp_ledger := traffic_remove_stale_users live (rp_ledger w)\<rparr>"
  have inv: "reporter_inv w" by (rule reachable_inv [OF reach])
  then have ok: "traffic_ok (rp_ledger w)" by (simp add: reporter_inv_def)
  have "traffic_ptr (traffic_remove_stale_users live (rp_ledger w)) v \<noteq> Some p" for v
    using traffic.ptr_inj [OF ok u, of v] gone by (auto simp: traffic.ptr_drop [OF ok])
  moreover have "p < length (tl_arcs (rp_ledger w))"
    using ok u by (auto simp: traffic_ok_def traffic_ptr_def intro: table_ok_bound)
  ultimately have "orphan p ?w"
    using inv_remove [OF inv idle, of live] by (simp add: orphan_def) (simp add: traffic_remove_stale_users_def)
  from later this have "orphan p w' \<and> accepted_bytes dir p w' = accepted_bytes dir p ?w"
    by (induction rule: rtranclp_induct) (auto dest: orphan_step [where dir = dir])
  then show ?thesis by simp
qed

theorem removed_user_traffic_unreported_witness:
  "accepted_bytes Upload 0 (run_end\<lparr>rp_ledger := count_bytes Upload 0 25 (traffic_remove_stale_users {} (rp_ledger run_end)),
     rp_counted := (0, Upload, 25) # rp_counted run_end\<rparr>) = accepted_bytes Upload 0 run_end"
proof (rule removed_user_traffic_unreported [OF run_reachable])
  show "rp_inflight run_end = None" "traffic_ptr (rp_ledger run_end) 7 = Some 0" "(7 :: u64) \<notin> {}"
    by (simp_all add: traffic_ptr_def run_end_def hm_get_def)
  show "report_step\<^sup>*\<^sup>* (run_end\<lparr>rp_ledger := traffic_remove_stale_users {} (rp_ledger run_end)\<rparr>)
     (run_end\<lparr>rp_ledger := count_bytes Upload 0 25 (traffic_remove_stale_users {} (rp_ledger run_end)),
     rp_counted := (0, Upload, 25) # rp_counted run_end\<rparr>)"
    using count [of 0 "run_end\<lparr>rp_ledger := traffic_remove_stale_users {} (rp_ledger run_end)\<rparr>" Upload 25]
    by (intro r_into_rtranclp) (simp add: traffic_remove_stale_users_def run_end_def)
qed

end
