(* ===== verification/Panel_Client.thy ===== *)
theory Panel_Client
  imports Panel Traffic Rust_Str
begin

text \<open>
  \<^verbatim>\<open>src/src/panel.rs\<close>: \<open>PanelClient\<close> and the response envelope. The HTTP client and the JSON
  library are crates; a \<open>web\<close> holds what the model needs of them at one moment: the answer to
  each request (\<open>Inl\<close> for transport, status or body errors), the decoders derived for the row
  types and the encoders of the request bodies.
\<close>

record 'j api_response =
  ar_ret :: int
  ar_msg :: "string option"
  ar_data :: "'j option"

type_synonym query = "(string \<times> string) list"

record 'j web =
  w_get :: "string \<Rightarrow> query \<Rightarrow> 'j result"
  w_post :: "string \<Rightarrow> query \<Rightarrow> 'j \<Rightarrow> 'j result"
  w_envelope :: "'j \<Rightarrow> 'j api_response option"
  w_is_null :: "'j \<Rightarrow> bool"
  w_users :: "'j \<Rightarrow> panel_user list option"
  w_rules :: "'j \<Rightarrow> detect_rule list option"
  w_traffic_body :: "(u64 \<times> u64 \<times> u64) list \<Rightarrow> 'j"
  w_alive_body :: "alive_ip_report list \<Rightarrow> 'j"
  w_detect_body :: "detect_log_report list \<Rightarrow> 'j"
  w_node_body :: "string \<Rightarrow> nat \<Rightarrow> 'j"

definition unwrap_ret :: "'j web \<Rightarrow> ('j \<Rightarrow> 'a option) \<Rightarrow> string \<Rightarrow> 'j \<Rightarrow> 'a option result" where
  "unwrap_ret w from_value path value =
     (case w_envelope w value of
        None \<Rightarrow> Inl (PanelRequest path)
      | Some response \<Rightarrow>
          if ar_ret response \<noteq> 1
          then Inl (PanelRet path (ar_ret response) (unwrap_or (ar_msg response) []))
          else (case ar_data response of
                  Some value \<Rightarrow>
                    if \<not> w_is_null w value
                    then (case from_value value of
                            Some parsed \<Rightarrow> Inr (Some parsed)
                          | None \<Rightarrow> Inl (PanelRequest path))
                    else Inr None
                | None \<Rightarrow> Inr None))"

definition get_api_optional :: "'j web \<Rightarrow> ('j \<Rightarrow> 'a option) \<Rightarrow> string \<Rightarrow> query \<Rightarrow> 'a option result" where
  "get_api_optional w from_value path query =
     (case w_get w path query of Inl e \<Rightarrow> Inl e | Inr value \<Rightarrow> unwrap_ret w from_value path value)"

definition post_ack :: "'j web \<Rightarrow> string \<Rightarrow> query \<Rightarrow> 'j \<Rightarrow> unit result" where
  "post_ack w path query body =
     (case w_post w path query body of
        Inl e \<Rightarrow> Inl e
      | Inr value \<Rightarrow> (case unwrap_ret w Some path value of Inl e \<Rightarrow> Inl e | Inr _ \<Rightarrow> Inr ()))"

definition node_query :: "u64 \<Rightarrow> query" where
  "node_query node_id = [(''node_id'', show_dec (unat node_id))]"

definition panel_ping :: "'j web \<Rightarrow> unit result" where
  "panel_ping w =
     (case w_get w ''func/ping'' [] of
        Inl e \<Rightarrow> Inl e
      | Inr value \<Rightarrow> (case unwrap_ret w Some ''func/ping'' value of Inl e \<Rightarrow> Inl e | Inr _ \<Rightarrow> Inr ()))"

definition panel_report_node_info :: "'j web \<Rightarrow> u64 \<Rightarrow> string \<Rightarrow> nat \<Rightarrow> unit result" where
  "panel_report_node_info w node_id load uptime =
     post_ack w (''nodes/'' @ show_dec (unat node_id) @ ''/info'') [] (w_node_body w load uptime)"

definition panel_users :: "'j web \<Rightarrow> u64 \<Rightarrow> panel_user list result" where
  "panel_users w node_id =
     (case get_api_optional w (w_users w) ''users'' (node_query node_id) of
        Inl e \<Rightarrow> Inl e
      | Inr users \<Rightarrow> Inr (filter is_enabled (unwrap_or users [])))"

definition panel_report_traffic :: "'j web \<Rightarrow> u64 \<Rightarrow> traffic_delta list \<Rightarrow> unit result" where
  "panel_report_traffic w node_id deltas =
     (if deltas = [] then Inr ()
      else post_ack w ''users/traffic'' (node_query node_id)
             (w_traffic_body w (map (\<lambda>d. (td_user_id d, td_upload d, td_download d)) deltas)))"

definition panel_report_alive_ips :: "'j web \<Rightarrow> u64 \<Rightarrow> alive_ip_report list \<Rightarrow> unit result" where
  "panel_report_alive_ips w node_id items =
     (if items = [] then Inr ()
      else post_ack w ''users/aliveip'' (node_query node_id) (w_alive_body w items))"

definition panel_report_detect_logs :: "'j web \<Rightarrow> u64 \<Rightarrow> detect_log_report list \<Rightarrow> unit result" where
  "panel_report_detect_logs w node_id items =
     (if items = [] then Inr ()
      else post_ack w ''users/detectlog'' (node_query node_id) (w_detect_body w items))"

definition panel_detect_rules :: "'j web \<Rightarrow> detect_rule list result" where
  "panel_detect_rules w =
     (case get_api_optional w (w_rules w) ''func/detect_rules'' [] of
        Inl e \<Rightarrow> Inl e
      | Inr rules \<Rightarrow> Inr (unwrap_or rules []))"

subsection \<open>Acknowledgements\<close>

text \<open>A report counts as delivered only when the request succeeds and the panel answers with
  \<open>ret = 1\<close>.\<close>

lemma post_ack_ok_iff:
  "post_ack w path q body = Inr () \<longleftrightarrow>
     (\<exists>value response. w_post w path q body = Inr value \<and> w_envelope w value = Some response \<and> ar_ret response = 1)"
  by (auto simp: post_ack_def unwrap_ret_def split: sum.splits option.splits if_splits)

lemma panel_users_enabled: "panel_users w n = Inr us \<Longrightarrow> list_all is_enabled us"
  by (auto simp: panel_users_def list_all_iff split: sum.splits)

end
