(* ===== verification/Conn_Ledger.thy ===== *)
theory Conn_Ledger
  imports Arc_Ledger
begin

text \<open>
  \<^verbatim>\<open>src/src/traffic.rs\<close>, second part: \<open>UserIpSet\<close>, \<open>ConnLedger\<close> and the RAII guard
  \<open>ConnGuard\<close>. The IP sets are shared through \<open>Arc\<close>s, so they live in a store indexed by
  address. A live guard is a value; dropping it runs \<open>drop\<close>. \<open>usize\<close> reference counts are
  \<open>nat\<close>: each live connection holds one, so they stay far below the width of the type.
\<close>

type_synonym user_ip_set = "(string, nat) hashmap"

record conn_ledger =
  cl_arcs :: "user_ip_set list"
  cl_state :: "(u64, nat) hashmap"

record conn_guard =
  cg_set :: nat
  cg_ip :: string

definition conn_default :: conn_ledger where
  "conn_default = \<lparr>cl_arcs = [], cl_state = []\<rparr>"

definition conn_ensure_user :: "u64 \<Rightarrow> conn_ledger \<Rightarrow> conn_ledger \<times> nat" where
  "conn_ensure_user user_id s =
     (case hm_get (cl_state s) user_id of
        Some p \<Rightarrow> (s, p)
      | None \<Rightarrow>
          let p = length (cl_arcs s)
          in (s\<lparr>cl_arcs := cl_arcs s @ [[]], cl_state := hm_insert user_id p (cl_state s)\<rparr>, p))"

definition conn_remove_stale_users :: "u64 set \<Rightarrow> conn_ledger \<Rightarrow> conn_ledger" where
  "conn_remove_stale_users live s = s\<lparr>cl_state := hm_retain (\<lambda>user_id _. user_id \<in> live) (cl_state s)\<rparr>"

text \<open>The bodies of \<open>acquire\<close> and \<open>drop\<close> on the locked map.\<close>

definition ip_acquire :: "string \<Rightarrow> u32 \<Rightarrow> user_ip_set \<Rightarrow> user_ip_set option" where
  "ip_acquire ip limit ips =
     (case hm_get ips ip of
        Some cnt \<Rightarrow> Some (hm_insert ip (cnt + 1) ips)
      | None \<Rightarrow>
          if 0 < limit \<and> unat limit \<le> length ips then None
          else Some (hm_insert ip 1 ips))"

definition ip_release :: "string \<Rightarrow> user_ip_set \<Rightarrow> user_ip_set" where
  "ip_release ip ips =
     (case hm_get ips ip of
        None \<Rightarrow> ips
      | Some cnt \<Rightarrow>
          let ips = hm_insert ip (cnt - 1) ips
          in if cnt - 1 = 0 then hm_remove ip ips else ips)"

definition guard_acquire :: "nat \<Rightarrow> string \<Rightarrow> u32 \<Rightarrow> conn_ledger \<Rightarrow> conn_ledger \<times> conn_guard option" where
  "guard_acquire p ip limit s =
     (case ip_acquire ip limit (cl_arcs s ! p) of
        None \<Rightarrow> (s, None)
      | Some ips \<Rightarrow> (s\<lparr>cl_arcs := (cl_arcs s)[p := ips]\<rparr>, Some \<lparr>cg_set = p, cg_ip = ip\<rparr>))"

definition guard_drop :: "conn_guard \<Rightarrow> conn_ledger \<Rightarrow> conn_ledger" where
  "guard_drop g s = s\<lparr>cl_arcs := (cl_arcs s)[cg_set g := ip_release (cg_ip g) (cl_arcs s ! cg_set g)]\<rparr>"

subsection \<open>The ledger contract\<close>

definition conn_ok :: "conn_ledger \<Rightarrow> bool" where
  "conn_ok s \<longleftrightarrow> table_ok (length (cl_arcs s)) (cl_state s)"

definition conn_ptr :: "conn_ledger \<Rightarrow> u64 \<Rightarrow> nat option" where
  "conn_ptr s u = hm_get (cl_state s) u"

lemma conn_ok_default: "conn_ok conn_default"
  by (simp add: conn_ok_def conn_default_def)

interpretation conns: arc_ledger conn_ok conn_ptr "\<lambda>u (_ :: unit). conn_ensure_user u" conn_remove_stale_users
proof unfold_locales
  fix s u v p and x :: unit and live
  assume ok: "conn_ok s"
  then have hm: "hm_ok (cl_state s)" by (simp add: conn_ok_def table_ok_def)
  show "conn_ok (fst (conn_ensure_user u s))"
    using ok by (auto simp: conn_ok_def conn_ensure_user_def Let_def table_ok_insert split: option.split)
  show "conn_ok (conn_remove_stale_users live s)"
    using ok by (simp add: conn_ok_def conn_remove_stale_users_def table_ok_retain)
  show "u = v" if "conn_ptr s u = Some p" "conn_ptr s v = Some p"
    using that ok by (auto simp: conn_ptr_def conn_ok_def intro: table_ok_inj)
  show "conn_ptr (fst (conn_ensure_user u s)) v = (if v = u then Some (snd (conn_ensure_user u s)) else conn_ptr s v)"
    by (simp add: conn_ptr_def conn_ensure_user_def Let_def hm_simps split: option.split)
  show "snd (conn_ensure_user u s) = p" if "conn_ptr s u = Some p"
    using that by (simp add: conn_ptr_def conn_ensure_user_def)
  show "conn_ptr (conn_remove_stale_users live s) v = (if v \<in> live then conn_ptr s v else None)"
    using hm by (simp add: conn_ptr_def conn_remove_stale_users_def hm_simps split: option.split)
qed

subsection \<open>Connections coming and going\<close>

text \<open>
  A world is the ledger and the guards that connections hold. \<open>allowed\<close> says which limits are in
  force for a set: the limit is read from the policy at each connection and may change.
\<close>

record conn_world =
  cw_ledger :: conn_ledger
  cw_guards :: "conn_guard list"

inductive conn_step :: "(nat \<Rightarrow> u32 \<Rightarrow> bool) \<Rightarrow> conn_world \<Rightarrow> conn_world \<Rightarrow> bool" for allowed where
  ensure: "conn_step allowed w (w\<lparr>cw_ledger := fst (conn_ensure_user u (cw_ledger w))\<rparr>)"
| remove: "conn_step allowed w (w\<lparr>cw_ledger := conn_remove_stale_users live (cw_ledger w)\<rparr>)"
| admit: "p < length (cl_arcs (cw_ledger w)) \<Longrightarrow> allowed p limit \<Longrightarrow>
    guard_acquire p ip limit (cw_ledger w) = (s, Some g) \<Longrightarrow>
    conn_step allowed w (w\<lparr>cw_ledger := s, cw_guards := g # cw_guards w\<rparr>)"
| close: "cw_guards w = gs @ g # hs \<Longrightarrow>
    conn_step allowed w (w\<lparr>cw_ledger := guard_drop g (cw_ledger w), cw_guards := gs @ hs\<rparr>)"

inductive_cases conn_stepE: "conn_step allowed w w'"

definition conn_init :: conn_world where
  "conn_init = \<lparr>cw_ledger = conn_default, cw_guards = []\<rparr>"

text \<open>Live connections of one address in one set.\<close>

definition live_conns :: "nat \<Rightarrow> string \<Rightarrow> conn_world \<Rightarrow> nat" where
  "live_conns p ip w = length (filter (\<lambda>g. cg_set g = p \<and> cg_ip g = ip) (cw_guards w))"

definition counts_ok :: "(string \<Rightarrow> nat) \<Rightarrow> user_ip_set \<Rightarrow> bool" where
  "counts_ok n ips \<longleftrightarrow> hm_ok ips \<and> (\<forall>ip. hm_get ips ip = (if n ip = 0 then None else Some (n ip)))"

definition conn_inv :: "conn_world \<Rightarrow> bool" where
  "conn_inv w \<longleftrightarrow>
     (\<forall>p < length (cl_arcs (cw_ledger w)). counts_ok (\<lambda>ip. live_conns p ip w) (cl_arcs (cw_ledger w) ! p)) \<and>
     (\<forall>g \<in> set (cw_guards w). cg_set g < length (cl_arcs (cw_ledger w)))"

lemma counts_ok_acquire:
  "counts_ok n ips \<Longrightarrow> ip_acquire ip limit ips = Some ips' \<Longrightarrow> counts_ok (n(ip := Suc (n ip))) ips'"
proof -
  assume n: "counts_ok n ips" and some: "ip_acquire ip limit ips = Some ips'"
  have get: "hm_get ips j = (if n j = 0 then None else Some (n j))" for j using n by (simp add: counts_ok_def)
  have "ips' = hm_insert ip (Suc (n ip)) ips"
    using some by (auto simp: ip_acquire_def get split: if_splits)
  with n show ?thesis by (simp add: counts_ok_def hm_simps get)
qed

lemma counts_ok_release:
  "counts_ok n ips \<Longrightarrow> 0 < n ip \<Longrightarrow> counts_ok (n(ip := n ip - 1)) (ip_release ip ips)"
  by (auto simp: counts_ok_def ip_release_def hm_simps Let_def split: option.splits)

lemma conn_step_inv:
  assumes "conn_step allowed w w'" "conn_inv w"
  shows "conn_inv w'"
  using assms(1)
proof (cases rule: conn_step.cases)
  case (ensure u)
  have "live_conns (length (cl_arcs (cw_ledger w))) ip w = 0" for ip
    using assms(2) by (force simp: conn_inv_def live_conns_def filter_empty_conv)
  then have "counts_ok (\<lambda>ip. live_conns (length (cl_arcs (cw_ledger w))) ip w) []"
    by (simp add: counts_ok_def)
  then show ?thesis using assms(2) ensure
    by (auto simp: conn_inv_def conn_ensure_user_def Let_def live_conns_def nth_append less_Suc_eq split: option.split)
next
  case (remove live)
  then show ?thesis using assms(2) by (simp add: conn_inv_def conn_remove_stale_users_def live_conns_def)
next
  case (admit p limit ip s g)
  then obtain ips where ips: "ip_acquire ip limit (cl_arcs (cw_ledger w) ! p) = Some ips"
    and s: "s = (cw_ledger w)\<lparr>cl_arcs := (cl_arcs (cw_ledger w))[p := ips]\<rparr>"
    and g: "g = \<lparr>cg_set = p, cg_ip = ip\<rparr>"
    by (auto simp: guard_acquire_def split: option.splits)
  have "counts_ok (\<lambda>ip. live_conns p ip w) (cl_arcs (cw_ledger w) ! p)"
    using assms(2) admit(2) by (simp add: conn_inv_def)
  from counts_ok_acquire [OF this ips]
  have "counts_ok (\<lambda>i. live_conns p i w') ips"
    by (auto simp: admit(1) live_conns_def g fun_upd_def counts_ok_def)
  then show ?thesis
    using assms(2) admit(1,2) by (auto simp: conn_inv_def s g nth_list_update live_conns_def)
next
  case (close gs g hs)
  let ?p = "cg_set g"
  have p: "?p < length (cl_arcs (cw_ledger w))" and
    n: "counts_ok (\<lambda>ip. live_conns ?p ip w) (cl_arcs (cw_ledger w) ! ?p)"
    using assms(2) close(2) by (auto simp: conn_inv_def)
  have "0 < live_conns ?p (cg_ip g) w" by (simp add: live_conns_def close(2))
  from counts_ok_release [OF n this]
  have "counts_ok (\<lambda>i. live_conns ?p i w') (ip_release (cg_ip g) (cl_arcs (cw_ledger w) ! ?p))"
    by (auto simp: close live_conns_def fun_upd_def counts_ok_def)
  then show ?thesis
    using assms(2) p close by (auto simp: conn_inv_def guard_drop_def nth_list_update live_conns_def)
qed

lemma conn_reachable_inv: "(conn_step allowed)\<^sup>*\<^sup>* conn_init w \<Longrightarrow> conn_inv w"
proof (induction rule: rtranclp_induct)
  case base
  then show ?case by (simp add: conn_init_def conn_inv_def conn_default_def)
qed (rule conn_step_inv)

text \<open>Device slots cannot leak. In every reachable state, whatever limits were in force, the
  count stored for an address is the number of its live connections, and an address without live
  connections is not in the set; in particular a user all of whose connections closed has an
  empty set.\<close>

theorem conn_slots_exact:
  assumes "(conn_step allowed)\<^sup>*\<^sup>* conn_init w" and "p < length (cl_arcs (cw_ledger w))"
  shows "hm_get (cl_arcs (cw_ledger w) ! p) ip =
      (if live_conns p ip w = 0 then None else Some (live_conns p ip w)) \<and>
    (cl_arcs (cw_ledger w) ! p = [] \<longleftrightarrow> list_all (\<lambda>g. cg_set g \<noteq> p) (cw_guards w))"
proof -
  let ?ips = "cl_arcs (cw_ledger w) ! p"
  have ok: "counts_ok (\<lambda>ip. live_conns p ip w) ?ips"
    using conn_reachable_inv [OF assms(1)] assms(2) by (simp add: conn_inv_def)
  then have get: "hm_get ?ips i = (if live_conns p i w = 0 then None else Some (live_conns p i w))" for i
    by (simp add: counts_ok_def)
  have "?ips = [] \<longleftrightarrow> (\<forall>i. hm_get ?ips i = None)"
    by (auto simp: hm_get_def map_of_eq_None_iff)
  also have "\<dots> \<longleftrightarrow> (\<forall>i. live_conns p i w = 0)" by (simp add: get)
  also have "\<dots> \<longleftrightarrow> list_all (\<lambda>g. cg_set g \<noteq> p) (cw_guards w)"
    by (auto simp: live_conns_def filter_empty_conv list_all_iff)
  finally show ?thesis by (simp add: get)
qed

lemma length_ip_acquire:
  "ip_acquire ip limit ips = Some ips' \<Longrightarrow> 0 < limit \<Longrightarrow> length ips' \<le> max (length ips) (unat limit)"
  by (auto simp: ip_acquire_def hm_simps hm_contains_iff split: option.splits if_splits)

lemma length_ip_release: "length (ip_release ip ips) \<le> length ips"
proof (cases "hm_get ips ip")
  case (Some n)
  have "length (hm_remove ip (hm_insert ip v ips)) \<le> length (hm_insert ip v ips)" for v
    unfolding hm_remove_def by (rule length_filter_le)
  moreover have "length (hm_insert ip v ips) = length ips" for v
    using Some by (simp add: length_hm_insert hm_contains_iff)
  ultimately show ?thesis using Some by (simp add: ip_release_def Let_def)
qed (simp add: ip_release_def)

lemma conn_step_cap:
  assumes "conn_step allowed w w'"
    and lim: "\<And>limit. allowed p limit \<Longrightarrow> 0 < limit \<and> unat limit \<le> L"
    and cap: "p < length (cl_arcs (cw_ledger w)) \<Longrightarrow> length (cl_arcs (cw_ledger w) ! p) \<le> L"
    and p: "p < length (cl_arcs (cw_ledger w'))"
  shows "length (cl_arcs (cw_ledger w') ! p) \<le> L"
  using assms(1)
proof (cases rule: conn_step.cases)
  case (ensure u)
  then show ?thesis using cap p
    by (auto simp: conn_ensure_user_def Let_def nth_append less_Suc_eq split: option.splits)
next
  case (remove live)
  then show ?thesis using cap p by (simp add: conn_remove_stale_users_def)
next
  case (admit q limit ip s g)
  then obtain ips where ips: "ip_acquire ip limit (cl_arcs (cw_ledger w) ! q) = Some ips"
    and s: "cl_arcs s = (cl_arcs (cw_ledger w))[q := ips]"
    by (auto simp: guard_acquire_def split: option.splits)
  have "length ips \<le> L" if "q = p"
    using length_ip_acquire [OF ips] lim [of limit] admit(2,3) cap that by fastforce
  then show ?thesis using cap p admit(1) by (cases "q = p") (simp_all add: s)
next
  case (close gs g hs)
  then show ?thesis using cap p
    by (cases "cg_set g = p") (auto simp: guard_drop_def intro: le_trans [OF length_ip_release])
qed


text \<open>A run: user 7 connects twice from one address and once from a second one, limit 2; a third
  address is refused.\<close>

definition sample_conns :: conn_world where
  "sample_conns = \<lparr>cw_ledger = \<lparr>cl_arcs = [[(''1.1.1.1'', 2), (''2.2.2.2'', 1)]], cl_state = [(7, 0)]\<rparr>,
     cw_guards = [\<lparr>cg_set = 0, cg_ip = ''2.2.2.2''\<rparr>, \<lparr>cg_set = 0, cg_ip = ''1.1.1.1''\<rparr>, \<lparr>cg_set = 0, cg_ip = ''1.1.1.1''\<rparr>]\<rparr>"

lemma sample_conns_reachable: "(conn_step (\<lambda>_ l. l = 2))\<^sup>*\<^sup>* conn_init sample_conns"
proof -
  let ?s = "\<lambda>ips. \<lparr>cl_arcs = [ips], cl_state = [(7 :: u64, 0 :: nat)]\<rparr>"
  let ?g1 = "\<lparr>cg_set = 0, cg_ip = ''1.1.1.1''\<rparr>"
  let ?w1 = "\<lparr>cw_ledger = ?s [], cw_guards = []\<rparr>"
  let ?w2 = "\<lparr>cw_ledger = ?s [(''1.1.1.1'', 1)], cw_guards = [?g1]\<rparr>"
  let ?w3 = "\<lparr>cw_ledger = ?s [(''1.1.1.1'', 2)], cw_guards = [?g1, ?g1]\<rparr>"
  note defs = guard_acquire_def ip_acquire_def hm_get_def
  have "conn_step (\<lambda>_ l. l = 2) conn_init ?w1"
    using ensure [of _ conn_init 7] by (simp add: conn_init_def conn_default_def conn_ensure_user_def)
  moreover have "conn_step (\<lambda>_ l. l = 2) ?w1 ?w2"
    using admit [of 0 ?w1 "\<lambda>_ l. l = 2" 2 "''1.1.1.1''"] by (simp add: defs)
  moreover have "conn_step (\<lambda>_ l. l = 2) ?w2 ?w3"
    using admit [of 0 ?w2 "\<lambda>_ l. l = 2" 2 "''1.1.1.1''"] by (simp add: defs numeral_2_eq_2)
  moreover have "conn_step (\<lambda>_ l. l = 2) ?w3 sample_conns"
    using admit [of 0 ?w3 "\<lambda>_ l. l = 2" 2 "''2.2.2.2''"] by (simp add: defs sample_conns_def)
  ultimately show ?thesis by (meson converse_rtranclp_into_rtranclp rtranclp.rtrancl_refl)
qed

theorem conn_slots_exact_witness:
  "hm_get (cl_arcs (cw_ledger sample_conns) ! 0) ''1.1.1.1'' = Some 2 \<and> live_conns 0 ''1.1.1.1'' sample_conns = 2"
  using conn_slots_exact [OF sample_conns_reachable, of 0 "''1.1.1.1''"]
  by (simp add: sample_conns_def live_conns_def)


end
