(* ===== verification/Rust_F64.thy ===== *)
theory Rust_F64
  imports Complex_Main "HOL-Library.Log_Nat"
begin

text \<open>
  The \<open>f64\<close> arithmetic the rate limiter uses: a finite double is the rational it denotes, and
  every operation returns the exact result rounded to 53 significant bits, ties to even. The
  quantities here stay between a nanosecond times one byte per second and \<open>2 ^ 65\<close>, so neither
  overflow nor subnormal numbers occur.
\<close>

definition round_even :: "rat \<Rightarrow> int" where
  "round_even q =
     (let f = \<lfloor>q\<rfloor>; d = q - of_int f
      in if d < 1 / 2 then f else if 1 / 2 < d then f + 1 else if even f then f else f + 1)"

text \<open>The binary exponent of a positive rational: \<open>2 powi e \<le> x < 2 powi (e + 1)\<close>.\<close>

definition exponent :: "rat \<Rightarrow> int" where
  "exponent x =
     (let (a, b) = quotient_of x;
          k = int (floorlog 2 (nat a)) - int (floorlog 2 (nat b))
      in if 2 powi k \<le> x then k else k - 1)"

definition f64_round_pos :: "rat \<Rightarrow> rat" where
  "f64_round_pos x = (let ulp = 2 powi (exponent x - 52) in of_int (round_even (x / ulp)) * ulp)"

definition f64_round :: "rat \<Rightarrow> rat" where
  "f64_round x = (if x = 0 then 0 else if 0 < x then f64_round_pos x else - f64_round_pos (- x))"

subsection \<open>Rounding to an integer\<close>

lemma round_even_of_int [simp]: "round_even (of_int n) = n"
  by (simp add: round_even_def)

lemma round_even_bounds: "\<lfloor>q\<rfloor> \<le> round_even q" "round_even q \<le> \<lfloor>q\<rfloor> + 1"
  by (simp_all add: round_even_def Let_def)

lemma round_even_mono: "p \<le> q \<Longrightarrow> round_even p \<le> round_even q"
proof -
  assume pq: "p \<le> q"
  show ?thesis
  proof (cases "\<lfloor>p\<rfloor> = \<lfloor>q\<rfloor>")
    case True
    with pq show ?thesis by (auto simp: round_even_def Let_def)
  next
    case False
    with floor_mono [OF pq] round_even_bounds [of p] round_even_bounds [of q] show ?thesis by linarith
  qed
qed

lemma round_even_error: "\<bar>of_int (round_even q) - q\<bar> \<le> 1 / 2"
proof -
  have f: "of_int \<lfloor>q\<rfloor> \<le> q" "q < of_int \<lfloor>q\<rfloor> + 1" by linarith+
  show ?thesis unfolding round_even_def Let_def abs_if using f by (simp; linarith)
qed

lemma round_even_le: "q \<le> of_int n \<Longrightarrow> round_even q \<le> n"
  using round_even_mono [of q "of_int n"] by simp

lemma round_even_ge: "of_int n \<le> q \<Longrightarrow> n \<le> round_even q"
  using round_even_mono [of "of_int n" q] by simp

subsection \<open>The exponent\<close>

lemma exponent_bounds:
  assumes "0 < x"
  shows "2 powi (exponent x) \<le> x" "x < 2 powi (exponent x + 1)"
proof -
  obtain a b where ab: "quotient_of x = (a, b)" by (cases "quotient_of x")
  have b: "0 < b" using quotient_of_denom_pos [OF ab] .
  have x: "x = of_int a / of_int b" using quotient_of_div [OF ab] .
  have a: "0 < a" using assms b x by (simp add: zero_less_divide_iff)
  define m where "m = floorlog 2 (nat a)"
  define n where "n = floorlog 2 (nat b)"
  have bm: "2 ^ (m - 1) \<le> nat a" "nat a < 2 ^ m" "0 < m"
    using floorlog_bounds [of "nat a" 2] a by (simp_all add: m_def, simp add: floorlog_def)
  have bn: "2 ^ (n - 1) \<le> nat b" "nat b < 2 ^ n" "0 < n"
    using floorlog_bounds [of "nat b" 2] b by (simp_all add: n_def, simp add: floorlog_def)
  have ra: "(of_int a :: rat) = of_nat (nat a)" and rb: "(of_int b :: rat) = of_nat (nat b)"
    using a b by simp_all
  have al: "(2 :: rat) ^ (m - 1) \<le> of_int a" "(of_int a :: rat) < 2 ^ m"
    using bm(1,2) unfolding ra by (metis of_nat_le_iff of_nat_numeral of_nat_power, metis of_nat_less_iff of_nat_numeral of_nat_power)
  have bl: "(2 :: rat) ^ (n - 1) \<le> of_int b" "(of_int b :: rat) < 2 ^ n"
    using bn(1,2) unfolding rb by (metis of_nat_le_iff of_nat_numeral of_nat_power, metis of_nat_less_iff of_nat_numeral of_nat_power)
  let ?k = "int m - int n"
  have pb: "(0 :: rat) < of_int b" using b by simp
  have up: "x < 2 powi (?k + 1)"
  proof -
    have "x < 2 ^ m / of_int b" unfolding x by (rule divide_strict_right_mono [OF al(2) pb])
    also have "\<dots> \<le> 2 ^ m / 2 ^ (n - 1)" by (rule divide_left_mono [OF bl(1)]) (use b in simp_all)
    also have "\<dots> = 2 powi (?k + 1)"
    proof -
      have "2 powi (?k + 1) = (2 :: rat) powi (int m - int (n - 1))"
        using bn(3) by (simp add: of_nat_diff algebra_simps)
      then show ?thesis by (simp add: power_int_diff)
    qed
    finally show ?thesis .
  qed
  have low: "2 powi (?k - 1) < x"
  proof -
    have "2 powi (?k - 1) = (2 :: rat) ^ (m - 1) / 2 ^ n"
    proof -
      have "2 powi (?k - 1) = (2 :: rat) powi (int (m - 1) - int n)"
        using bm(3) by (simp add: of_nat_diff algebra_simps)
      then show ?thesis by (simp add: power_int_diff)
    qed
    also have "\<dots> \<le> of_int a / 2 ^ n" by (rule divide_right_mono [OF al(1)]) simp
    also have "\<dots> < x" unfolding x
      by (rule divide_strict_left_mono [OF bl(2)]) (use a b in simp_all)
    finally show ?thesis .
  qed
  show "2 powi (exponent x) \<le> x" "x < 2 powi (exponent x + 1)"
    using up low by (auto simp: exponent_def ab Let_def m_def [symmetric] n_def [symmetric])
qed

lemma powi2_le_iff: "(2 :: rat) powi i \<le> 2 powi j \<longleftrightarrow> i \<le> j"
proof (cases "i \<le> j")
  case True
  then show ?thesis using power_int_increasing [of i j "2 :: rat"] by simp
next
  case False
  then have "(2 :: rat) powi j < 2 powi i" by (intro power_int_strict_increasing) simp_all
  with False show ?thesis by simp
qed

lemma powi2_less_iff: "(2 :: rat) powi i < 2 powi j \<longleftrightarrow> i < j"
  by (simp only: not_le [symmetric] powi2_le_iff)

lemma powi2_pos [simp]: "0 < (2 :: rat) powi i"
  by (simp add: zero_less_power_int)

lemma powi2_shift: "(2 :: rat) powi (k + int n) = 2 ^ n * 2 powi k"
  by (simp add: power_int_add)

lemma powi2_52: "(2 :: rat) powi e = 2 ^ 52 * 2 powi (e - 52)"
  using powi2_shift [of "e - 52" 52] by simp

lemma powi2_53: "(2 :: rat) powi (e + 1) = 2 ^ 53 * 2 powi (e - 52)"
  using powi2_shift [of "e - 52" 53] by (simp add: add.commute)

lemma exponent_less: "0 < x \<Longrightarrow> x < 2 powi k \<Longrightarrow> exponent x < k"
  using exponent_bounds(1) [of x] powi2_less_iff [of "exponent x" k] by linarith

lemma exponent_ge: "0 < x \<Longrightarrow> 2 powi k \<le> x \<Longrightarrow> k \<le> exponent x"
  using exponent_bounds(2) [of x] powi2_less_iff [of k "exponent x + 1"] by linarith

lemma exponent_mono: "0 < x \<Longrightarrow> x \<le> y \<Longrightarrow> exponent x \<le> exponent y"
  using exponent_bounds(1) [of x] by (intro exponent_ge) auto

subsection \<open>Rounding positive numbers\<close>

lemma significand_bounds:
  assumes "0 < x"
  shows "2 ^ 52 \<le> x / 2 powi (exponent x - 52)" "x / 2 powi (exponent x - 52) < 2 ^ 53"
proof -
  show "2 ^ 52 \<le> x / 2 powi (exponent x - 52)"
    using exponent_bounds(1) [OF assms] unfolding powi2_52 [of "exponent x"] by (simp only: pos_le_divide_eq powi2_pos)
  show "x / 2 powi (exponent x - 52) < 2 ^ 53"
    using exponent_bounds(2) [OF assms] unfolding powi2_53 by (simp only: pos_divide_less_eq powi2_pos)
qed

lemma f64_round_pos_bounds:
  assumes "0 < x"
  shows "2 powi (exponent x) \<le> f64_round_pos x" "f64_round_pos x \<le> 2 powi (exponent x + 1)"
proof -
  let ?q = "x / 2 powi (exponent x - 52)"
  have "2 ^ 52 \<le> round_even ?q" "round_even ?q \<le> 2 ^ 53"
    using significand_bounds [OF assms] by (auto intro!: round_even_ge round_even_le)
  then have r: "(2 :: rat) ^ 52 \<le> of_int (round_even ?q)" "of_int (round_even ?q) \<le> (2 :: rat) ^ 53"
    by (simp_all del: power_numeral)
  have "2 powi (exponent x) = (2 :: rat) ^ 52 * 2 powi (exponent x - 52)"
    by (rule powi2_52)
  also have "\<dots> \<le> f64_round_pos x"
    unfolding f64_round_pos_def Let_def using r(1) by (rule mult_right_mono) simp
  finally show "2 powi (exponent x) \<le> f64_round_pos x" .
  have "f64_round_pos x \<le> (2 :: rat) ^ 53 * 2 powi (exponent x - 52)"
    unfolding f64_round_pos_def Let_def using r(2) by (rule mult_right_mono) simp
  also have "\<dots> = 2 powi (exponent x + 1)"
    by (rule powi2_53 [symmetric])
  finally show "f64_round_pos x \<le> 2 powi (exponent x + 1)" .
qed

lemma f64_round_pos_mono:
  assumes "0 < x" "x \<le> y"
  shows "f64_round_pos x \<le> f64_round_pos y"
proof (cases "exponent x = exponent y")
  case True
  have "round_even (x / 2 powi (exponent y - 52)) \<le> round_even (y / 2 powi (exponent y - 52))"
    by (rule round_even_mono) (use assms in \<open>simp add: divide_right_mono\<close>)
  then show ?thesis unfolding f64_round_pos_def Let_def True
    by (intro mult_right_mono) simp_all
next
  case False
  with exponent_mono [OF assms] have "exponent x + 1 \<le> exponent y" by simp
  then have "(2 :: rat) powi (exponent x + 1) \<le> 2 powi (exponent y)" by (simp only: powi2_le_iff)
  with f64_round_pos_bounds [of x] f64_round_pos_bounds [of y] assms show ?thesis by linarith
qed

lemma f64_round_pos_error:
  assumes "0 < x"
  shows "\<bar>f64_round_pos x - x\<bar> \<le> x / 2 ^ 53"
proof -
  let ?u = "(2 :: rat) powi (exponent x - 52)"
  have "f64_round_pos x - x = (of_int (round_even (x / ?u)) - x / ?u) * ?u"
    by (simp add: f64_round_pos_def Let_def left_diff_distrib)
  then have "\<bar>f64_round_pos x - x\<bar> = \<bar>of_int (round_even (x / ?u)) - x / ?u\<bar> * ?u"
    by (simp add: abs_mult)
  also have "\<dots> \<le> 1 / 2 * ?u" by (rule mult_right_mono [OF round_even_error]) simp
  also have "\<dots> = 2 powi (exponent x) / 2 ^ 53"
    unfolding powi2_52 [of "exponent x"] by simp
  also have "\<dots> \<le> x / 2 ^ 53" by (rule divide_right_mono [OF exponent_bounds(1) [OF assms]]) simp
  finally show ?thesis .
qed

lemma f64_exact_pos:
  assumes x: "x = of_int n * 2 powi k" and n: "0 < n" "n \<le> 2 ^ 53"
  shows "f64_round_pos x = x"
proof -
  have pos: "0 < x" using n by (simp add: x)
  have le: "x \<le> 2 powi (k + 53)"
  proof -
    have "(of_int n :: rat) \<le> 2 ^ 53" using n(2) by (simp del: power_numeral)
    then have "x \<le> 2 ^ 53 * 2 powi k" unfolding x by (rule mult_right_mono) simp
    then show ?thesis using powi2_shift [of k 53] by simp
  qed
  define e where "e = exponent x"
  have e: "e - 52 \<le> k + 1" using exponent_bounds(1) [OF pos] le powi2_le_iff [of e "k + 53"] by (simp add: e_def)
  have exact: ?thesis if "x / 2 powi (e - 52) = of_int m" for m
  proof -
    have "f64_round_pos x = of_int m * 2 powi (e - 52)"
      by (simp add: f64_round_pos_def Let_def e_def [symmetric] that)
    also have "\<dots> = x" unfolding that [symmetric] by simp
    finally show ?thesis .
  qed
  show ?thesis
  proof (cases "e - 52 \<le> k")
    case True
    have "x / 2 powi (e - 52) = of_int n * 2 powi (k - (e - 52))" by (simp add: x power_int_diff)
    also have "\<dots> = of_int (n * 2 ^ nat (k - (e - 52)))" using True by (simp add: power_int_def)
    finally show ?thesis by (rule exact)
  next
    case False
    with e have ek: "e = k + 53" by simp
    with exponent_bounds(1) [OF pos] le have "x = 2 powi e" by (simp add: e_def)
    then have "x / 2 powi (e - 52) = of_int (2 ^ 52)" unfolding powi2_52 [of e] by simp
    then show ?thesis by (rule exact)
  qed
qed

subsection \<open>Rounding\<close>

lemma f64_round_pos_pos: "0 < x \<Longrightarrow> 0 < f64_round_pos x"
  using f64_round_pos_bounds(1) [of x] powi2_pos [of "exponent x"] by linarith

lemma f64_round_0 [simp]: "f64_round 0 = 0"
  by (simp add: f64_round_def)

lemma f64_round_nonneg: "0 \<le> x \<Longrightarrow> 0 \<le> f64_round x"
  using f64_round_pos_pos [of x] by (cases "x = 0") (simp_all add: f64_round_def less_imp_le)

lemma f64_round_mono: "x \<le> y \<Longrightarrow> f64_round x \<le> f64_round y"
proof -
  assume xy: "x \<le> y"
  consider "0 < x" | "y < 0" | "x \<le> 0" "0 \<le> y" by linarith
  then show ?thesis
  proof cases
    case 1
    with xy show ?thesis by (simp add: f64_round_def f64_round_pos_mono)
  next
    case 2
    with xy show ?thesis using f64_round_pos_mono [of "- y" "- x"] by (simp add: f64_round_def)
  next
    case 3
    have "f64_round x \<le> 0" using 3(1) f64_round_pos_pos [of "- x"]
      by (cases "x = 0") (simp_all add: f64_round_def less_imp_le)
    with f64_round_nonneg [OF 3(2)] show ?thesis by linarith
  qed
qed

lemma f64_round_error: "0 \<le> x \<Longrightarrow> \<bar>f64_round x - x\<bar> \<le> x / 2 ^ 53"
  using f64_round_pos_error [of x] by (simp add: f64_round_def)

lemma f64_round_idem: "0 \<le> x \<Longrightarrow> f64_round (f64_round x) = f64_round x"
proof (cases "x = 0")
  case False
  assume "0 \<le> x"
  with False have pos: "0 < x" by simp
  let ?n = "round_even (x / 2 powi (exponent x - 52))"
  have "2 ^ 52 \<le> ?n" "?n \<le> 2 ^ 53"
    using significand_bounds [OF pos] by (auto intro!: round_even_ge round_even_le)
  then have "f64_round_pos (f64_round_pos x) = f64_round_pos x"
    by (intro f64_exact_pos [of _ ?n "exponent x - 52"]) (simp_all add: f64_round_pos_def Let_def)
  with pos f64_round_pos_pos [OF pos] show ?thesis by (simp add: f64_round_def)
qed simp

lemma f64_round_nat: "n \<le> 2 ^ 53 \<Longrightarrow> f64_round (of_nat n) = of_nat n"
proof (cases "n = 0")
  case False
  assume "n \<le> 2 ^ 53"
  with False have "f64_round_pos (of_nat n) = of_nat n"
    by (intro f64_exact_pos [of _ "int n" 0]) simp_all
  with False show ?thesis by (simp add: f64_round_def)
qed simp

text \<open>The unit roundoff, and the one-sided forms of the error bound.\<close>

abbreviation u53 :: rat where
  "u53 \<equiv> 1 / 2 ^ 53"

lemma f64_round_le: "0 \<le> x \<Longrightarrow> f64_round x \<le> x * (1 + u53)"
  using abs_le_D1 [OF f64_round_error, of x] unfolding distrib_left times_divide_eq_right mult_1_right by linarith

lemma f64_round_ge: "0 \<le> x \<Longrightarrow> x * (1 - u53) \<le> f64_round x"
  using abs_le_D2 [OF f64_round_error, of x] unfolding right_diff_distrib times_divide_eq_right mult_1_right by linarith

lemma f64_round_le_fixed: "x \<le> c \<Longrightarrow> f64_round c = c \<Longrightarrow> f64_round x \<le> c"
  using f64_round_mono [of x c] by simp

lemma f64_round_nat_Ints: "f64_round (of_nat n) \<in> \<int>"
proof (cases "n \<le> 2 ^ 53")
  case True
  then show ?thesis by (simp add: f64_round_nat)
next
  case False
  then have n: "0 < (of_nat n :: rat)" and "(2 :: rat) ^ 53 \<le> of_nat n"
    by (simp, metis nle_le of_nat_le_iff of_nat_numeral of_nat_power)
  then have "(2 :: rat) powi 53 \<le> of_nat n" by simp
  with exponent_ge [OF n] have e: "53 \<le> exponent (of_nat n)" by blast
  have "f64_round (of_nat n) = of_int (round_even (of_nat n / 2 powi (exponent (of_nat n) - 52)) * 2 ^ nat (exponent (of_nat n) - 52))"
    using n e by (simp add: f64_round_def f64_round_pos_def Let_def power_int_def)
  then show ?thesis by (metis Ints_of_int)
qed

lemma f64_round_minus: "f64_round (- x) = - f64_round x"
  by (auto simp: f64_round_def)

lemma f64_round_small_int:
  assumes "x \<in> \<int>" "\<bar>f64_round x\<bar> < 1"
  shows "x = 0"
proof (rule ccontr)
  assume "x \<noteq> 0"
  obtain k where k: "x = of_int k" using assms(1) by (auto elim: Ints_cases)
  have one: "f64_round 1 = 1" using f64_round_nat [of 1] by simp
  from \<open>x \<noteq> 0\<close> k have "1 \<le> x \<or> 1 \<le> - x" by simp linarith
  then have "1 \<le> f64_round x \<or> 1 \<le> f64_round (- x)" using f64_round_mono [of 1] one by metis
  with assms(2) show False by (auto simp: f64_round_minus)
qed

end
