(* ===== verification/Rate_Limiter.thy ===== *)
theory Rate_Limiter
  imports Arc_Ledger Rust_F64
begin

text \<open>
  \<^verbatim>\<open>src/src/traffic.rs\<close>, third part: the token bucket \<open>RateLimiter\<close> and \<open>SpeedLedger\<close>.
  An \<open>Instant\<close> or \<open>Duration\<close> is a number of nanoseconds; \<open>f64\<close> values are rationals and each
  operation rounds with \<open>f64_round\<close>. One turn of the \<open>acquire\<close> loop is \<open>acquire_turn\<close>: it
  either returns or asks to sleep; the loop runs over the clock readings of its turns.
\<close>

record bucket =
  b_rate :: rat
  b_capacity :: rat
  b_tokens :: rat
  b_last :: nat

text \<open>\<open>as f64\<close> on \<open>u64\<close> and \<open>usize\<close> values.\<close>

definition u64_as_f64 :: "u64 \<Rightarrow> rat" where
  "u64_as_f64 r = f64_round (of_nat (unat r))"

text \<open>\<open>Duration::as_secs_f64\<close> and \<open>Duration::from_secs_f64\<close> (which rounds to nanoseconds).\<close>

definition as_secs_f64 :: "nat \<Rightarrow> rat" where
  "as_secs_f64 d =
     f64_round (f64_round (of_nat (d div 1000000000)) + f64_round (of_nat (d mod 1000000000) / 1000000000))"

definition from_secs_f64 :: "rat \<Rightarrow> nat" where
  "from_secs_f64 x = nat (round_even (x * 1000000000))"

definition refill :: "nat \<Rightarrow> bucket \<Rightarrow> bucket" where
  "refill now b =
     (if b_rate b \<le> 0 then b\<lparr>b_last := now\<rparr>
      else let elapsed = as_secs_f64 (now - b_last b)
           in b\<lparr>b_last := now,
                b_tokens := min (f64_round (b_tokens b + f64_round (elapsed * b_rate b))) (b_capacity b)\<rparr>)"

definition MIN_BURST :: rat where
  "MIN_BURST = 256 * 1024"

definition capacity_for :: "rat \<Rightarrow> rat" where
  "capacity_for rate = max rate MIN_BURST"

definition limiter_new :: "u64 \<Rightarrow> nat \<Rightarrow> bucket" where
  "limiter_new rate_bps now =
     (let rate = u64_as_f64 rate_bps; capacity = capacity_for rate
      in \<lparr>b_rate = rate, b_capacity = capacity, b_tokens = capacity, b_last = now\<rparr>)"

definition set_rate :: "u64 \<Rightarrow> nat \<Rightarrow> bucket \<Rightarrow> bucket" where
  "set_rate rate_bps now b =
     (let rate = u64_as_f64 rate_bps
      in if \<bar>f64_round (rate - b_rate b)\<bar> < 1 / 2 ^ 52 then b
         else let b = refill now b;
                  b = b\<lparr>b_rate := rate, b_capacity := capacity_for rate\<rparr>
              in if b_capacity b < b_tokens b then b\<lparr>b_tokens := b_capacity b\<rparr> else b)"

text \<open>The result of a turn: \<open>None\<close> when \<open>acquire\<close> returns, \<open>Some wait\<close> when it sleeps.\<close>

definition acquire_turn :: "nat \<Rightarrow> nat \<Rightarrow> bucket \<Rightarrow> bucket \<times> nat option" where
  "acquire_turn amount now b =
     (if b_rate b \<le> 0 then (b, None)
      else let b = refill now b;
               need = min (f64_round (of_nat amount)) (b_capacity b)
           in if need \<le> b_tokens b then (b\<lparr>b_tokens := f64_round (b_tokens b - need)\<rparr>, None)
              else (b, Some (from_secs_f64 (f64_round (f64_round (need - b_tokens b) / b_rate b)))))"

record speed_ledger =
  sl_arcs :: "bucket list"
  sl_state :: "(u64, nat) hashmap"

definition speed_default :: speed_ledger where
  "speed_default = \<lparr>sl_arcs = [], sl_state = []\<rparr>"

definition speed_ensure_user :: "u64 \<Rightarrow> u64 \<times> nat \<Rightarrow> speed_ledger \<Rightarrow> speed_ledger \<times> nat" where
  "speed_ensure_user user_id = (\<lambda>(rate_bps, now) s.
     (case hm_get (sl_state s) user_id of
        Some rl \<Rightarrow> (s\<lparr>sl_arcs := (sl_arcs s)[rl := set_rate rate_bps now (sl_arcs s ! rl)]\<rparr>, rl)
      | None \<Rightarrow>
          let rl = length (sl_arcs s)
          in (s\<lparr>sl_arcs := sl_arcs s @ [limiter_new rate_bps now],
                sl_state := hm_insert user_id rl (sl_state s)\<rparr>, rl)))"

definition speed_remove_stale_users :: "u64 set \<Rightarrow> speed_ledger \<Rightarrow> speed_ledger" where
  "speed_remove_stale_users live s = s\<lparr>sl_state := hm_retain (\<lambda>user_id _. user_id \<in> live) (sl_state s)\<rparr>"

subsection \<open>The ledger contract\<close>

definition speed_ok :: "speed_ledger \<Rightarrow> bool" where
  "speed_ok s \<longleftrightarrow> table_ok (length (sl_arcs s)) (sl_state s)"

definition speed_ptr :: "speed_ledger \<Rightarrow> u64 \<Rightarrow> nat option" where
  "speed_ptr s u = hm_get (sl_state s) u"

lemma speed_ok_default: "speed_ok speed_default"
  by (simp add: speed_ok_def speed_default_def)

interpretation speeds: arc_ledger speed_ok speed_ptr speed_ensure_user speed_remove_stale_users
proof unfold_locales
  fix s u v p x live
  assume ok: "speed_ok s"
  then have hm: "hm_ok (sl_state s)" by (simp add: speed_ok_def table_ok_def)
  show "speed_ok (fst (speed_ensure_user u x s))"
    using ok by (cases x) (auto simp: speed_ok_def speed_ensure_user_def Let_def table_ok_insert split: option.split)
  show "speed_ok (speed_remove_stale_users live s)"
    using ok by (simp add: speed_ok_def speed_remove_stale_users_def table_ok_retain)
  show "u = v" if "speed_ptr s u = Some p" "speed_ptr s v = Some p"
    using that ok by (auto simp: speed_ptr_def speed_ok_def intro: table_ok_inj)
  show "speed_ptr (fst (speed_ensure_user u x s)) v =
      (if v = u then Some (snd (speed_ensure_user u x s)) else speed_ptr s v)"
    by (cases x) (simp add: speed_ptr_def speed_ensure_user_def Let_def hm_simps split: option.split)
  show "snd (speed_ensure_user u x s) = p" if "speed_ptr s u = Some p"
    using that by (cases x) (simp add: speed_ptr_def speed_ensure_user_def)
  show "speed_ptr (speed_remove_stale_users live s) v = (if v \<in> live then speed_ptr s v else None)"
    using hm by (simp add: speed_ptr_def speed_remove_stale_users_def hm_simps split: option.split)
qed

subsection \<open>Invariant of a bucket\<close>

definition bucket_ok :: "bucket \<Rightarrow> bool" where
  "bucket_ok b \<longleftrightarrow> 0 \<le> b_rate b \<and> f64_round (b_rate b) = b_rate b \<and> b_capacity b = capacity_for (b_rate b) \<and>
     0 \<le> b_tokens b \<and> b_tokens b \<le> b_capacity b"

lemma f64_round_MIN_BURST: "f64_round MIN_BURST = MIN_BURST"
  using f64_round_nat [of 262144] by (simp add: MIN_BURST_def)

lemma capacity_for_f64: "f64_round r = r \<Longrightarrow> f64_round (capacity_for r) = capacity_for r"
  by (simp add: capacity_for_def max_def f64_round_MIN_BURST)

lemma capacity_for_ge: "262144 \<le> capacity_for r" "r \<le> capacity_for r"
  by (simp_all add: capacity_for_def MIN_BURST_def)

lemma bucket_ok_capacity:
  "bucket_ok b \<Longrightarrow> f64_round (b_capacity b) = b_capacity b \<and> 262144 \<le> b_capacity b"
  by (simp add: bucket_ok_def capacity_for_f64 capacity_for_ge)

lemma as_secs_f64_nonneg: "0 \<le> as_secs_f64 d"
  by (simp add: as_secs_f64_def f64_round_nonneg)

lemma u64_as_f64_facts: "0 \<le> u64_as_f64 r" "f64_round (u64_as_f64 r) = u64_as_f64 r"
proof -
  have "(0 :: rat) \<le> of_nat (unat r)" by (rule of_nat_0_le_iff)
  then show "0 \<le> u64_as_f64 r" "f64_round (u64_as_f64 r) = u64_as_f64 r"
    unfolding u64_as_f64_def by (rule f64_round_nonneg, rule f64_round_idem)
qed

lemma refill_fields [simp]:
  "b_rate (refill now b) = b_rate b" "b_capacity (refill now b) = b_capacity b" "b_last (refill now b) = now"
  by (simp_all add: refill_def Let_def)

lemma bucket_ok_refill:
  assumes ok: "bucket_ok b"
  shows "bucket_ok (refill now b)"
proof -
  have "0 \<le> b_tokens b" "0 \<le> b_rate b" "0 \<le> b_capacity b"
    using ok bucket_ok_capacity [OF ok] by (auto simp: bucket_ok_def)
  then have "0 \<le> f64_round (b_tokens b + f64_round (as_secs_f64 (now - b_last b) * b_rate b))"
    by (intro f64_round_nonneg add_nonneg_nonneg mult_nonneg_nonneg as_secs_f64_nonneg)
  with ok \<open>0 \<le> b_capacity b\<close> show ?thesis by (simp add: bucket_ok_def refill_def Let_def)
qed

lemma bucket_ok_new: "bucket_ok (limiter_new r now)"
  using capacity_for_ge(1) [of "u64_as_f64 r"]
  by (simp add: bucket_ok_def limiter_new_def Let_def u64_as_f64_facts)

lemma bucket_ok_set_rate: "bucket_ok b \<Longrightarrow> bucket_ok (set_rate r now b)"
proof -
  assume ok: "bucket_ok b"
  let ?r = "u64_as_f64 r"
  have "0 \<le> ?r" "f64_round ?r = ?r" "0 \<le> capacity_for ?r"
    using capacity_for_ge(1) [of ?r] by (simp_all add: u64_as_f64_facts)
  then show ?thesis using ok bucket_ok_refill [OF ok, of now]
    by (simp add: set_rate_def Let_def bucket_ok_def)
qed

lemma bucket_ok_acquire: "bucket_ok b \<Longrightarrow> bucket_ok (fst (acquire_turn amount now b))"
proof -
  assume ok: "bucket_ok b"
  note r = bucket_ok_refill [OF ok, of now] and cap = bucket_ok_capacity [OF ok]
  let ?t = "b_tokens (refill now b)" and ?need = "min (f64_round (of_nat amount)) (b_capacity b)"
  have need: "0 \<le> ?need" using cap by (simp add: f64_round_nonneg)
  have "f64_round (?t - ?need) \<le> b_capacity b"
    by (rule f64_round_le_fixed) (use need r cap in \<open>auto simp: bucket_ok_def\<close>)
  moreover have "0 \<le> f64_round (?t - ?need)" if "?need \<le> ?t" using that by (simp add: f64_round_nonneg)
  ultimately show ?thesis using ok r by (auto simp: acquire_turn_def Let_def bucket_ok_def)
qed

lemma set_rate_rate:
  assumes "b_rate b \<in> \<int>"
  shows "b_rate (set_rate r now b) = u64_as_f64 r"
proof (cases "\<bar>f64_round (u64_as_f64 r - b_rate b)\<bar> < 1 / 2 ^ 52")
  case True
  then have "\<bar>f64_round (u64_as_f64 r - b_rate b)\<bar> < 1" by simp
  moreover have "u64_as_f64 r - b_rate b \<in> \<int>"
    using assms f64_round_nat_Ints [of "unat r"] unfolding u64_as_f64_def by (rule Ints_diff [rotated])
  ultimately have "u64_as_f64 r - b_rate b = 0" by (metis f64_round_small_int)
  with True show ?thesis by (simp add: set_rate_def Let_def)
qed (simp add: set_rate_def Let_def)

subsection \<open>How much a bucket lets through\<close>

text \<open>Seconds between two readings, exactly.\<close>

definition secs :: "nat \<Rightarrow> rat" where
  "secs d = of_nat d / 1000000000"

lemma secs_split: "of_nat (d div 1000000000) + of_nat (d mod 1000000000) / 1000000000 = secs d"
proof -
  have "(of_nat d :: rat) = of_nat (d div 1000000000) * 1000000000 + of_nat (d mod 1000000000)"
    by (metis div_mult_mod_eq of_nat_add of_nat_mult of_nat_numeral)
  then show ?thesis by (simp add: secs_def add_divide_distrib)
qed

lemma as_secs_f64_le: "as_secs_f64 d \<le> secs d * (1 + u53) ^ 2"
proof -
  let ?s = "of_nat (d div 1000000000) :: rat" and ?n = "of_nat (d mod 1000000000) / 1000000000 :: rat"
  have n: "0 \<le> ?s" "0 \<le> ?n" by simp_all
  have "f64_round ?s + f64_round ?n \<le> ?s * (1 + u53) + ?n * (1 + u53)"
    by (rule add_mono [OF f64_round_le f64_round_le]) (use n in auto)
  also have "\<dots> = secs d * (1 + u53)" by (simp only: secs_split [symmetric] distrib_right)
  finally have sum: "f64_round ?s + f64_round ?n \<le> secs d * (1 + u53)" .
  have "as_secs_f64 d \<le> (f64_round ?s + f64_round ?n) * (1 + u53)"
    unfolding as_secs_f64_def by (rule f64_round_le) (intro add_nonneg_nonneg f64_round_nonneg n)
  also have "\<dots> \<le> secs d * (1 + u53) * (1 + u53)" by (rule mult_right_mono [OF sum]) simp
  finally show ?thesis by (simp add: power2_eq_square mult.assoc)
qed

text \<open>The rounding of one refill or one withdrawal costs less than \<open>2 ^ -50\<close> of the capacity.\<close>

lemma refill_gain:
  assumes ok: "bucket_ok b" and rate: "0 < b_rate b"
  shows "b_tokens (refill now b) \<le> b_tokens b + secs (now - b_last b) * b_rate b + b_capacity b * (6 / 2 ^ 53)"
proof -
  let ?X = "secs (now - b_last b) * b_rate b" and ?cap = "b_capacity b" and ?t = "b_tokens b"
  have t: "0 \<le> ?t" "?t \<le> ?cap" and cap: "0 \<le> ?cap"
    using ok bucket_ok_capacity [OF ok] by (auto simp: bucket_ok_def)
  have X: "0 \<le> ?X" using rate by (simp add: secs_def)
  have tokens: "b_tokens (refill now b) = min (f64_round (?t + f64_round (as_secs_f64 (now - b_last b) * b_rate b))) ?cap"
    using rate by (simp add: refill_def Let_def)
  show ?thesis
  proof (cases "?X \<le> ?cap")
    case False
    then show ?thesis using tokens t cap by (simp add: min_le_iff_disj)
  next
    case True
    have el: "0 \<le> as_secs_f64 (now - b_last b) * b_rate b" using rate by (simp add: as_secs_f64_nonneg)
    have "as_secs_f64 (now - b_last b) * b_rate b \<le> secs (now - b_last b) * (1 + u53) ^ 2 * b_rate b"
      by (rule mult_right_mono [OF as_secs_f64_le]) (use rate in simp)
    also have "\<dots> = ?X * (1 + u53) ^ 2" by (simp only: ac_simps)
    finally have "f64_round (as_secs_f64 (now - b_last b) * b_rate b) \<le> ?X * (1 + u53) ^ 3"
      using f64_round_le [OF el] mult_right_mono [of _ _ "1 + u53"] by (fastforce simp: power3_eq_cube power2_eq_square mult.assoc)
    then have sum: "?t + f64_round (as_secs_f64 (now - b_last b) * b_rate b) \<le> ?t + ?X * (1 + u53) ^ 3" by simp
    have "f64_round (?t + f64_round (as_secs_f64 (now - b_last b) * b_rate b)) \<le> (?t + ?X * (1 + u53) ^ 3) * (1 + u53)"
      by (rule order_trans [OF f64_round_le mult_right_mono [OF sum]])
        (use t el in \<open>simp_all add: f64_round_nonneg\<close>)
    also have "\<dots> \<le> ?t + ?X + ?cap * (6 / 2 ^ 53)"
    proof -
      have "(?t + ?X * (1 + u53) ^ 3) * (1 + u53) = ?t + ?X + (?t * u53 + ?X * ((1 + u53) ^ 4 - 1))"
        by (simp add: algebra_simps power3_eq_cube power4_eq_xxxx)
      moreover have "?X * ((1 + u53) ^ 4 - 1) \<le> ?cap * (5 / 2 ^ 53)"
        by (rule mult_mono [OF True]) (use cap in \<open>simp_all add: power4_eq_xxxx\<close>)
      moreover have "?t * u53 \<le> ?cap * u53" using t(2) by (rule mult_right_mono) simp
      ultimately show ?thesis by simp
    qed
    finally show ?thesis by (simp add: tokens min_le_iff_disj)
  qed
qed

text \<open>A turn for a chunk the relay can produce: the chunk fits the bucket, so the bucket is charged
  its exact size.\<close>

lemma chunk_need:
  assumes "bucket_ok b" "amount \<le> 262144"
  shows "min (f64_round (of_nat amount)) (b_capacity b) = of_nat amount"
proof -
  have "f64_round (of_nat amount) = (of_nat amount :: rat)" using assms(2) by (intro f64_round_nat) simp
  moreover have "of_nat amount \<le> b_capacity b"
    using bucket_ok_capacity [OF assms(1)] assms(2) by (metis of_nat_le_iff of_nat_numeral order_trans)
  ultimately show ?thesis by simp
qed

definition admitted :: "nat \<Rightarrow> nat option \<Rightarrow> nat" where
  "admitted amount wait = (case wait of None \<Rightarrow> amount | Some _ \<Rightarrow> 0)"

lemma acquire_turn_fields [simp]:
  "b_rate (fst (acquire_turn amount now b)) = b_rate b"
  "b_capacity (fst (acquire_turn amount now b)) = b_capacity b"
  by (simp_all add: acquire_turn_def Let_def)

lemma acquire_turn_last: "0 < b_rate b \<Longrightarrow> b_last (fst (acquire_turn amount now b)) = now"
  by (simp add: acquire_turn_def Let_def)

lemma acquire_turn_charge:
  assumes ok: "bucket_ok b" and rate: "0 < b_rate b" and amount: "amount \<le> 262144"
  shows "of_nat (admitted amount (snd (acquire_turn amount now b))) + b_tokens (fst (acquire_turn amount now b)) \<le>
    b_tokens b + secs (now - b_last b) * b_rate b + b_capacity b / 2 ^ 50"
proof -
  let ?t = "b_tokens (refill now b)" and ?cap = "b_capacity b"
  have cap: "0 \<le> ?cap" using bucket_ok_capacity [OF ok] by simp
  have t: "?t \<le> ?cap" using bucket_ok_refill [OF ok, of now] by (simp add: bucket_ok_def)
  have gain: "?t + ?cap * (2 / 2 ^ 53) \<le> b_tokens b + secs (now - b_last b) * b_rate b + ?cap / 2 ^ 50"
    using refill_gain [OF ok rate, of now] by simp
  have turn: "acquire_turn amount now b =
      (if of_nat amount \<le> ?t then ((refill now b)\<lparr>b_tokens := f64_round (?t - of_nat amount)\<rparr>, None)
       else (refill now b, snd (acquire_turn amount now b)))"
    "\<not> of_nat amount \<le> ?t \<Longrightarrow> snd (acquire_turn amount now b) \<noteq> None"
    using rate chunk_need [OF ok amount] by (simp_all add: acquire_turn_def Let_def)
  show ?thesis
  proof (cases "of_nat amount \<le> ?t")
    case True
    have "f64_round (?t - of_nat amount) \<le> (?t - of_nat amount) * (1 + u53)" using True by (intro f64_round_le) simp
    moreover have "(?t - of_nat amount) * u53 \<le> ?cap * u53" using t by (intro mult_right_mono) simp_all
    ultimately have "of_nat amount + f64_round (?t - of_nat amount) \<le> ?t + ?cap * u53"
      by (simp only: distrib_left mult_1_right)
    then show ?thesis using True gain cap by (subst (1 2) turn(1)) (simp add: admitted_def)
  next
    case False
    with turn(2) have "admitted amount (snd (acquire_turn amount now b)) = 0"
      by (auto simp: admitted_def split: option.split)
    moreover have "fst (acquire_turn amount now b) = refill now b" using turn(1) False by (metis fst_conv)
    ultimately show ?thesis using gain cap by simp
  qed
qed

text \<open>The turns of all the connections that share a bucket, as (clock reading, chunk size).\<close>

fun run_turns :: "(nat \<times> nat) list \<Rightarrow> bucket \<Rightarrow> nat \<times> bucket" where
  "run_turns [] b = (0, b)"
| "run_turns ((now, amount) # ts) b =
     (let (b1, wait) = acquire_turn amount now b; (n, b2) = run_turns ts b1
      in (admitted amount wait + n, b2))"

lemma secs_add: "a \<le> b \<Longrightarrow> b \<le> c \<Longrightarrow> secs (b - a) + secs (c - b) = secs (c - a)"
  by (simp add: secs_def of_nat_diff diff_divide_distrib)

lemma run_turns_charge:
  "bucket_ok b \<Longrightarrow> 0 < b_rate b \<Longrightarrow> list_all (\<lambda>(_, amount). amount \<le> 262144) ts \<Longrightarrow>
   sorted (b_last b # map fst ts) \<Longrightarrow>
   bucket_ok (snd (run_turns ts b)) \<and>
   of_nat (fst (run_turns ts b)) + b_tokens (snd (run_turns ts b)) \<le>
     b_tokens b + secs (last (b_last b # map fst ts) - b_last b) * b_rate b + of_nat (length ts) * (b_capacity b / 2 ^ 50)"
proof (induction ts arbitrary: b)
  case Nil
  then show ?case by (simp add: secs_def)
next
  case (Cons x ts)
  obtain now amount where x: "x = (now, amount)" by (cases x)
  let ?b = "fst (acquire_turn amount now b)" and ?n = "admitted amount (snd (acquire_turn amount now b))"
  let ?stop = "last (now # map fst ts)"
  have amount: "amount \<le> 262144" and sorted: "b_last b \<le> now" "sorted (now # map fst ts)"
    using Cons.prems by (auto simp: x)
  have last: "b_last ?b = now" using Cons.prems(2) by (rule acquire_turn_last)
  have IH: "bucket_ok (snd (run_turns ts ?b)) \<and>
     of_nat (fst (run_turns ts ?b)) + b_tokens (snd (run_turns ts ?b)) \<le>
     b_tokens ?b + secs (?stop - now) * b_rate b + of_nat (length ts) * (b_capacity b / 2 ^ 50)"
    using Cons.IH [of ?b] Cons.prems sorted by (simp add: bucket_ok_acquire last x)
  have "now \<le> ?stop" using sorted(2) last_in_set [of "now # map fst ts"] by auto
  then have "secs (now - b_last b) * b_rate b + secs (?stop - now) * b_rate b = secs (?stop - b_last b) * b_rate b"
    using sorted(1) by (simp only: distrib_right [symmetric] secs_add)
  moreover have "fst (run_turns (x # ts) b) = ?n + fst (run_turns ts ?b)" "snd (run_turns (x # ts) b) = snd (run_turns ts ?b)"
    by (simp_all add: x Let_def case_prod_unfold)
  moreover have "last (b_last b # map fst (x # ts)) = ?stop" by (simp add: x)
  moreover have "of_nat (length (x # ts)) * (b_capacity b / 2 ^ 50) =
      b_capacity b / 2 ^ 50 + of_nat (length ts) * (b_capacity b / 2 ^ 50)" by (simp add: distrib_right)
  ultimately show ?case
    using IH acquire_turn_charge [OF Cons.prems(1,2) amount, of now] by (simp only: of_nat_add simp_thms) linarith
qed

subsection \<open>Properties\<close>

text \<open>C25: the speed limit is respected. Whatever connections share the limiter and whatever chunks of
  at most 256 KiB they ask for, the bytes let through up to some time are at most one bucket plus
  the rate times the elapsed time, up to a relative rounding error of \<open>2 ^ -50\<close> of the bucket per
  turn; the \<open>f64\<close> arithmetic of the bucket is taken as the processor does it.\<close>

theorem speed_limit_respected:
  assumes "bucket_ok b" and "0 < b_rate b" and "list_all (\<lambda>(_, amount). amount \<le> 262144) ts"
    and "sorted (b_last b # map fst ts)"
  shows "of_nat (fst (run_turns ts b)) \<le>
    b_capacity b * (1 + of_nat (length ts) / 2 ^ 50) + secs (last (b_last b # map fst ts) - b_last b) * b_rate b"
proof -
  have "0 \<le> b_tokens (snd (run_turns ts b))" "b_tokens b \<le> b_capacity b"
    using run_turns_charge [OF assms] assms(1) by (simp_all add: bucket_ok_def)
  moreover have "b_capacity b * (1 + of_nat (length ts) / 2 ^ 50) = b_capacity b + of_nat (length ts) * (b_capacity b / 2 ^ 50)"
    by (simp add: distrib_left)
  ultimately show ?thesis using run_turns_charge [OF assms] by linarith
qed

lemma limiter_new_1000: "bucket_ok (limiter_new 1000 0) \<and> 0 < b_rate (limiter_new 1000 0) \<and>
    b_capacity (limiter_new 1000 0) = 262144 \<and> b_rate (limiter_new 1000 0) = 1000"
  using f64_round_nat [of 1000] bucket_ok_new [of 1000 0]
  by (simp add: limiter_new_def u64_as_f64_def capacity_for_def MIN_BURST_def Let_def)

theorem speed_limit_respected_witness:
  "of_nat (fst (run_turns [(0, 262144), (1000000000, 65536)] (limiter_new 1000 0))) \<le>
    (262144 * (1 + 2 / 2 ^ 50) + 1000 :: rat)"
  using speed_limit_respected [of "limiter_new 1000 0" "[(0, 262144), (1000000000, 65536)]"] limiter_new_1000
  by (simp add: secs_def) (simp add: limiter_new_def Let_def)

lemma as_secs_f64_ge: "secs d * (1 - u53) ^ 2 \<le> as_secs_f64 d"
proof -
  let ?s = "of_nat (d div 1000000000) :: rat" and ?n = "of_nat (d mod 1000000000) / 1000000000 :: rat"
  have n: "0 \<le> ?s" "0 \<le> ?n" by simp_all
  have "secs d * (1 - u53) = ?s * (1 - u53) + ?n * (1 - u53)" by (simp only: secs_split [symmetric] distrib_right)
  also have "\<dots> \<le> f64_round ?s + f64_round ?n" by (rule add_mono [OF f64_round_ge f64_round_ge]) (use n in auto)
  finally have "secs d * (1 - u53) * (1 - u53) \<le> (f64_round ?s + f64_round ?n) * (1 - u53)"
    by (rule mult_right_mono) simp
  also have "\<dots> \<le> as_secs_f64 d"
    unfolding as_secs_f64_def by (rule f64_round_ge) (intro add_nonneg_nonneg f64_round_nonneg n)
  finally show ?thesis by (simp add: power2_eq_square mult.assoc)
qed

lemma refill_at_least:
  assumes ok: "bucket_ok b" and rate: "0 < b_rate b"
  shows "min (secs (now - b_last b) * b_rate b / 2) (b_capacity b) \<le> b_tokens (refill now b)"
proof -
  let ?X = "secs (now - b_last b) * b_rate b" and ?el = "as_secs_f64 (now - b_last b) * b_rate b"
  have X: "0 \<le> ?X" using rate by (simp add: secs_def)
  have el: "0 \<le> ?el" using rate by (simp add: as_secs_f64_nonneg)
  have "?X * (1 - u53) ^ 2 = secs (now - b_last b) * (1 - u53) ^ 2 * b_rate b" by (simp only: ac_simps)
  also have "\<dots> \<le> ?el" by (rule mult_right_mono [OF as_secs_f64_ge]) (use rate in simp)
  finally have "?X * (1 - u53) ^ 2 * (1 - u53) \<le> ?el * (1 - u53)" by (rule mult_right_mono) simp
  also have "\<dots> \<le> f64_round ?el" by (rule f64_round_ge [OF el])
  also have "\<dots> \<le> b_tokens b + f64_round ?el" using ok by (simp add: bucket_ok_def)
  finally have "?X * (1 - u53) ^ 2 * (1 - u53) * (1 - u53) \<le> (b_tokens b + f64_round ?el) * (1 - u53)"
    by (rule mult_right_mono) simp
  also have "\<dots> \<le> f64_round (b_tokens b + f64_round ?el)"
    using ok el by (intro f64_round_ge add_nonneg_nonneg f64_round_nonneg) (auto simp: bucket_ok_def)
  finally have "?X * ((1 - u53) ^ 2 * (1 - u53) * (1 - u53)) \<le> f64_round (b_tokens b + f64_round ?el)"
    by (simp only: mult.assoc)
  moreover have "?X * (1 / 2) \<le> ?X * ((1 - u53) ^ 2 * (1 - u53) * (1 - u53))"
    by (rule mult_left_mono [OF _ X]) (simp add: power2_eq_square)
  ultimately have "?X * (1 / 2) \<le> f64_round (b_tokens b + f64_round ?el)" by (rule order_trans [rotated])
  then have "?X / 2 \<le> f64_round (b_tokens b + f64_round ?el)" by simp
  then show ?thesis using rate by (simp add: refill_def Let_def min_le_iff_disj)
qed

text \<open>C37: a caller of \<open>acquire\<close> is never stuck. A turn that comes late enough after the last refill
  (twice the time the missing bytes take at the configured rate) lets the chunk through, and an
  unlimited bucket always does; a turn that does not return asks for a sleep.\<close>

theorem acquire_makes_progress:
  assumes ok: "bucket_ok b" and amount: "amount \<le> 262144"
    and late: "b_rate b = 0 \<or> 2 * of_nat amount \<le> secs (now - b_last b) * b_rate b"
  shows "snd (acquire_turn amount now b) = None"
proof (cases "0 < b_rate b")
  case False
  then show ?thesis by (simp add: acquire_turn_def)
next
  case True
  with late have "of_nat amount \<le> secs (now - b_last b) * b_rate b / 2" by simp
  moreover have "of_nat amount \<le> b_capacity b" using chunk_need [OF ok amount] by (metis min.cobounded2)
  ultimately have "of_nat amount \<le> b_tokens (refill now b)"
    using refill_at_least [OF ok True, of now] by simp
  with True show ?thesis by (simp add: acquire_turn_def Let_def chunk_need [OF ok amount])
qed

theorem acquire_makes_progress_witness:
  "snd (acquire_turn 65536 200000000000 ((limiter_new 1000 0)\<lparr>b_tokens := 0\<rparr>)) = None"
proof (rule acquire_makes_progress)
  show "bucket_ok ((limiter_new 1000 0)\<lparr>b_tokens := 0\<rparr>)"
    using limiter_new_1000 f64_round_nat [of 1000] capacity_for_ge(1) [of 1000] by (simp add: bucket_ok_def)
  show "b_rate ((limiter_new 1000 0)\<lparr>b_tokens := 0\<rparr>) = 0 \<or>
    2 * of_nat 65536 \<le> secs (200000000000 - b_last ((limiter_new 1000 0)\<lparr>b_tokens := 0\<rparr>)) *
      b_rate ((limiter_new 1000 0)\<lparr>b_tokens := 0\<rparr>)"
    using limiter_new_1000 by (simp add: secs_def) (simp add: limiter_new_def Let_def)
qed simp

end
