(* ===== verification/Bounded_Ttl_Map.thy ===== *)
theory Bounded_Ttl_Map
  imports Rust_HashMap
begin

text \<open>
  \<^verbatim>\<open>src/src/runtime/state.rs\<close>: \<open>BoundedTtlMap\<close>. An \<open>Instant\<close> is a \<open>nat\<close>; every
  operation that reads the clock takes the reading \<open>now\<close>. \<open>duration_since\<close> saturates at
  zero, as \<open>nat\<close> subtraction does.
\<close>

record 'v entry =
  e_value :: 'v
  e_last_seen :: nat

record ('k, 'v) ttl_map =
  tm_ttl :: nat
  tm_capacity :: nat
  tm_map :: "('k, 'v entry) hashmap"

definition tm_new :: "nat \<Rightarrow> nat \<Rightarrow> ('k, 'v) ttl_map" where
  "tm_new ttl capacity = \<lparr>tm_ttl = ttl, tm_capacity = max capacity 1, tm_map = []\<rparr>"

definition evict_expired :: "nat \<Rightarrow> ('k, 'v) ttl_map \<Rightarrow> ('k, 'v) ttl_map" where
  "evict_expired now m = m\<lparr>tm_map := hm_retain (\<lambda>_ e. now - e_last_seen e < tm_ttl m) (tm_map m)\<rparr>"

text \<open>\<open>iter().min_by_key(last_seen)\<close>: the first entry with the least time.\<close>

fun min_by_last_seen :: "('k, 'v entry) hashmap \<Rightarrow> ('k \<times> 'v entry) option" where
  "min_by_last_seen [] = None"
| "min_by_last_seen (x # xs) =
     (case min_by_last_seen xs of
        None \<Rightarrow> Some x
      | Some y \<Rightarrow> if e_last_seen (snd y) < e_last_seen (snd x) then Some y else Some x)"

definition evict_oldest :: "('k, 'v) ttl_map \<Rightarrow> ('k, 'v) ttl_map" where
  "evict_oldest m =
     (case min_by_last_seen (tm_map m) of
        None \<Rightarrow> m
      | Some (k, _) \<Rightarrow> m\<lparr>tm_map := hm_remove k (tm_map m)\<rparr>)"

definition tm_store :: "nat \<Rightarrow> 'k \<Rightarrow> 'v \<Rightarrow> ('k, 'v) ttl_map \<Rightarrow> ('k, 'v) ttl_map" where
  "tm_store now k v m = m\<lparr>tm_map := hm_insert k \<lparr>e_value = v, e_last_seen = now\<rparr> (tm_map m)\<rparr>"

definition touch_or_insert_with :: "nat \<Rightarrow> 'k \<Rightarrow> 'v \<Rightarrow> ('k, 'v) ttl_map \<Rightarrow> ('k, 'v) ttl_map" where
  "touch_or_insert_with now k make_value m =
     (case hm_get (tm_map m) k of
        Some e \<Rightarrow> m\<lparr>tm_map := hm_insert k (e\<lparr>e_last_seen := now\<rparr>) (tm_map m)\<rparr>
      | None \<Rightarrow>
          let m1 = evict_expired now m;
              m2 = (if tm_capacity m1 \<le> length (tm_map m1) then evict_oldest m1 else m1)
          in tm_store now k make_value m2)"

definition touch :: "nat \<Rightarrow> 'k \<Rightarrow> ('k, 'v) ttl_map \<Rightarrow> ('k, 'v) ttl_map \<times> 'v option" where
  "touch now k m =
     (case hm_get (tm_map m) k of
        Some e \<Rightarrow> (m\<lparr>tm_map := hm_insert k (e\<lparr>e_last_seen := now\<rparr>) (tm_map m)\<rparr>, Some (e_value e))
      | None \<Rightarrow> (m, None))"

definition tm_insert :: "nat \<Rightarrow> 'k \<Rightarrow> 'v \<Rightarrow> ('k, 'v) ttl_map \<Rightarrow> ('k, 'v) ttl_map" where
  "tm_insert now k v m =
     (let m1 = evict_expired now m;
          m2 = (if \<not> hm_contains (tm_map m1) k \<and> tm_capacity m1 \<le> length (tm_map m1)
                then evict_oldest m1 else m1)
      in tm_store now k v m2)"

definition tm_expire :: "nat \<Rightarrow> ('k, 'v) ttl_map \<Rightarrow> ('k, 'v) ttl_map" where
  "tm_expire now m = evict_expired now m"

definition tm_retain :: "('k \<Rightarrow> 'v \<Rightarrow> bool) \<Rightarrow> ('k, 'v) ttl_map \<Rightarrow> ('k, 'v) ttl_map" where
  "tm_retain keep m = m\<lparr>tm_map := hm_retain (\<lambda>k e. keep k (e_value e)) (tm_map m)\<rparr>"

definition tm_len :: "('k, 'v) ttl_map \<Rightarrow> nat" where
  "tm_len m = length (tm_map m)"

definition tm_values :: "('k, 'v) ttl_map \<Rightarrow> 'v list" where
  "tm_values m = map e_value (hm_values (tm_map m))"

definition tm_keys :: "('k, 'v) ttl_map \<Rightarrow> 'k list" where
  "tm_keys m = hm_keys (tm_map m)"

subsection \<open>Well-formedness\<close>

definition tm_ok :: "('k, 'v) ttl_map \<Rightarrow> bool" where
  "tm_ok m \<longleftrightarrow> hm_ok (tm_map m) \<and> 1 \<le> tm_capacity m \<and> length (tm_map m) \<le> tm_capacity m"

text \<open>The abstraction: value and time of last activity per key.\<close>

definition tm_lookup :: "('k, 'v) ttl_map \<Rightarrow> 'k \<Rightarrow> ('v \<times> nat) option" where
  "tm_lookup m k = map_option (\<lambda>e. (e_value e, e_last_seen e)) (hm_get (tm_map m) k)"

named_theorems tm_simps \<open>fields and lookups after each operation of the map\<close>

lemma tm_fields [tm_simps, simp]:
  "tm_capacity (evict_expired now m) = tm_capacity m" "tm_ttl (evict_expired now m) = tm_ttl m"
  "tm_capacity (evict_oldest m) = tm_capacity m" "tm_ttl (evict_oldest m) = tm_ttl m"
  "tm_capacity (tm_store now k v m) = tm_capacity m" "tm_ttl (tm_store now k v m) = tm_ttl m"
  "tm_capacity (tm_retain keep m) = tm_capacity m" "tm_ttl (tm_retain keep m) = tm_ttl m"
  by (simp_all add: evict_expired_def evict_oldest_def tm_store_def tm_retain_def split: option.splits)

lemma tm_fields_ops [tm_simps, simp]:
  "tm_capacity (tm_insert now k v m) = tm_capacity m" "tm_ttl (tm_insert now k v m) = tm_ttl m"
  "tm_capacity (fst (touch now k m)) = tm_capacity m" "tm_ttl (fst (touch now k m)) = tm_ttl m"
  "tm_capacity (tm_expire now m) = tm_capacity m" "tm_ttl (tm_expire now m) = tm_ttl m"
  "tm_capacity (touch_or_insert_with now k v m) = tm_capacity m"
  by (simp_all add: tm_insert_def touch_def tm_expire_def touch_or_insert_with_def Let_def split: option.splits)

lemma tm_ok_evict_expired: "tm_ok m \<Longrightarrow> tm_ok (evict_expired now m)"
  by (auto simp: tm_ok_def evict_expired_def hm_simps intro: le_trans [OF length_hm_retain_le])

lemma min_by_last_seen_Some: "m \<noteq> [] \<Longrightarrow> \<exists>x. min_by_last_seen m = Some x"
  by (cases m) (auto split: option.splits)

lemma min_by_last_seen_min:
  "min_by_last_seen m = Some x \<Longrightarrow> x \<in> set m \<and> (\<forall>y \<in> set m. e_last_seen (snd x) \<le> e_last_seen (snd y))"
proof (induction m arbitrary: x)
  case (Cons a m)
  show ?case
  proof (cases "min_by_last_seen m")
    case None
    then have "m = []" using min_by_last_seen_Some [of m] by auto
    with Cons.prems show ?thesis by simp
  next
    case (Some y)
    from Cons.IH [OF Some] Cons.prems Some show ?thesis by (fastforce split: if_splits)
  qed
qed simp

lemma hm_get_evict_expired [tm_simps]:
  "hm_ok (tm_map m) \<Longrightarrow> hm_get (tm_map (evict_expired now m)) k =
     (case hm_get (tm_map m) k of
        None \<Rightarrow> None | Some e \<Rightarrow> if now - e_last_seen e < tm_ttl m then Some e else None)"
  by (simp add: evict_expired_def hm_simps)

text \<open>What \<open>evict_oldest\<close> does to a non-empty map: one key goes, and no key was seen earlier.\<close>

lemma evict_oldest_cases:
  assumes "hm_ok (tm_map m)" "tm_map m \<noteq> []"
  obtains k e where "hm_get (tm_map m) k = Some e" "tm_map (evict_oldest m) = hm_remove k (tm_map m)"
    "length (tm_map (evict_oldest m)) = length (tm_map m) - 1"
    "\<And>j f. hm_get (tm_map m) j = Some f \<Longrightarrow> e_last_seen e \<le> e_last_seen f"
proof -
  obtain k e where x: "min_by_last_seen (tm_map m) = Some (k, e)"
    using min_by_last_seen_Some [OF assms(2)] by auto
  note min = min_by_last_seen_min [OF x]
  then have e: "hm_get (tm_map m) k = Some e" using assms(1) by (simp add: hm_mem_get)
  have rm: "tm_map (evict_oldest m) = hm_remove k (tm_map m)" by (simp add: evict_oldest_def x)
  show ?thesis
  proof (rule that [OF e rm])
    show "length (tm_map (evict_oldest m)) = length (tm_map m) - 1"
      using assms(1) e by (simp add: rm length_hm_remove hm_contains_iff)
    show "e_last_seen e \<le> e_last_seen f" if "hm_get (tm_map m) j = Some f" for j f
      using min that by (fastforce dest: hm_get_Some_mem)
  qed
qed

text \<open>The part \<open>insert\<close> and \<open>touch_or_insert_with\<close> share: make room, then store.\<close>

lemma tm_ok_make_room:
  assumes "tm_ok m"
  shows "tm_ok (evict_oldest m)" "length (tm_map (evict_oldest m)) < tm_capacity m"
proof -
  have "tm_ok (evict_oldest m) \<and> length (tm_map (evict_oldest m)) < tm_capacity m"
  proof (cases "tm_map m = []")
    case True
    then have "evict_oldest m = m" by (simp add: evict_oldest_def)
    with True assms show ?thesis by (simp add: tm_ok_def)
  next
    case False
    then have ok: "hm_ok (tm_map m)" and l: "length (tm_map m) - 1 < tm_capacity m"
      using assms False by (auto simp: tm_ok_def)
    from evict_oldest_cases [OF ok False] obtain k where
      rm: "tm_map (evict_oldest m) = hm_remove k (tm_map m)" and
      len: "length (tm_map (evict_oldest m)) = length (tm_map m) - 1" by metis
    show ?thesis using assms l by (simp add: tm_ok_def rm [symmetric] len) (simp add: rm hm_simps ok)
  qed
  then show "tm_ok (evict_oldest m)" "length (tm_map (evict_oldest m)) < tm_capacity m" by auto
qed

lemma tm_ok_store:
  "tm_ok m \<Longrightarrow> hm_contains (tm_map m) k \<or> length (tm_map m) < tm_capacity m \<Longrightarrow> tm_ok (tm_store now k v m)"
  by (auto simp: tm_ok_def tm_store_def hm_simps)

lemma tm_ok_update:
  "tm_ok m \<Longrightarrow> hm_get (tm_map m) k = Some e \<Longrightarrow> tm_ok (m\<lparr>tm_map := hm_insert k e' (tm_map m)\<rparr>)"
  by (auto simp: tm_ok_def hm_simps hm_contains_iff)

lemma tm_ok_new: "tm_ok (tm_new ttl cap)"
  by (simp add: tm_ok_def tm_new_def)

lemma tm_ok_insert: "tm_ok m \<Longrightarrow> tm_ok (tm_insert now k v m)"
  unfolding tm_insert_def Let_def
  by (rule tm_ok_store) (use tm_ok_make_room [of "evict_expired now m"] tm_ok_evict_expired [of m now] in auto)

lemma tm_ok_touch_or_insert: "tm_ok m \<Longrightarrow> tm_ok (touch_or_insert_with now k v m)"
  unfolding touch_or_insert_with_def Let_def
  using tm_ok_make_room [of "evict_expired now m"] tm_ok_evict_expired [of m now]
  by (auto split: option.splits intro: tm_ok_update tm_ok_store)

lemma tm_ok_touch: "tm_ok m \<Longrightarrow> tm_ok (fst (touch now k m))"
  by (auto simp: touch_def split: option.splits intro: tm_ok_update)

lemma tm_ok_retain: "tm_ok m \<Longrightarrow> tm_ok (tm_retain keep m)"
  by (auto simp: tm_ok_def tm_retain_def hm_simps intro: le_trans [OF length_hm_retain_le])

lemma tm_ok_expire: "tm_ok m \<Longrightarrow> tm_ok (tm_expire now m)"
  by (simp add: tm_expire_def tm_ok_evict_expired)

lemmas tm_ok_ops = tm_ok_new tm_ok_insert tm_ok_touch_or_insert tm_ok_touch tm_ok_retain tm_ok_expire

subsection \<open>Lookups\<close>

lemma tm_lookup_expire [tm_simps]:
  "tm_ok m \<Longrightarrow> tm_lookup (tm_expire now m) k =
     (case tm_lookup m k of
        None \<Rightarrow> None | Some (v, t) \<Rightarrow> if now - t < tm_ttl m then Some (v, t) else None)"
  by (simp add: tm_ok_def tm_lookup_def tm_expire_def tm_simps split: option.splits)

lemma tm_lookup_store [tm_simps]:
  "tm_lookup (tm_store now k v m) j = (if j = k then Some (v, now) else tm_lookup m j)"
  by (simp add: tm_lookup_def tm_store_def hm_simps)

lemma tm_lookup_touch [tm_simps]:
  "tm_lookup (fst (touch now k m)) j =
     (if j = k then map_option (\<lambda>(v, _). (v, now)) (tm_lookup m k) else tm_lookup m j)"
  by (simp add: tm_lookup_def touch_def hm_simps split: option.splits)

lemma touch_result [tm_simps]: "snd (touch now k m) = map_option fst (tm_lookup m k)"
  by (simp add: tm_lookup_def touch_def split: option.splits)

lemma tm_lookup_retain [tm_simps]:
  "tm_ok m \<Longrightarrow> tm_lookup (tm_retain keep m) k =
     (case tm_lookup m k of None \<Rightarrow> None | Some (v, t) \<Rightarrow> if keep k v then Some (v, t) else None)"
  by (simp add: tm_ok_def tm_lookup_def tm_retain_def hm_simps split: option.splits)

lemma tm_lookup_new [simp]: "tm_lookup (tm_new ttl cap) k = None"
  by (simp add: tm_lookup_def tm_new_def)

lemma dom_tm_lookup: "dom (tm_lookup m) = fst ` set (tm_map m)"
  by (auto simp: tm_lookup_def dom_def hm_get_def dom_map_of_conv_image_fst [symmetric])

lemma card_tm_lookup: "tm_ok m \<Longrightarrow> card (dom (tm_lookup m)) = tm_len m"
  by (simp add: dom_tm_lookup tm_len_def tm_ok_def hm_ok_def distinct_card [of "map fst (tm_map m)", simplified])

text \<open>
  \<open>insert\<close> as a change of the abstraction: either nothing was evicted beyond the expired
  entries, or the map was full of live entries and one least recently seen key gave way.
\<close>

lemma tm_insert_cases:
  assumes ok: "tm_ok m"
  obtains
    (room) "\<And>j. tm_lookup (tm_insert now k v m) j =
              (if j = k then Some (v, now) else tm_lookup (tm_expire now m) j)"
  | (evict) x w t where "tm_lookup (tm_expire now m) k = None"
      "tm_capacity m \<le> card (dom (tm_lookup (tm_expire now m)))"
      "tm_lookup (tm_expire now m) x = Some (w, t)"
      "\<And>j u s. tm_lookup (tm_expire now m) j = Some (u, s) \<Longrightarrow> t \<le> s"
      "\<And>j. tm_lookup (tm_insert now k v m) j =
         (if j = k then Some (v, now) else if j = x then None else tm_lookup (tm_expire now m) j)"
proof -
  let ?m = "tm_expire now m"
  have ok': "tm_ok ?m" by (rule tm_ok_expire [OF ok])
  show ?thesis
  proof (cases "\<not> hm_contains (tm_map ?m) k \<and> tm_capacity ?m \<le> length (tm_map ?m)")
    case False
    then have "tm_insert now k v m = tm_store now k v ?m"
      by (auto simp: tm_insert_def tm_expire_def Let_def)
    then show ?thesis by (intro room) (simp add: tm_simps)
  next
    case True
    then have ins: "tm_insert now k v m = tm_store now k v (evict_oldest ?m)"
      by (simp add: tm_insert_def tm_expire_def Let_def)
    have "tm_map ?m \<noteq> []" "hm_ok (tm_map ?m)" using True ok' by (auto simp: tm_ok_def)
    then obtain x e where x: "hm_get (tm_map ?m) x = Some e"
      "tm_map (evict_oldest ?m) = hm_remove x (tm_map ?m)"
      "\<And>j f. hm_get (tm_map ?m) j = Some f \<Longrightarrow> e_last_seen e \<le> e_last_seen f"
      by (metis evict_oldest_cases)
    show ?thesis
    proof (rule evict [of x "e_value e" "e_last_seen e"])
      show "tm_lookup ?m k = None" using True by (simp add: tm_lookup_def hm_contains_iff)
      show "tm_capacity m \<le> card (dom (tm_lookup ?m))"
        using True by (simp add: card_tm_lookup [OF ok'] tm_len_def)
      show "tm_lookup ?m x = Some (e_value e, e_last_seen e)" by (simp add: tm_lookup_def x)
      show "e_last_seen e \<le> s" if "tm_lookup ?m j = Some (u, s)" for j u s
        using that x(3) by (auto simp: tm_lookup_def)
      show "tm_lookup (tm_insert now k v m) j =
          (if j = k then Some (v, now) else if j = x then None else tm_lookup ?m j)" for j
        by (simp add: ins tm_simps) (simp add: tm_lookup_def x(2) hm_simps)
    qed
  qed
qed

subsection \<open>The interface its clients use\<close>

text \<open>
  The session tables of the UDP relay and the alive-IP and detect-log tables of the supervisor
  are clients. They rely on this: an insertion is visible at once, it never invents or alters
  another entry, expiry removes exactly the idle entries, and the size is bounded.
\<close>

locale ttl_store =
  fixes invar :: "'s \<Rightarrow> bool"
    and look :: "'s \<Rightarrow> 'k \<Rightarrow> ('v \<times> nat) option"
    and ins :: "nat \<Rightarrow> 'k \<Rightarrow> 'v \<Rightarrow> 's \<Rightarrow> 's"
    and expire :: "nat \<Rightarrow> 's \<Rightarrow> 's"
    and ttl :: "'s \<Rightarrow> nat"
    and cap :: "'s \<Rightarrow> nat"
  assumes invar_ins: "invar s \<Longrightarrow> invar (ins now k v s)"
    and invar_expire: "invar s \<Longrightarrow> invar (expire now s)"
    and look_ins: "invar s \<Longrightarrow> look (ins now k v s) k = Some (v, now)"
    and look_ins_other: "invar s \<Longrightarrow> j \<noteq> k \<Longrightarrow> look (ins now k v s) j \<in> {None, look s j}"
    and look_expire: "invar s \<Longrightarrow> look (expire now s) k =
      (case look s k of None \<Rightarrow> None | Some (v, t) \<Rightarrow> if now - t < ttl s then Some (v, t) else None)"
    and cap_ins: "cap (ins now k v s) = cap s"
    and size: "invar s \<Longrightarrow> finite (dom (look s)) \<and> card (dom (look s)) \<le> cap s"
begin

text \<open>Recording a sequence of timed observations.\<close>

definition record_all :: "(nat \<times> 'k \<times> 'v) list \<Rightarrow> 's \<Rightarrow> 's" where
  "record_all evs s = fold (\<lambda>(now, k, v). ins now k v) evs s"

lemma invar_record_all: "invar s \<Longrightarrow> invar (record_all evs s)"
  unfolding record_all_def by (induction evs arbitrary: s) (auto intro: invar_ins)

lemma record_all_sound:
  "invar s \<Longrightarrow> look (record_all evs s) k = Some (v, t) \<Longrightarrow> (t, k, v) \<in> set evs \<or> look s k = Some (v, t)"
proof (induction evs arbitrary: s)
  case (Cons ev evs)
  obtain now j w where ev: "ev = (now, j, w)" by (cases ev)
  have inv: "invar (ins now j w s)" using Cons.prems(1) by (rule invar_ins)
  have "look (record_all evs (ins now j w s)) k = Some (v, t)"
    using Cons.prems(2) by (simp add: record_all_def ev)
  from Cons.IH [OF inv this] show ?case
  proof
    assume "look (ins now j w s) k = Some (v, t)"
    then show ?thesis
      using look_ins [OF Cons.prems(1), of now j w] look_ins_other [OF Cons.prems(1), of k j now w]
      by (cases "k = j") (auto simp: ev)
  qed simp
qed (simp add: record_all_def)

lemma record_all_last: "invar s \<Longrightarrow> look (record_all (evs @ [(t, k, v)]) s) k = Some (v, t)"
  using look_ins [OF invar_record_all, of s] by (simp add: record_all_def)

lemma record_all_bounded: "invar s \<Longrightarrow> card (dom (look (record_all evs s))) \<le> cap s"
proof -
  assume "invar s"
  have "cap (record_all evs s) = cap s"
    unfolding record_all_def by (induction evs arbitrary: s) (auto simp: cap_ins)
  then show ?thesis using size [OF invar_record_all [OF \<open>invar s\<close>]] by metis
qed

lemma after_expire_fresh:
  "invar s \<Longrightarrow> look (expire now (record_all evs s)) k = Some (v, t) \<Longrightarrow>
   now - t < ttl (record_all evs s) \<and> ((t, k, v) \<in> set evs \<or> look s k = Some (v, t))"
  using record_all_sound [of s evs k v t] look_expire [OF invar_record_all, of s now evs k]
  by (auto split: option.splits if_splits)

end

interpretation tm: ttl_store tm_ok tm_lookup tm_insert tm_expire tm_ttl tm_capacity
proof unfold_locales
  fix s :: "('k, 'v) ttl_map" and now j k v
  assume ok: "tm_ok s"
  show "tm_ok (tm_insert now k v s)" "tm_ok (tm_expire now s)" using ok by (simp_all add: tm_ok_ops)
  show "tm_lookup (tm_insert now k v s) k = Some (v, now)"
    by (rule tm_insert_cases [OF ok, of now k v]) simp_all
  show "tm_lookup (tm_expire now s) k =
      (case tm_lookup s k of None \<Rightarrow> None | Some (v, t) \<Rightarrow> if now - t < tm_ttl s then Some (v, t) else None)"
    by (rule tm_lookup_expire [OF ok])
  show "finite (dom (tm_lookup s)) \<and> card (dom (tm_lookup s)) \<le> tm_capacity s"
    using ok by (simp add: card_tm_lookup) (simp add: dom_tm_lookup tm_len_def tm_ok_def)
  show "tm_lookup (tm_insert now k v s) j \<in> {None, tm_lookup s j}" if "j \<noteq> k"
  proof -
    have "tm_lookup (tm_expire now s) j \<in> {None, tm_lookup s j}"
      by (simp add: tm_lookup_expire [OF ok] split: option.splits)
    then show ?thesis using that by (rule_tac tm_insert_cases [OF ok, of now k v]) simp_all
  qed
qed simp

subsection \<open>Properties\<close>

text \<open>Every call a client can make, and a run of them.\<close>

datatype ('k, 'v) ttl_op =
    OpTouchOrInsert nat 'k 'v | OpTouch nat 'k | OpInsert nat 'k 'v | OpExpire nat
  | OpRetain "'k \<Rightarrow> 'v \<Rightarrow> bool"

fun ttl_apply :: "('k, 'v) ttl_op \<Rightarrow> ('k, 'v) ttl_map \<Rightarrow> ('k, 'v) ttl_map" where
  "ttl_apply (OpTouchOrInsert now k v) m = touch_or_insert_with now k v m"
| "ttl_apply (OpTouch now k) m = fst (touch now k m)"
| "ttl_apply (OpInsert now k v) m = tm_insert now k v m"
| "ttl_apply (OpExpire now) m = tm_expire now m"
| "ttl_apply (OpRetain keep) m = tm_retain keep m"

lemma ttl_apply_ok: "tm_ok m \<Longrightarrow> tm_ok (ttl_apply op m)"
  by (cases op) (simp_all add: tm_ok_ops)

lemma ttl_apply_capacity: "tm_capacity (ttl_apply op m) = tm_capacity m"
  by (cases op) simp_all

lemma ttl_run_ok: "tm_ok m \<Longrightarrow> tm_ok (fold ttl_apply ops m) \<and> tm_capacity (fold ttl_apply ops m) = tm_capacity m"
  by (induction ops arbitrary: m) (simp_all add: ttl_apply_ok ttl_apply_capacity)

text \<open>However the map is used, with whatever clock readings, it never holds more entries than
  the configured capacity (at least one), and it holds one entry per key.\<close>

theorem ttl_map_bounded:
  "tm_len (fold ttl_apply ops (tm_new ttl capacity)) \<le> max capacity 1 \<and>
   distinct (tm_keys (fold ttl_apply ops (tm_new ttl capacity)))"
  using ttl_run_ok [OF tm_ok_new, of ops ttl capacity]
  by (simp add: tm_ok_def tm_len_def tm_keys_def hm_keys_def hm_ok_def tm_new_def)

text \<open>In a map full of live entries, every entry is live.\<close>

lemma full_of_live_entries:
  assumes ok: "tm_ok m" and full: "tm_capacity m \<le> card (dom (tm_lookup (tm_expire now m)))"
  shows "tm_len m = tm_capacity m" and "tm_lookup (tm_expire now m) = tm_lookup m"
proof -
  let ?L = "tm_lookup (tm_expire now m)"
  have sub: "dom ?L \<subseteq> dom (tm_lookup m)"
    by (auto simp: tm_lookup_expire [OF ok] split: option.splits)
  have fin: "finite (dom (tm_lookup m))" and card: "card (dom (tm_lookup m)) \<le> tm_capacity m"
    using tm.size [OF ok] by auto
  have eq: "dom ?L = dom (tm_lookup m)"
    using card_seteq [OF fin sub] full card by simp
  with full card show "tm_len m = tm_capacity m" by (simp add: card_tm_lookup [OF ok, symmetric])
  show "?L = tm_lookup m"
  proof (rule ext)
    fix j
    have "?L j = None \<longleftrightarrow> tm_lookup m j = None" using eq by (metis domIff)
    then show "?L j = tm_lookup m j"
      by (auto simp: tm_lookup_expire [OF ok] split: option.splits if_splits)
  qed
qed



end
