(* ===== verification/Detect_Audit.thy ===== *)
theory Detect_Audit
  imports Panel Rust_Str
begin

text \<open>
  \<^verbatim>\<open>src/src/audit.rs\<close>: the bounded event channel between the relay tasks and the supervisor,
  the compiled detect rules and the scanning of upload payloads. The regular-expression engine
  is a crate: \<open>re_new\<close> (compilation, which may fail) and \<open>re_is_match\<close> are parameters. The
  \<open>watch\<close> receiver of a relay task is read at each scan, so the current rule set is an argument.
\<close>

datatype relay_event =
    Connect (ev_user_id: u64) (ev_ip: string) (ev_peer: string)
  | Detect (ev_user_id: u64) (ev_list_id: u64) (ev_ip: string)

definition EVENT_CHANNEL_CAPACITY :: nat where
  "EVENT_CHANNEL_CAPACITY = 1024"

text \<open>The channel is its queue of messages not yet received; \<open>try_send\<close> drops the message when the
  queue is full.\<close>

type_synonym channel = "relay_event list"

definition event_channel :: channel where
  "event_channel = []"

definition try_send :: "relay_event \<Rightarrow> channel \<Rightarrow> channel" where
  "try_send e q = (if length q < EVENT_CHANNEL_CAPACITY then q @ [e] else q)"

record 're compiled_rule =
  cr_id :: u64
  cr_re :: 're

definition rule_is_match :: "('re \<Rightarrow> bytes \<Rightarrow> bool) \<Rightarrow> 're compiled_rule \<Rightarrow> bytes \<Rightarrow> bool" where
  "rule_is_match re_is_match rule data = re_is_match (cr_re rule) data"

definition empty_rules :: "'re compiled_rule list" where
  "empty_rules = []"

fun compile_rules :: "(string \<Rightarrow> 're option) \<Rightarrow> detect_rule list \<Rightarrow> 're compiled_rule list" where
  "compile_rules re_new [] = []"
| "compile_rules re_new (rule # rules) =
     (if trim (dr_regex rule) = [] then compile_rules re_new rules
      else case re_new (dr_regex rule) of
             Some re \<Rightarrow> \<lparr>cr_id = dr_id rule, cr_re = re\<rparr> # compile_rules re_new rules
           | None \<Rightarrow> compile_rules re_new rules)"

definition report_connect :: "u64 \<Rightarrow> string \<Rightarrow> string \<Rightarrow> channel \<Rightarrow> channel" where
  "report_connect user_id ip peer q = try_send (Connect user_id ip peer) q"

fun scan_rules ::
  "('re \<Rightarrow> bytes \<Rightarrow> bool) \<Rightarrow> u64 \<Rightarrow> string \<Rightarrow> bytes \<Rightarrow> 're compiled_rule list \<Rightarrow> bool \<Rightarrow> channel \<Rightarrow> bool \<times> channel" where
  "scan_rules m user_id ip data [] matched q = (matched, q)"
| "scan_rules m user_id ip data (rule # rules) matched q =
     (if rule_is_match m rule data
      then scan_rules m user_id ip data rules True (try_send (Detect user_id (cr_id rule) ip) q)
      else scan_rules m user_id ip data rules matched q)"

definition scan_payload ::
  "('re \<Rightarrow> bytes \<Rightarrow> bool) \<Rightarrow> 're compiled_rule list \<Rightarrow> u64 \<Rightarrow> string \<Rightarrow> bytes \<Rightarrow> channel \<Rightarrow> bool \<times> channel" where
  "scan_payload m rules user_id ip data q =
     (if data = [] \<or> rules = [] then (False, q)
      else scan_rules m user_id ip data rules False q)"

text \<open>The per-connection auditor of the TCP path; \<open>matched\<close> is its deduplication set.\<close>

record auditor =
  au_user_id :: u64
  au_ip :: string
  au_peer :: string
  au_matched :: "u64 list"

definition auditor_new :: "u64 \<Rightarrow> string \<Rightarrow> string \<Rightarrow> auditor" where
  "auditor_new user_id ip peer = \<lparr>au_user_id = user_id, au_ip = ip, au_peer = peer, au_matched = []\<rparr>"

definition auditor_report_connect :: "auditor \<Rightarrow> channel \<Rightarrow> channel" where
  "auditor_report_connect a q = report_connect (au_user_id a) (au_ip a) (au_peer a) q"

fun auditor_rules ::
  "('re \<Rightarrow> bytes \<Rightarrow> bool) \<Rightarrow> bytes \<Rightarrow> 're compiled_rule list \<Rightarrow> bool \<Rightarrow> auditor \<Rightarrow> channel \<Rightarrow> bool \<times> auditor \<times> channel" where
  "auditor_rules m data [] matched_now a q = (matched_now, a, q)"
| "auditor_rules m data (rule # rules) matched_now a q =
     (if \<not> rule_is_match m rule data then auditor_rules m data rules matched_now a q
      else if cr_id rule \<in> set (au_matched a) then auditor_rules m data rules True a q
      else auditor_rules m data rules True (a\<lparr>au_matched := cr_id rule # au_matched a\<rparr>)
             (try_send (Detect (au_user_id a) (cr_id rule) (au_ip a)) q))"

definition auditor_scan ::
  "('re \<Rightarrow> bytes \<Rightarrow> bool) \<Rightarrow> 're compiled_rule list \<Rightarrow> bytes \<Rightarrow> auditor \<Rightarrow> channel \<Rightarrow> bool \<times> auditor \<times> channel" where
  "auditor_scan m rules data a q =
     (if data = [] then (False, a, q)
      else if rules = [] then (False, a, q)
      else auditor_rules m data rules False a q)"

subsection \<open>The channel\<close>

lemma try_send_bound: "length q \<le> EVENT_CHANNEL_CAPACITY \<Longrightarrow> length (try_send e q) \<le> EVENT_CHANNEL_CAPACITY"
  by (simp add: try_send_def)

lemma try_send_cases: "try_send e q = q \<or> try_send e q = q @ [e]"
  by (simp add: try_send_def)

subsection \<open>Scanning\<close>

lemma scan_rules_verdict:
  "fst (scan_rules m u ip data rules matched q) \<longleftrightarrow> matched \<or> list_ex (\<lambda>r. rule_is_match m r data) rules"
  by (induction m u ip data rules matched q rule: scan_rules.induct) auto

lemma auditor_rules_verdict:
  "fst (auditor_rules m data rules matched a q) \<longleftrightarrow> matched \<or> list_ex (\<lambda>r. rule_is_match m r data) rules"
  by (induction m data rules matched a q rule: auditor_rules.induct) auto

lemma auditor_scan_verdict:
  "fst (auditor_scan m rules data a q) \<longleftrightarrow> data \<noteq> [] \<and> list_ex (\<lambda>r. rule_is_match m r data) rules"
  by (auto simp: auditor_scan_def auditor_rules_verdict)

lemma scan_payload_verdict:
  "fst (scan_payload m rules u ip data q) \<longleftrightarrow> data \<noteq> [] \<and> list_ex (\<lambda>r. rule_is_match m r data) rules"
  by (auto simp: scan_payload_def scan_rules_verdict)

text \<open>A connection scans its chunks one after the other, each with the rule set then current.\<close>

fun scan_all ::
  "('re \<Rightarrow> bytes \<Rightarrow> bool) \<Rightarrow> ('re compiled_rule list \<times> bytes) list \<Rightarrow> auditor \<Rightarrow> channel \<Rightarrow> auditor \<times> channel" where
  "scan_all m [] a q = (a, q)"
| "scan_all m ((rules, data) # cs) a q =
     (let (_, a1, q1) = auditor_scan m rules data a q in scan_all m cs a1 q1)"

text \<open>What one connection adds to the queue: a suffix of Detect events of its user, each rule at
  most once and only if it matched; all of them are in the deduplication set.\<close>

definition adds :: "auditor \<Rightarrow> channel \<Rightarrow> u64 list \<Rightarrow> auditor \<Rightarrow> channel \<Rightarrow> bool" where
  "adds a q ids a' q' \<longleftrightarrow>
     q' = q @ map (\<lambda>i. Detect (au_user_id a) i (au_ip a)) ids \<and> distinct ids \<and>
     set ids \<inter> set (au_matched a) = {} \<and> set ids \<union> set (au_matched a) \<subseteq> set (au_matched a') \<and>
     au_user_id a' = au_user_id a \<and> au_ip a' = au_ip a"

lemma adds_refl: "adds a q [] a q"
  by (simp add: adds_def)

lemma adds_trans:
  assumes "adds a q is b r" "adds b r js c s"
  shows "adds a q (is @ js) c s"
proof -
  have "set is \<inter> set js = {}" "set js \<inter> set (au_matched a) = {}" "set is \<subseteq> set (au_matched c)"
    "set (au_matched a) \<subseteq> set (au_matched c)"
    using assms by (auto simp: adds_def)
  with assms show ?thesis by (simp add: adds_def Int_Un_distrib2)
qed

lemma adds_send:
  "i \<notin> set (au_matched a) \<Longrightarrow>
   adds a q (if length q < EVENT_CHANNEL_CAPACITY then [i] else []) (a\<lparr>au_matched := i # au_matched a\<rparr>)
     (try_send (Detect (au_user_id a) i (au_ip a)) q)"
  by (auto simp: adds_def try_send_def)

lemma auditor_rules_adds:
  "\<exists>ids. adds a q ids (fst (snd (auditor_rules m data rules matched a q))) (snd (snd (auditor_rules m data rules matched a q))) \<and>
     (\<forall>i \<in> set ids. \<exists>r \<in> set rules. cr_id r = i \<and> rule_is_match m r data)"
proof (induction m data rules matched a q rule: auditor_rules.induct)
  case (1 m data matched a q)
  show ?case using adds_refl by (intro exI [of _ "[]"]) simp
next
  case (2 m data rule rules matched a q)
  let ?a = "a\<lparr>au_matched := cr_id rule # au_matched a\<rparr>" and ?q = "try_send (Detect (au_user_id a) (cr_id rule) (au_ip a)) q"
  show ?case
  proof (cases "rule_is_match m rule data \<and> cr_id rule \<notin> set (au_matched a)")
    case False
    with "2.IH"(1,2) show ?thesis by (auto split: if_splits) metis+
  next
    case True
    with "2.IH"(3) obtain ids where ids: "adds ?a ?q ids (fst (snd (auditor_rules m data rules True ?a ?q)))
        (snd (snd (auditor_rules m data rules True ?a ?q)))"
      "\<forall>i \<in> set ids. \<exists>r \<in> set rules. cr_id r = i \<and> rule_is_match m r data" by auto
    let ?ids = "(if length q < EVENT_CHANNEL_CAPACITY then [cr_id rule] else []) @ ids"
    have "adds a q ?ids (fst (snd (auditor_rules m data rules True ?a ?q))) (snd (snd (auditor_rules m data rules True ?a ?q)))"
      using True by (intro adds_trans [OF adds_send ids(1)]) simp
    then show ?thesis using True ids(2) by (intro exI [of _ ?ids]) auto
  qed
qed

lemma scan_all_adds:
  "\<exists>ids. adds a q ids (fst (scan_all m cs a q)) (snd (scan_all m cs a q)) \<and>
     (\<forall>i \<in> set ids. \<exists>(rules, data) \<in> set cs. \<exists>r \<in> set rules. cr_id r = i \<and> rule_is_match m r data)"
proof (induction m cs a q rule: scan_all.induct)
  case (1 m a q)
  show ?case using adds_refl by (intro exI [of _ "[]"]) simp
next
  case (2 m rules data cs a q)
  obtain v a1 q1 where one: "auditor_scan m rules data a q = (v, a1, q1)" by (cases "auditor_scan m rules data a q")
  have "\<exists>ids. adds a q ids a1 q1 \<and> (\<forall>i \<in> set ids. \<exists>r \<in> set rules. cr_id r = i \<and> rule_is_match m r data)"
  proof (cases "data = [] \<or> rules = []")
    case True
    then have "a1 = a" "q1 = q" using one by (auto simp: auditor_scan_def split: if_splits)
    then show ?thesis using adds_refl by (intro exI [of _ "[]"]) simp
  next
    case False
    then show ?thesis using one auditor_rules_adds [of a q m data rules False] by (simp add: auditor_scan_def)
  qed
  then obtain ids where ids: "adds a q ids a1 q1" "\<forall>i \<in> set ids. \<exists>r \<in> set rules. cr_id r = i \<and> rule_is_match m r data"
    by blast
  from "2.IH" [OF one [symmetric] refl refl] obtain js where
    js: "adds a1 q1 js (fst (scan_all m cs a1 q1)) (snd (scan_all m cs a1 q1))"
    "\<forall>i \<in> set js. \<exists>(rules, data) \<in> set cs. \<exists>r \<in> set rules. cr_id r = i \<and> rule_is_match m r data" by blast
  show ?case
    using adds_trans [OF ids(1) js(1)] ids(2) js(2) by (intro exI [of _ "ids @ js"]) (auto simp: one)
qed

lemma auditor_rules_bound:
  "length q \<le> EVENT_CHANNEL_CAPACITY \<Longrightarrow>
   length (snd (snd (auditor_rules m data rules matched a q))) \<le> EVENT_CHANNEL_CAPACITY"
  by (induction m data rules matched a q rule: auditor_rules.induct) (auto simp: try_send_bound)

lemma scan_all_bound:
  "length q \<le> EVENT_CHANNEL_CAPACITY \<Longrightarrow> length (snd (scan_all m cs a q)) \<le> EVENT_CHANNEL_CAPACITY"
proof (induction m cs a q rule: scan_all.induct)
  case (2 m rules data cs a q)
  obtain v a1 q1 where one: "auditor_scan m rules data a q = (v, a1, q1)" by (cases "auditor_scan m rules data a q")
  have "length q1 \<le> EVENT_CHANNEL_CAPACITY"
    using one "2.prems" auditor_rules_bound [of q m data rules False a] by (auto simp: auditor_scan_def split: if_splits)
  with "2.IH" [OF one [symmetric] refl refl] show ?case by (simp add: one)
qed simp

subsection \<open>Properties\<close>

text \<open>The verdict on a chunk depends on the rules and the chunk alone. Both scanners answer true
  exactly when the chunk is not empty and a rule matches it, however full the event channel is and
  whatever the connection matched before, so blocking cannot be evaded by flooding the channel.\<close>

theorem scan_verdict_exact:
  "fst (auditor_scan m rules data a q) = (data \<noteq> [] \<and> list_ex (\<lambda>r. rule_is_match m r data) rules) \<and>
   fst (scan_payload m rules u ip data q) = fst (auditor_scan m rules data a q)"
  by (simp add: auditor_scan_verdict scan_payload_verdict)

text \<open>C33: over its whole life, through any sequence of chunks and rule updates, a connection appends
  to the channel only Detect events of its own user and address, at most one per rule and only for
  rules that matched one of its chunks, and the channel stays within its capacity.\<close>

theorem connection_audit_dedup:
  assumes "length q \<le> EVENT_CHANNEL_CAPACITY"
  shows "\<exists>ids. snd (scan_all m cs (auditor_new u ip peer) q) = q @ map (\<lambda>i. Detect u i ip) ids \<and>
    distinct ids \<and> length q + length ids \<le> EVENT_CHANNEL_CAPACITY \<and>
    list_all (\<lambda>i. \<exists>rules data r. (rules, data) \<in> set cs \<and> r \<in> set rules \<and> cr_id r = i \<and> rule_is_match m r data) ids"
proof -
  from scan_all_adds [of "auditor_new u ip peer" q m cs] obtain ids where
    ids: "adds (auditor_new u ip peer) q ids (fst (scan_all m cs (auditor_new u ip peer) q))
      (snd (scan_all m cs (auditor_new u ip peer) q))"
    and src: "\<forall>i \<in> set ids. \<exists>(rules, data) \<in> set cs. \<exists>r \<in> set rules. cr_id r = i \<and> rule_is_match m r data" by blast
  have q: "snd (scan_all m cs (auditor_new u ip peer) q) = q @ map (\<lambda>i. Detect u i ip) ids" "distinct ids"
    using ids by (simp_all add: adds_def auditor_new_def)
  moreover have "length q + length ids \<le> EVENT_CHANNEL_CAPACITY"
    using scan_all_bound [OF assms, of m cs "auditor_new u ip peer"] by (simp add: q)
  moreover have "list_all (\<lambda>i. \<exists>rules data r. (rules, data) \<in> set cs \<and> r \<in> set rules \<and> cr_id r = i \<and> rule_is_match m r data) ids"
    using src by (fastforce simp: list_all_iff)
  ultimately show ?thesis by blast
qed

text \<open>A matcher for witnesses: the rule is a byte string the payload has to start with.\<close>

definition prefix_match :: "bytes \<Rightarrow> bytes \<Rightarrow> bool" where
  "prefix_match p data \<longleftrightarrow> take (length p) data = p"

theorem connection_audit_dedup_witness:
  "\<exists>ids. snd (scan_all prefix_match [([\<lparr>cr_id = 5, cr_re = [1]\<rparr>], [1, 2]), ([\<lparr>cr_id = 5, cr_re = [1]\<rparr>], [1, 3])]
      (auditor_new 7 ''1.1.1.1'' ''1.1.1.1:9'') []) = [] @ map (\<lambda>i. Detect 7 i ''1.1.1.1'') ids \<and> ids = [5]"
  using connection_audit_dedup [of "[]" prefix_match
      "[([\<lparr>cr_id = 5, cr_re = [1]\<rparr>], [1, 2]), ([\<lparr>cr_id = 5, cr_re = [1]\<rparr>], [1, 3])]" 7 "''1.1.1.1''" "''1.1.1.1:9''"]
  by (simp add: auditor_scan_def auditor_new_def rule_is_match_def prefix_match_def try_send_def EVENT_CHANNEL_CAPACITY_def)

lemma set_compile_rules:
  "set (compile_rules re_new rules) =
     {\<lparr>cr_id = dr_id r, cr_re = re\<rparr> | r re. r \<in> set rules \<and> trim (dr_regex r) \<noteq> [] \<and> re_new (dr_regex r) = Some re}"
  by (induction re_new rules rule: compile_rules.induct) (auto split: option.splits)

end
