(* ===== verification/Config_Load.thy ===== *)
theory Config_Load
  imports Ssr_Session Rust_Str
begin

text \<open>
  \<^verbatim>\<open>src/src/config.rs\<close>: loading and validating a configuration. The TOML decoder is a crate;
  what it delivers for a file is an argument: per table, the fields the file has, as options.
  Filling in the defaults is what the \<open>serde\<close> attributes of the structs ask for. The process
  environment is a function from names to values, the file system one from paths to contents.
\<close>

record panel_toml =
  pt_base_url :: string
  pt_key :: string
  pt_node_id :: u64
  pt_request_timeout_secs :: "nat option"
  pt_poll_interval_secs :: "nat option"
  pt_traffic_report_interval_secs :: "nat option"
  pt_heartbeat_interval_secs :: "nat option"
  pt_ipv4_only :: "bool option"

record node_toml =
  nt_listen_host :: "string option"
  nt_method :: "string option"
  nt_protocol :: "string option"
  nt_obfs :: "string option"
  nt_server_port :: "u16 option"
  nt_timeout_secs :: "nat option"
  nt_workers :: "nat option"
  nt_tcp_enabled :: "bool option"
  nt_udp_enabled :: "bool option"
  nt_enforce_forbidden :: "bool option"
  nt_enforce_conn_limit :: "bool option"
  nt_audit_block :: "bool option"
  nt_enforce_speed :: "bool option"

record limits_toml =
  lt_max_users :: "nat option"
  lt_max_sessions :: "nat option"
  lt_session_ttl_secs :: "nat option"
  lt_max_udp_associations :: "nat option"
  lt_udp_association_ttl_secs :: "nat option"
  lt_max_alive_ips :: "nat option"
  lt_alive_ip_ttl_secs :: "nat option"
  lt_max_detect_logs :: "nat option"
  lt_detect_log_ttl_secs :: "nat option"
  lt_max_accepts_per_port :: "nat option"

definition panel_defaults :: "panel_toml \<Rightarrow> panel_config" where
  "panel_defaults t =
     \<lparr>pc_base_url = pt_base_url t, pc_key = pt_key t, pc_node_id = pt_node_id t,
      pc_request_timeout_secs = unwrap_or (pt_request_timeout_secs t) 10,
      pc_poll_interval_secs = unwrap_or (pt_poll_interval_secs t) 60,
      pc_traffic_report_interval_secs = unwrap_or (pt_traffic_report_interval_secs t) 60,
      pc_heartbeat_interval_secs = unwrap_or (pt_heartbeat_interval_secs t) 60,
      pc_ipv4_only = unwrap_or (pt_ipv4_only t) True\<rparr>"

definition node_defaults :: "node_toml \<Rightarrow> node_config" where
  "node_defaults t =
     \<lparr>nc_listen_host = unwrap_or (nt_listen_host t) ''0.0.0.0'',
      nc_method = unwrap_or (nt_method t) ''rc4-md5'',
      nc_protocol = unwrap_or (nt_protocol t) ''auth_aes128_md5'',
      nc_obfs = unwrap_or (nt_obfs t) ''plain'',
      nc_server_port = unwrap_or (nt_server_port t) 43003,
      nc_timeout_secs = unwrap_or (nt_timeout_secs t) 300,
      nc_workers = unwrap_or (nt_workers t) 1,
      nc_tcp_enabled = unwrap_or (nt_tcp_enabled t) True,
      nc_udp_enabled = unwrap_or (nt_udp_enabled t) True,
      nc_enforce_forbidden = unwrap_or (nt_enforce_forbidden t) True,
      nc_enforce_conn_limit = unwrap_or (nt_enforce_conn_limit t) True,
      nc_audit_block = unwrap_or (nt_audit_block t) True,
      nc_enforce_speed = unwrap_or (nt_enforce_speed t) True\<rparr>"

definition limits_defaults :: "limits_toml \<Rightarrow> limits_config" where
  "limits_defaults t =
     \<lparr>lc_max_users = unwrap_or (lt_max_users t) 4096,
      lc_max_sessions = unwrap_or (lt_max_sessions t) 65536,
      lc_session_ttl_secs = unwrap_or (lt_session_ttl_secs t) 600,
      lc_max_udp_associations = unwrap_or (lt_max_udp_associations t) 32768,
      lc_udp_association_ttl_secs = unwrap_or (lt_udp_association_ttl_secs t) 180,
      lc_max_alive_ips = unwrap_or (lt_max_alive_ips t) 65536,
      lc_alive_ip_ttl_secs = unwrap_or (lt_alive_ip_ttl_secs t) 600,
      lc_max_detect_logs = unwrap_or (lt_max_detect_logs t) 8192,
      lc_detect_log_ttl_secs = unwrap_or (lt_detect_log_ttl_secs t) 3600,
      lc_max_accepts_per_port = unwrap_or (lt_max_accepts_per_port t) 2048\<rparr>"

definition config_of_toml :: "panel_toml \<times> node_toml \<times> limits_toml \<Rightarrow> config" where
  "config_of_toml = (\<lambda>(p, n, l).
     \<lparr>cfg_panel = panel_defaults p, cfg_node = node_defaults n, cfg_limits = limits_defaults l\<rparr>)"

definition apply_env_overrides :: "(string \<Rightarrow> string option) \<Rightarrow> config \<Rightarrow> config" where
  "apply_env_overrides env c =
     (let p = cfg_panel c;
          p = (case env ''SSPANEL_PANEL_BASE_URL'' of Some v \<Rightarrow> p\<lparr>pc_base_url := v\<rparr> | None \<Rightarrow> p);
          p = (case env ''SSPANEL_PANEL_KEY'' of Some v \<Rightarrow> p\<lparr>pc_key := v\<rparr> | None \<Rightarrow> p);
          p = (case env ''SSPANEL_NODE_ID'' of
                 Some v \<Rightarrow> (case parse_uint (2 ^ 64 - 1) v of
                              Some n \<Rightarrow> p\<lparr>pc_node_id := word_of_nat n\<rparr>
                            | None \<Rightarrow> p)
               | None \<Rightarrow> p)
      in c\<lparr>cfg_panel := p\<rparr>)"

definition config_load ::
  "(string \<Rightarrow> string option) \<Rightarrow> (string \<Rightarrow> (panel_toml \<times> node_toml \<times> limits_toml) option) \<Rightarrow>
   (string \<Rightarrow> string option) \<Rightarrow> string \<Rightarrow> config result" where
  "config_load read_to_string from_str env path =
     (case read_to_string path of
        None \<Rightarrow> Inl (ConfigInvalid (''reading config '' @ path))
      | Some raw \<Rightarrow>
          (case from_str raw of
             None \<Rightarrow> Inl (ConfigInvalid ''parsing config TOML'')
           | Some t \<Rightarrow> Inr (apply_env_overrides env (config_of_toml t))))"

definition validate :: "config \<Rightarrow> unit result" where
  "validate c =
     (if trim (pc_base_url (cfg_panel c)) = [] then Inl (ConfigInvalid ''panel.base_url is required'')
      else if trim (pc_key (cfg_panel c)) = [] then Inl (ConfigInvalid ''panel.key is required'')
      else if nc_workers (cfg_node c) = 0 then Inl (ConfigInvalid ''node.workers must be >= 1'')
      else if nc_server_port (cfg_node c) = 0 then Inl (ConfigInvalid ''node.server_port must be >= 1'')
      else if nc_timeout_secs (cfg_node c) = 0 then Inl (ConfigInvalid ''node.timeout_secs must be >= 1'')
      else if lc_max_users (cfg_limits c) = 0 \<or> lc_max_sessions (cfg_limits c) = 0
      then Inl (ConfigInvalid ''limits.max_users and limits.max_sessions must be >= 1'')
      else case profile_new (nc_method (cfg_node c)) (nc_protocol (cfg_node c)) (nc_obfs (cfg_node c))
             (node_timeout (cfg_node c)) of
             Inl e \<Rightarrow> Inl e
           | Inr _ \<Rightarrow> Inr ())"

text \<open>\<open>tokio::time::interval\<close> panics on a zero period; \<open>BackendRuntime::run\<close> builds three.\<close>

definition interval :: "duration \<Rightarrow> duration result" where
  "interval period = (if period = 0 then Inl Panic else Inr period)"

definition run_intervals :: "panel_config \<Rightarrow> (duration \<times> duration \<times> duration) result" where
  "run_intervals p =
     (case interval (poll_interval p) of
        Inl e \<Rightarrow> Inl e
      | Inr poll \<Rightarrow>
          (case interval (traffic_report_interval p) of
             Inl e \<Rightarrow> Inl e
           | Inr traffic \<Rightarrow>
               (case interval (heartbeat_interval p) of
                  Inl e \<Rightarrow> Inl e
                | Inr heartbeat \<Rightarrow> Inr (poll, traffic, heartbeat))))"

subsection \<open>Properties\<close>

lemma validate_ok_iff:
  "validate c = Inr () \<longleftrightarrow>
     trim (pc_base_url (cfg_panel c)) \<noteq> [] \<and> trim (pc_key (cfg_panel c)) \<noteq> [] \<and> 0 < nc_workers (cfg_node c) \<and>
     nc_server_port (cfg_node c) \<noteq> 0 \<and> 0 < nc_timeout_secs (cfg_node c) \<and>
     0 < lc_max_users (cfg_limits c) \<and> 0 < lc_max_sessions (cfg_limits c) \<and>
     (\<exists>pf. profile_new (nc_method (cfg_node c)) (nc_protocol (cfg_node c)) (nc_obfs (cfg_node c))
        (node_timeout (cfg_node c)) = Inr pf)"
  by (auto simp: validate_def split: sum.split)

text \<open>With a validated configuration, every panel row that leaves method, protocol and obfs to
  the node gets a profile, so no such user is skipped at synchronisation, and that profile carries
  a timeout of at least one second.\<close>

theorem validated_config_serves_default_rows:
  assumes "validate c = Inr ()" and "pu_method u = None" and "pu_protocol u = None" and "pu_obfs u = None"
  shows "\<exists>pf. profile_from_user u (cfg_node c) = Inr pf \<and> duration_secs 1 \<le> pf_timeout pf"
proof -
  from assms(1) obtain pf where pf: "profile_new (nc_method (cfg_node c)) (nc_protocol (cfg_node c))
      (nc_obfs (cfg_node c)) (node_timeout (cfg_node c)) = Inr pf" and t: "0 < nc_timeout_secs (cfg_node c)"
    unfolding validate_ok_iff by blast
  from pf have "pf_timeout pf = node_timeout (cfg_node c)"
    by (auto simp: profile_new_def Let_def split: sum.splits)
  with t have "duration_secs 1 \<le> pf_timeout pf" by (simp add: node_timeout_def duration_secs_def)
  with pf assms(2-4) show ?thesis by (simp add: profile_from_user_def)
qed

text \<open>The smallest configuration file.\<close>

definition minimal_toml :: "string \<Rightarrow> string \<Rightarrow> u64 \<Rightarrow> panel_toml \<times> node_toml \<times> limits_toml" where
  "minimal_toml url key node =
    (\<lparr>pt_base_url = url, pt_key = key, pt_node_id = node, pt_request_timeout_secs = None, pt_poll_interval_secs = None,
      pt_traffic_report_interval_secs = None, pt_heartbeat_interval_secs = None, pt_ipv4_only = None\<rparr>,
     \<lparr>nt_listen_host = None, nt_method = None, nt_protocol = None, nt_obfs = None, nt_server_port = None,
      nt_timeout_secs = None, nt_workers = None, nt_tcp_enabled = None, nt_udp_enabled = None,
      nt_enforce_forbidden = None, nt_enforce_conn_limit = None, nt_audit_block = None, nt_enforce_speed = None\<rparr>,
     \<lparr>lt_max_users = None, lt_max_sessions = None, lt_session_ttl_secs = None, lt_max_udp_associations = None,
      lt_udp_association_ttl_secs = None, lt_max_alive_ips = None, lt_alive_ip_ttl_secs = None,
      lt_max_detect_logs = None, lt_detect_log_ttl_secs = None, lt_max_accepts_per_port = None\<rparr>)"

text \<open>A file with only the three mandatory panel settings loads, and the loaded configuration
  validates exactly when the URL and the key in force, after the environment overrides, are not
  blank; its intervals are not zero.\<close>

theorem minimal_config_loads:
  "config_load (\<lambda>_. Some raw) (\<lambda>_. Some (minimal_toml url key node)) env path =
     Inr (apply_env_overrides env (config_of_toml (minimal_toml url key node))) \<and>
   (validate (apply_env_overrides env (config_of_toml (minimal_toml url key node))) = Inr () \<longleftrightarrow>
     trim (unwrap_or (env ''SSPANEL_PANEL_BASE_URL'') url) \<noteq> [] \<and> trim (unwrap_or (env ''SSPANEL_PANEL_KEY'') key) \<noteq> []) \<and>
   run_intervals (cfg_panel (apply_env_overrides env (config_of_toml (minimal_toml url key node)))) =
     Inr (duration_secs 60, duration_secs 60, duration_secs 60)"
proof -
  let ?c = "apply_env_overrides env (config_of_toml (minimal_toml url key node))"
  have p: "pc_base_url (cfg_panel ?c) = unwrap_or (env ''SSPANEL_PANEL_BASE_URL'') url"
    "pc_key (cfg_panel ?c) = unwrap_or (env ''SSPANEL_PANEL_KEY'') key"
    "pc_poll_interval_secs (cfg_panel ?c) = 60" "pc_traffic_report_interval_secs (cfg_panel ?c) = 60"
    "pc_heartbeat_interval_secs (cfg_panel ?c) = 60"
    "cfg_node ?c = node_defaults (fst (snd (minimal_toml url key node)))"
    "cfg_limits ?c = limits_defaults (snd (snd (minimal_toml url key node)))"
    by (simp_all add: apply_env_overrides_def config_of_toml_def panel_defaults_def minimal_toml_def Let_def
        split: option.split)
  have "\<exists>pf. profile_new ''rc4-md5'' ''auth_aes128_md5'' ''plain'' t = Inr pf" for t
    by (simp add: profile_new_def ensure_supported_def from_method_def Let_def to_ascii_lowercase_def ascii_lower_def code_def)
  then have "validate ?c = Inr () \<longleftrightarrow>
     trim (unwrap_or (env ''SSPANEL_PANEL_BASE_URL'') url) \<noteq> [] \<and> trim (unwrap_or (env ''SSPANEL_PANEL_KEY'') key) \<noteq> []"
    by (simp add: validate_ok_iff p) (simp add: minimal_toml_def node_defaults_def limits_defaults_def)
  moreover have "run_intervals (cfg_panel ?c) = Inr (duration_secs 60, duration_secs 60, duration_secs 60)"
    by (simp add: run_intervals_def interval_def poll_interval_def traffic_report_interval_def heartbeat_interval_def
        p duration_secs_def)
  ultimately show ?thesis by (simp add: config_load_def)
qed

theorem validated_config_serves_default_rows_witness:
  "\<exists>pf. profile_from_user \<lparr>pu_id = 1, pu_user_id = None, pu_port = 558, pu_password = ''x'', pu_method = None,
     pu_protocol = None, pu_protocol_param = None, pu_obfs = None, pu_obfs_param = None,
     pu_enable = None, pu_is_multi_user = 0, pu_node_speedlimit = None, pu_node_connector = None,
     pu_forbidden_ip = None, pu_forbidden_port = None\<rparr>
     (cfg_node (config_of_toml (minimal_toml ''u'' ''k'' 3))) = Inr pf \<and> duration_secs 1 \<le> pf_timeout pf"
proof (rule validated_config_serves_default_rows)
  have "trim ''u'' = ''u''" "trim ''k'' = ''k''" by (simp_all add: trim_solid solid_def ws1_def code_def)
  then show "validate (config_of_toml (minimal_toml ''u'' ''k'' 3)) = Inr ()"
    by (simp add: validate_ok_iff config_of_toml_def minimal_toml_def panel_defaults_def node_defaults_def
        limits_defaults_def profile_new_def ensure_supported_def from_method_def Let_def
        to_ascii_lowercase_def ascii_lower_def code_def)
qed simp_all


end
