(* ===== verification/Supervisor.thy ===== *)
theory Supervisor
  imports Panel_Client Conn_Ledger Rate_Limiter Bounded_Ttl_Map Policy Detect_Audit Config_Load
begin

text \<open>
  \<^verbatim>\<open>src/src/runtime/supervisor.rs\<close> and \<^verbatim>\<open>src/src/user_tables.rs\<close>: \<open>BackendRuntime\<close>. Its
  methods run one after the other on the run loop, so each is a function on the state; what the
  panel answers during a call is the \<open>web\<close> argument and a clock reading is \<open>now\<close>. The two
  \<open>watch\<close> channels are the values last published. Spawning and stopping listener tasks is
  recorded in the state as a log of actions; a task is the arguments it was spawned with.
\<close>

record user_tables =
  ut_auth_users :: "(u64, bytes) hashmap"
  ut_counters_by_user :: "(u64, nat) hashmap"
  ut_conns_by_user :: "(u64, nat) hashmap"
  ut_speeds_by_user :: "(u64, nat) hashmap"
  ut_policies :: "(u64, user_policy) hashmap"

record user_fingerprint =
  fp_port :: u16
  fp_password :: string
  fp_profile :: profile
  fp_is_multi_user :: int

record tcp_task =
  tt_listen_host :: string
  tt_user_id :: u64
  tt_port :: u16
  tt_password :: string
  tt_profile :: profile
  tt_enforcement :: enforcement_config
  tt_is_multi_user :: int
  tt_max_accepts :: nat

record udp_task =
  ud_listen_host :: string
  ud_user_id :: u64
  ud_port :: u16
  ud_password :: string
  ud_profile :: profile
  ud_enforcement :: enforcement_config
  ud_is_multi_user :: int
  ud_association_ttl :: duration
  ud_max_associations :: nat

record active_user =
  act_fingerprint :: user_fingerprint
  act_tcp :: "tcp_task option"
  act_udp :: "udp_task option"

datatype action = SpawnTcp tcp_task | SpawnUdp udp_task | StopTcp tcp_task | StopUdp udp_task

record alive_ip_key =
  ak_user_id :: u64
  ak_ip :: string

record detect_log_key =
  dk_user_id :: u64
  dk_list_id :: u64
  dk_ip :: string

record session_key =
  sk_user_id :: u64
  sk_peer :: string

record 're backend =
  br_config :: config
  br_traffic :: traffic_ledger
  br_conns :: conn_ledger
  br_speeds :: speed_ledger
  br_active_users :: "(u16, active_user) hashmap"
  br_sessions :: "(session_key, unit) ttl_map"
  br_alive_ips :: "(alive_ip_key, unit) ttl_map"
  br_detect_logs :: "(detect_log_key, detect_log_report) ttl_map"
  br_started_at :: nat
  br_events :: channel
  br_detect_rules :: "'re compiled_rule list"
  br_user_tables :: user_tables
  br_log :: "action list"

definition tables_default :: user_tables where
  "tables_default = \<lparr>ut_auth_users = [], ut_counters_by_user = [], ut_conns_by_user = [],
     ut_speeds_by_user = [], ut_policies = []\<rparr>"

definition backend_new :: "config \<Rightarrow> nat \<Rightarrow> 're backend" where
  "backend_new c now =
     \<lparr>br_config = c, br_traffic = traffic_default, br_conns = conn_default, br_speeds = speed_default,
      br_active_users = [],
      br_sessions = tm_new (session_ttl (cfg_limits c)) (lc_max_sessions (cfg_limits c)),
      br_alive_ips = tm_new (alive_ip_ttl (cfg_limits c)) (lc_max_alive_ips (cfg_limits c)),
      br_detect_logs = tm_new (detect_log_ttl (cfg_limits c)) (lc_max_detect_logs (cfg_limits c)),
      br_started_at = now, br_events = event_channel, br_detect_rules = empty_rules,
      br_user_tables = tables_default, br_log = []\<rparr>"

subsection \<open>Listeners\<close>

definition active_stop :: "active_user \<Rightarrow> action list" where
  "active_stop a =
     (case act_tcp a of Some t \<Rightarrow> [StopTcp t] | None \<Rightarrow> []) @ (case act_udp a of Some t \<Rightarrow> [StopUdp t] | None \<Rightarrow> [])"

definition fingerprint_of :: "panel_user \<Rightarrow> profile \<Rightarrow> user_fingerprint" where
  "fingerprint_of user pf =
     \<lparr>fp_port = pu_port user, fp_password = pu_password user, fp_profile = pf,
      fp_is_multi_user = pu_is_multi_user user\<rparr>"

definition enforcement_of :: "node_config \<Rightarrow> enforcement_config" where
  "enforcement_of n =
     \<lparr>ec_forbidden = nc_enforce_forbidden n, ec_conn_limit = nc_enforce_conn_limit n,
      ec_audit_block = nc_audit_block n, ec_speed = nc_enforce_speed n\<rparr>"

definition spawn_tcp :: "config \<Rightarrow> panel_user \<Rightarrow> profile \<Rightarrow> tcp_task" where
  "spawn_tcp c user pf =
     \<lparr>tt_listen_host = nc_listen_host (cfg_node c), tt_user_id = panel_user_id user, tt_port = pu_port user,
      tt_password = pu_password user, tt_profile = pf, tt_enforcement = enforcement_of (cfg_node c),
      tt_is_multi_user = pu_is_multi_user user, tt_max_accepts = max (lc_max_accepts_per_port (cfg_limits c)) 1\<rparr>"

definition spawn_udp :: "config \<Rightarrow> panel_user \<Rightarrow> profile \<Rightarrow> udp_task" where
  "spawn_udp c user pf =
     \<lparr>ud_listen_host = nc_listen_host (cfg_node c), ud_user_id = panel_user_id user, ud_port = pu_port user,
      ud_password = pu_password user, ud_profile = pf, ud_enforcement = enforcement_of (cfg_node c),
      ud_is_multi_user = pu_is_multi_user user, ud_association_ttl = udp_association_ttl (cfg_limits c),
      ud_max_associations = max (lc_max_udp_associations (cfg_limits c)) 1\<rparr>"

definition ensure_active_user :: "panel_user \<Rightarrow> profile \<Rightarrow> 're backend \<Rightarrow> 're backend" where
  "ensure_active_user user pf b =
     (let fingerprint = fingerprint_of user pf; port = pu_port user; c = br_config b in
      if (case hm_get (br_active_users b) port of
            Some active \<Rightarrow> act_fingerprint active = fingerprint | None \<Rightarrow> False)
      then b
      else
        let stops = (case hm_get (br_active_users b) port of Some active \<Rightarrow> active_stop active | None \<Rightarrow> []);
            tcp = (if nc_tcp_enabled (cfg_node c) then Some (spawn_tcp c user pf) else None);
            udp = (if nc_udp_enabled (cfg_node c) then Some (spawn_udp c user pf) else None);
            spawns = (case tcp of Some t \<Rightarrow> [SpawnTcp t] | None \<Rightarrow> []) @ (case udp of Some t \<Rightarrow> [SpawnUdp t] | None \<Rightarrow> [])
        in b\<lparr>br_active_users := hm_insert port \<lparr>act_fingerprint = fingerprint, act_tcp = tcp, act_udp = udp\<rparr>
               (hm_remove port (br_active_users b)),
             br_log := br_log b @ stops @ spawns\<rparr>)"

definition carrier_config_matches :: "panel_user \<Rightarrow> panel_user \<Rightarrow> bool" where
  "carrier_config_matches a b \<longleftrightarrow>
     pu_port a = pu_port b \<and> pu_password a = pu_password b \<and> pu_method a = pu_method b \<and>
     pu_protocol a = pu_protocol b \<and> pu_protocol_param a = pu_protocol_param b \<and> pu_obfs a = pu_obfs b \<and>
     pu_obfs_param a = pu_obfs_param b \<and> pu_is_multi_user a = pu_is_multi_user b"

text \<open>Both branches for a port already present keep the first row; they differ in the log message.\<close>

fun merge_by_port :: "panel_user list \<Rightarrow> (u16, panel_user) hashmap \<Rightarrow> (u16, panel_user) hashmap" where
  "merge_by_port [] by_port = by_port"
| "merge_by_port (user # rows) by_port =
     (case hm_get by_port (pu_port user) of
        Some existing \<Rightarrow>
          if carrier_config_matches existing user then merge_by_port rows by_port
          else merge_by_port rows by_port
      | None \<Rightarrow> merge_by_port rows (hm_insert (pu_port user) user by_port))"

definition merge_carrier_users :: "panel_user list \<Rightarrow> panel_user list" where
  "merge_carrier_users rows = hm_values (merge_by_port rows [])"

definition listener_users :: "panel_user list \<Rightarrow> panel_user list" where
  "listener_users rows =
     (if list_ex (\<lambda>u. pu_is_multi_user u \<noteq> 0) rows
      then merge_carrier_users (filter (\<lambda>u. pu_is_multi_user u \<noteq> 0) rows)
      else filter (\<lambda>u. pu_is_multi_user u = 0) rows)"

fun sync_listeners :: "panel_user list \<Rightarrow> u16 list \<Rightarrow> 're backend \<Rightarrow> u16 list \<times> 're backend" where
  "sync_listeners [] live_ports b = (live_ports, b)"
| "sync_listeners (user # rows) live_ports b =
     (case profile_from_user user (cfg_node (br_config b)) of
        Inl _ \<Rightarrow> sync_listeners rows live_ports b
      | Inr pf \<Rightarrow> sync_listeners rows (pu_port user # live_ports) (ensure_active_user user pf b))"

fun stop_ports :: "u16 list \<Rightarrow> 're backend \<Rightarrow> 're backend" where
  "stop_ports [] b = b"
| "stop_ports (port # ports) b =
     (case hm_get (br_active_users b) port of
        None \<Rightarrow> stop_ports ports b
      | Some active \<Rightarrow>
          stop_ports ports (b\<lparr>br_active_users := hm_remove port (br_active_users b),
                              br_log := br_log b @ active_stop active\<rparr>))"

definition stop_stale_ports :: "u16 list \<Rightarrow> 're backend \<Rightarrow> 're backend" where
  "stop_stale_ports live_ports b =
     stop_ports (filter (\<lambda>port. port \<notin> set live_ports) (hm_keys (br_active_users b))) b"

subsection \<open>Synchronisation\<close>

text \<open>One row of the table-building loop.\<close>

definition sync_row :: "'cc crypto \<Rightarrow> nat \<Rightarrow> panel_user \<Rightarrow> user_tables \<times> 're backend \<Rightarrow> user_tables \<times> 're backend" where
  "sync_row C now user = (\<lambda>(t, b).
     (let uid = panel_user_id user;
          (traffic, counters) = traffic_ensure_user uid (br_traffic b);
          (conns, ips) = conn_ensure_user uid (br_conns b);
          policy = policy_from_user user;
          (speeds, rl) = speed_ensure_user uid (up_speed_limit_bps policy, now) (br_speeds b);
          t = t\<lparr>ut_counters_by_user := hm_insert uid counters (ut_counters_by_user t),
                ut_conns_by_user := hm_insert uid ips (ut_conns_by_user t),
                ut_speeds_by_user := hm_insert uid rl (ut_speeds_by_user t)\<rparr>;
          t = (if needs_connection_policy policy
               then t\<lparr>ut_policies := hm_insert uid policy (ut_policies t)\<rparr> else t);
          t = (if pu_is_multi_user user = 0
               then t\<lparr>ut_auth_users := hm_insert uid (derive_user_auth_key C (pu_password user)) (ut_auth_users t)\<rparr>
               else t)
      in (t, b\<lparr>br_traffic := traffic, br_conns := conns, br_speeds := speeds\<rparr>)))"

definition drop_stale_users :: "u64 set \<Rightarrow> 're backend \<Rightarrow> 're backend" where
  "drop_stale_users live b =
     b\<lparr>br_traffic := traffic_remove_stale_users live (br_traffic b),
       br_conns := conn_remove_stale_users live (br_conns b),
       br_speeds := speed_remove_stale_users live (br_speeds b),
       br_sessions := tm_retain (\<lambda>k _. sk_user_id k \<in> live) (br_sessions b),
       br_alive_ips := tm_retain (\<lambda>k _. ak_user_id k \<in> live) (br_alive_ips b),
       br_detect_logs := tm_retain (\<lambda>k _. dk_user_id k \<in> live) (br_detect_logs b)\<rparr>"

definition apply_users :: "'cc crypto \<Rightarrow> nat \<Rightarrow> panel_user list \<Rightarrow> 're backend \<Rightarrow> 're backend" where
  "apply_users C now rows b =
     (let live_user_ids = panel_user_id ` set rows;
          (tables, b) = fold (sync_row C now) rows (tables_default, b);
          b = b\<lparr>br_user_tables := tables\<rparr>;
          (live_ports, b) = sync_listeners (listener_users rows) [] b;
          b = stop_stale_ports live_ports b
      in drop_stale_users live_user_ids b)"

definition sync_users :: "'cc crypto \<Rightarrow> 'j web \<Rightarrow> nat \<Rightarrow> 're backend \<Rightarrow> 're backend \<times> unit result" where
  "sync_users C w now b =
     (case panel_users w (pc_node_id (cfg_panel (br_config b))) of
        Inl e \<Rightarrow> (b, Inl e)
      | Inr rows \<Rightarrow>
          if lc_max_users (cfg_limits (br_config b)) < length rows
          then (b, Inl (TooManyUsers (length rows) (lc_max_users (cfg_limits (br_config b)))))
          else (apply_users C now rows b, Inr ()))"

subsection \<open>Reports and events\<close>

definition report_traffic :: "'j web \<Rightarrow> 're backend \<Rightarrow> 're backend \<times> unit result" where
  "report_traffic w b =
     (let deltas = pending_deltas (br_traffic b) in
      if deltas = [] then (b, Inr ())
      else case panel_report_traffic w (pc_node_id (cfg_panel (br_config b))) deltas of
             Inl e \<Rightarrow> (b, Inl e)
           | Inr _ \<Rightarrow> (b\<lparr>br_traffic := mark_reported deltas (br_traffic b)\<rparr>, Inr ()))"

definition report_heartbeat :: "'j web \<Rightarrow> nat \<Rightarrow> 're backend \<Rightarrow> unit result" where
  "report_heartbeat w now b =
     panel_report_node_info w (pc_node_id (cfg_panel (br_config b))) ''0.00 0.00 0.00''
       ((now - br_started_at b) div 1000000000)"

definition alive_reports :: "'re backend \<Rightarrow> alive_ip_report list" where
  "alive_reports b = map (\<lambda>k. \<lparr>ai_user_id = ak_user_id k, ai_ip = ak_ip k\<rparr>) (tm_keys (br_alive_ips b))"

definition report_auxiliary_state :: "'j web \<Rightarrow> 're backend \<Rightarrow> 're backend \<times> unit result" where
  "report_auxiliary_state w b =
     (let node_id = pc_node_id (cfg_panel (br_config b)) in
      case panel_report_alive_ips w node_id (alive_reports b) of
        Inl e \<Rightarrow> (b, Inl e)
      | Inr _ \<Rightarrow>
          let b = b\<lparr>br_alive_ips := tm_retain (\<lambda>_ _. False) (br_alive_ips b)\<rparr>;
              detect_logs = tm_values (br_detect_logs b)
          in if detect_logs = [] then (b, Inr ())
             else case panel_report_detect_logs w node_id detect_logs of
                    Inl e \<Rightarrow> (b, Inl e)
                  | Inr _ \<Rightarrow> (b\<lparr>br_detect_logs := tm_retain (\<lambda>_ _. False) (br_detect_logs b)\<rparr>, Inr ()))"

fun record_event :: "nat \<Rightarrow> relay_event \<Rightarrow> 're backend \<Rightarrow> 're backend" where
  "record_event now (Connect uid ip peer) b =
     b\<lparr>br_sessions := tm_insert now \<lparr>sk_user_id = uid, sk_peer = peer\<rparr> () (br_sessions b),
       br_alive_ips := tm_insert now \<lparr>ak_user_id = uid, ak_ip = ip\<rparr> () (br_alive_ips b)\<rparr>"
| "record_event now (Detect uid lid ip) b =
     b\<lparr>br_detect_logs := tm_insert now \<lparr>dk_user_id = uid, dk_list_id = lid, dk_ip = ip\<rparr>
         \<lparr>dl_user_id = uid, dl_list_id = lid\<rparr> (br_detect_logs b)\<rparr>"

definition refresh_detect_rules :: "(string \<Rightarrow> 're option) \<Rightarrow> 'j web \<Rightarrow> 're backend \<Rightarrow> 're backend" where
  "refresh_detect_rules re_new w b =
     (case panel_detect_rules w of
        Inl _ \<Rightarrow> b
      | Inr rules \<Rightarrow> b\<lparr>br_detect_rules := compile_rules re_new rules\<rparr>)"

definition expire_local_state :: "nat \<Rightarrow> 're backend \<Rightarrow> 're backend" where
  "expire_local_state now b =
     b\<lparr>br_sessions := tm_expire now (br_sessions b),
       br_alive_ips := tm_expire now (br_alive_ips b),
       br_detect_logs := tm_expire now (br_detect_logs b)\<rparr>"

definition stop_all :: "'re backend \<Rightarrow> 're backend" where
  "stop_all b =
     b\<lparr>br_active_users := [], br_log := br_log b @ concat (map active_stop (hm_values (br_active_users b)))\<rparr>"

subsection \<open>The run loop\<close>

text \<open>One arm of the \<open>select!\<close>: what woke the loop, with the panel's answers and clock readings.
  Errors are logged and the loop goes on. \<open>Relay\<close> and \<open>Count\<close> are what relay tasks do to the
  shared state in between: an event offered to the channel, bytes counted.\<close>

datatype 'j wakeup =
    Event nat
  | Poll "'j web" nat
  | Traffic_Tick "'j web"
  | Heartbeat "'j web" nat
  | Relay relay_event
  | Count direction nat u64

fun run_turn :: "'cc crypto \<Rightarrow> (string \<Rightarrow> 're option) \<Rightarrow> 'j wakeup \<Rightarrow> 're backend \<Rightarrow> 're backend" where
  "run_turn C re_new (Event now) b =
     (case br_events b of
        [] \<Rightarrow> b
      | e # es \<Rightarrow> record_event now e (b\<lparr>br_events := es\<rparr>))"
| "run_turn C re_new (Poll w now) b =
     expire_local_state now (refresh_detect_rules re_new w (fst (sync_users C w now b)))"
| "run_turn C re_new (Traffic_Tick w) b = fst (report_auxiliary_state w (fst (report_traffic w b)))"
| "run_turn C re_new (Heartbeat w now) b = b"
| "run_turn C re_new (Relay e) b = b\<lparr>br_events := try_send e (br_events b)\<rparr>"
| "run_turn C re_new (Count dir p n) b = b\<lparr>br_traffic := count_bytes dir p n (br_traffic b)\<rparr>"

text \<open>\<open>BackendRuntime::run\<close> until a shutdown signal: the first synchronisation has to succeed and
  the timers have to be valid; the panel probes only log.\<close>

definition backend_run ::
  "'cc crypto \<Rightarrow> (string \<Rightarrow> 're option) \<Rightarrow> 'j web \<Rightarrow> nat \<Rightarrow> 'j wakeup list \<Rightarrow> 're backend \<Rightarrow> 're backend \<times> unit result" where
  "backend_run C re_new w now turns b =
     (case sync_users C w now (refresh_detect_rules re_new w b) of
        (b, Inl e) \<Rightarrow> (b, Inl e)
      | (b, Inr _) \<Rightarrow>
          (case run_intervals (cfg_panel (br_config b)) of
             Inl e \<Rightarrow> (b, Inl e)
           | Inr _ \<Rightarrow> (stop_all (fold (run_turn C re_new) turns b), Inr ())))"

end
