(* ===== verification/Supervisor_Props.thy ===== *)
theory Supervisor_Props
  imports Supervisor
begin

text \<open>
  What the supervisor guarantees: which listeners run after a synchronisation and when they are
  left alone, what the published tables contain, that per-user objects survive from poll to poll,
  that its state stays within the configured bounds, and what is reported to the panel.
\<close>

named_theorems sv_simps \<open>fields of the backend that an operation leaves alone\<close>

subsection \<open>Listeners\<close>

lemma ensure_active_user_fields [sv_simps]:
  "br_config (ensure_active_user u pf b) = br_config b" "br_traffic (ensure_active_user u pf b) = br_traffic b"
  "br_conns (ensure_active_user u pf b) = br_conns b" "br_speeds (ensure_active_user u pf b) = br_speeds b"
  "br_sessions (ensure_active_user u pf b) = br_sessions b" "br_alive_ips (ensure_active_user u pf b) = br_alive_ips b"
  "br_detect_logs (ensure_active_user u pf b) = br_detect_logs b" "br_events (ensure_active_user u pf b) = br_events b"
  "br_user_tables (ensure_active_user u pf b) = br_user_tables b"
  by (simp_all add: ensure_active_user_def Let_def)

text \<open>The task records a listener is expected to have.\<close>

definition active_for :: "config \<Rightarrow> user_fingerprint \<Rightarrow> active_user \<Rightarrow> bool" where
  "active_for c fp a \<longleftrightarrow> act_fingerprint a = fp \<and>
     (case act_tcp a of
        None \<Rightarrow> \<not> nc_tcp_enabled (cfg_node c)
      | Some t \<Rightarrow> nc_tcp_enabled (cfg_node c) \<and> tt_port t = fp_port fp \<and> tt_password t = fp_password fp \<and>
          tt_profile t = fp_profile fp \<and> tt_is_multi_user t = fp_is_multi_user fp) \<and>
     (case act_udp a of
        None \<Rightarrow> \<not> nc_udp_enabled (cfg_node c)
      | Some t \<Rightarrow> nc_udp_enabled (cfg_node c) \<and> ud_port t = fp_port fp \<and> ud_password t = fp_password fp \<and>
          ud_profile t = fp_profile fp \<and> ud_is_multi_user t = fp_is_multi_user fp)"

definition active_ok :: "'re backend \<Rightarrow> bool" where
  "active_ok b \<longleftrightarrow> hm_ok (br_active_users b) \<and>
     list_all (\<lambda>(port, a). fp_port (act_fingerprint a) = port \<and> active_for (br_config b) (act_fingerprint a) a)
       (br_active_users b)"

lemma active_ok_get:
  "active_ok b \<Longrightarrow> hm_get (br_active_users b) port = Some a \<Longrightarrow>
   fp_port (act_fingerprint a) = port \<and> active_for (br_config b) (act_fingerprint a) a"
  by (auto simp: active_ok_def list_all_iff dest!: hm_get_Some_mem)

lemma active_ok_intro:
  assumes "hm_ok (br_active_users b)"
    and "\<And>port a. hm_get (br_active_users b) port = Some a \<Longrightarrow>
      fp_port (act_fingerprint a) = port \<and> active_for (br_config b) (act_fingerprint a) a"
  shows "active_ok b"
  using assms by (auto simp: active_ok_def list_all_iff hm_mem_get)

lemma ensure_active_user_running:
  assumes "active_ok b"
  shows "\<exists>a. hm_get (br_active_users (ensure_active_user u pf b)) (pu_port u) = Some a \<and>
    active_for (br_config b) (fingerprint_of u pf) a"
proof (cases "\<exists>a. hm_get (br_active_users b) (pu_port u) = Some a \<and> act_fingerprint a = fingerprint_of u pf")
  case True
  then obtain a where "hm_get (br_active_users b) (pu_port u) = Some a" "act_fingerprint a = fingerprint_of u pf" by blast
  with active_ok_get [OF assms this(1)] show ?thesis by (simp add: ensure_active_user_def Let_def)
next
  case False
  then have "\<not> (case hm_get (br_active_users b) (pu_port u) of
      Some active \<Rightarrow> act_fingerprint active = fingerprint_of u pf | None \<Rightarrow> False)" by (auto split: option.splits)
  then show ?thesis
    by (simp add: ensure_active_user_def Let_def hm_simps active_for_def spawn_tcp_def spawn_udp_def)
      (simp add: fingerprint_of_def)
qed

lemma ensure_active_user_other:
  "port \<noteq> pu_port u \<Longrightarrow> hm_get (br_active_users (ensure_active_user u pf b)) port = hm_get (br_active_users b) port"
  by (simp add: ensure_active_user_def Let_def hm_simps)

lemma active_ok_ensure: "active_ok b \<Longrightarrow> active_ok (ensure_active_user u pf b)"
proof (rule active_ok_intro)
  assume ok: "active_ok b"
  then show "hm_ok (br_active_users (ensure_active_user u pf b))"
    by (simp add: active_ok_def ensure_active_user_def Let_def hm_simps)
  fix port a
  assume a: "hm_get (br_active_users (ensure_active_user u pf b)) port = Some a"
  show "fp_port (act_fingerprint a) = port \<and> active_for (br_config (ensure_active_user u pf b)) (act_fingerprint a) a"
  proof (cases "port = pu_port u")
    case True
    with a ensure_active_user_running [OF ok, of u pf] show ?thesis
      by (auto simp: sv_simps active_for_def fingerprint_of_def)
  next
    case False
    with a active_ok_get [OF ok] show ?thesis by (simp add: ensure_active_user_other sv_simps)
  qed
qed

text \<open>A row asks for a listener when its profile is supported.\<close>

definition wants :: "node_config \<Rightarrow> panel_user \<Rightarrow> user_fingerprint option" where
  "wants n u = (case profile_from_user u n of Inl _ \<Rightarrow> None | Inr pf \<Rightarrow> Some (fingerprint_of u pf))"

lemma sync_listeners_facts:
  "active_ok b \<Longrightarrow> distinct (map pu_port rows) \<Longrightarrow>
   (let (live, b') = sync_listeners rows lp b in
      active_ok b' \<and> br_config b' = br_config b \<and>
      set live = set lp \<union> {pu_port u | u. u \<in> set rows \<and> wants (cfg_node (br_config b)) u \<noteq> None} \<and>
      (\<forall>u fp. u \<in> set rows \<longrightarrow> wants (cfg_node (br_config b)) u = Some fp \<longrightarrow>
         (\<exists>a. hm_get (br_active_users b') (pu_port u) = Some a \<and> act_fingerprint a = fp)) \<and>
      (\<forall>port. port \<notin> pu_port ` set rows \<longrightarrow> hm_get (br_active_users b') port = hm_get (br_active_users b) port))"
proof (induction rows arbitrary: lp b)
  case (Cons u rows)
  let ?n = "cfg_node (br_config b)"
  show ?case
  proof (cases "profile_from_user u ?n")
    case (Inl e)
    then have w: "wants ?n u = None" by (simp add: wants_def)
    show ?thesis using Cons.IH [OF Cons.prems(1), of lp] Cons.prems(2) Inl w
      by (auto simp: Let_def case_prod_unfold)
  next
    case (Inr pf)
    let ?b = "ensure_active_user u pf b"
    have w: "wants ?n u = Some (fingerprint_of u pf)" using Inr by (simp add: wants_def)
    obtain a where a: "hm_get (br_active_users ?b) (pu_port u) = Some a" "act_fingerprint a = fingerprint_of u pf"
      using ensure_active_user_running [OF Cons.prems(1), of u pf] by (auto simp: active_for_def)
    have u: "pu_port u \<notin> pu_port ` set rows" using Cons.prems(2) by simp
    note IH = Cons.IH [OF active_ok_ensure [OF Cons.prems(1)], of "pu_port u # lp" u pf]
    show ?thesis using IH Cons.prems(2) Inr w a u
      by (auto simp: Let_def case_prod_unfold sv_simps ensure_active_user_other)
  qed
qed simp

text \<open>A listener whose fingerprint is already running is left alone.\<close>

lemma sync_listeners_idle:
  assumes "\<And>u fp. u \<in> set rows \<Longrightarrow> wants (cfg_node (br_config b)) u = Some fp \<Longrightarrow>
      \<exists>a. hm_get (br_active_users b) (pu_port u) = Some a \<and> act_fingerprint a = fp"
  shows "snd (sync_listeners rows lp b) = b"
  using assms
proof (induction rows arbitrary: lp)
  case (Cons u rows)
  show ?case
  proof (cases "profile_from_user u (cfg_node (br_config b))")
    case (Inl e)
    with Cons show ?thesis by simp
  next
    case (Inr pf)
    then have "ensure_active_user u pf b = b"
      using Cons.prems [of u "fingerprint_of u pf"] by (auto simp: wants_def ensure_active_user_def Let_def)
    with Inr Cons show ?thesis by simp
  qed
qed simp

lemma stop_ports_get:
  "hm_get (br_active_users (stop_ports ports b)) port =
     (if port \<in> set ports then None else hm_get (br_active_users b) port) \<and>
   (hm_ok (br_active_users b) \<longrightarrow> hm_ok (br_active_users (stop_ports ports b))) \<and>
   br_config (stop_ports ports b) = br_config b"
  by (induction ports b rule: stop_ports.induct) (auto simp: hm_simps split: option.splits)

lemma stop_ports_fields [sv_simps]:
  "br_traffic (stop_ports ports b) = br_traffic b" "br_conns (stop_ports ports b) = br_conns b"
  "br_speeds (stop_ports ports b) = br_speeds b" "br_sessions (stop_ports ports b) = br_sessions b"
  "br_alive_ips (stop_ports ports b) = br_alive_ips b" "br_detect_logs (stop_ports ports b) = br_detect_logs b"
  "br_events (stop_ports ports b) = br_events b" "br_user_tables (stop_ports ports b) = br_user_tables b"
  "br_config (stop_ports ports b) = br_config b"
  by (induction ports b rule: stop_ports.induct) (auto split: option.splits)

lemma sync_listeners_fields [sv_simps]:
  "br_traffic (snd (sync_listeners rows lp b)) = br_traffic b" "br_conns (snd (sync_listeners rows lp b)) = br_conns b"
  "br_speeds (snd (sync_listeners rows lp b)) = br_speeds b" "br_sessions (snd (sync_listeners rows lp b)) = br_sessions b"
  "br_alive_ips (snd (sync_listeners rows lp b)) = br_alive_ips b"
  "br_detect_logs (snd (sync_listeners rows lp b)) = br_detect_logs b"
  "br_events (snd (sync_listeners rows lp b)) = br_events b"
  "br_user_tables (snd (sync_listeners rows lp b)) = br_user_tables b"
  "br_config (snd (sync_listeners rows lp b)) = br_config b"
  by (induction rows arbitrary: lp b) (auto simp: sv_simps split: sum.splits)

lemma active_ok_stop: "active_ok b \<Longrightarrow> active_ok (stop_ports ports b)"
proof (rule active_ok_intro)
  assume ok: "active_ok b"
  then show "hm_ok (br_active_users (stop_ports ports b))" using stop_ports_get [of ports b] by (simp add: active_ok_def)
  fix port a
  assume "hm_get (br_active_users (stop_ports ports b)) port = Some a"
  then have "hm_get (br_active_users b) port = Some a" using stop_ports_get [of ports b port] by (simp split: if_splits)
  with active_ok_get [OF ok this] show "fp_port (act_fingerprint a) = port \<and>
      active_for (br_config (stop_ports ports b)) (act_fingerprint a) a" by (simp add: sv_simps)
qed

lemma stop_stale_get:
  "hm_get (br_active_users (stop_stale_ports live b)) port =
     (if port \<in> set live then hm_get (br_active_users b) port else None)"
  using stop_ports_get [of _ b port] by (auto simp: stop_stale_ports_def set_hm_keys split: if_splits)

lemma stop_stale_idle:
  assumes "\<And>port. hm_get (br_active_users b) port \<noteq> None \<Longrightarrow> port \<in> set live"
  shows "stop_stale_ports live b = b"
proof -
  have "filter (\<lambda>port. port \<notin> set live) (hm_keys (br_active_users b)) = []"
    using assms by (auto simp: filter_empty_conv set_hm_keys)
  then show ?thesis by (simp add: stop_stale_ports_def)
qed

subsection \<open>Which rows get a listener\<close>

lemma merge_by_port_facts:
  "hm_ok m \<Longrightarrow> list_all (\<lambda>(p, u). pu_port u = p) m \<Longrightarrow>
   hm_ok (merge_by_port rows m) \<and> list_all (\<lambda>(p, u). pu_port u = p) (merge_by_port rows m) \<and>
   (\<forall>port. hm_get (merge_by_port rows m) port =
      (case hm_get m port of Some u \<Rightarrow> Some u | None \<Rightarrow> find (\<lambda>u. pu_port u = port) rows))"
proof (induction rows m rule: merge_by_port.induct)
  case (1 m)
  then show ?case by (auto split: option.split)
next
  case (2 user rows m)
  show ?case
  proof (cases "hm_get m (pu_port user)")
    case (Some x)
    have "hm_ok (merge_by_port rows m) \<and> list_all (\<lambda>(p, u). pu_port u = p) (merge_by_port rows m) \<and>
      (\<forall>port. hm_get (merge_by_port rows m) port =
        (case hm_get m port of Some u \<Rightarrow> Some u | None \<Rightarrow> find (\<lambda>u. pu_port u = port) rows))"
      using "2.IH"(2,3) [OF Some _ "2.prems"] by blast
    then show ?thesis using Some by (auto split: option.splits)
  next
    case None
    have keys: "list_all (\<lambda>(p, u). pu_port u = p) (hm_insert (pu_port user) user m)"
      using "2.prems"(2) by (induction m) (auto split: if_splits)
    have ok: "hm_ok (hm_insert (pu_port user) user m)" using "2.prems"(1) by (simp add: hm_simps)
    show ?thesis using "2.IH"(1) [OF None ok keys] None by (auto simp: hm_simps split: option.splits)
  qed
qed

text \<open>\<open>merge_carrier_users\<close> keeps the first row of each port.\<close>

lemma merge_carrier_users_spec:
  "distinct (map pu_port (merge_carrier_users rows)) \<and>
   (u \<in> set (merge_carrier_users rows) \<longleftrightarrow> find (\<lambda>v. pu_port v = pu_port u) rows = Some u)"
proof -
  let ?m = "merge_by_port rows []"
  have ok: "hm_ok ?m" and keys: "list_all (\<lambda>(p, u). pu_port u = p) ?m"
    and get: "hm_get ?m port = find (\<lambda>u. pu_port u = port) rows" for port
    using merge_by_port_facts [of "[]" rows] by simp_all
  have ports: "map pu_port (hm_values ?m) = map fst ?m"
    using keys by (auto simp: hm_values_def list_all_iff)
  have "u \<in> set (hm_values ?m) \<longleftrightarrow> (pu_port u, u) \<in> set ?m"
    using keys by (force simp: hm_values_def list_all_iff)
  then show ?thesis using ok get by (simp add: merge_carrier_users_def ports hm_mem_get) (simp add: hm_ok_def)
qed

lemma sync_row_fields [sv_simps]:
  "br_config (snd (sync_row C now u tb)) = br_config (snd tb)"
  "br_active_users (snd (sync_row C now u tb)) = br_active_users (snd tb)"
  "br_sessions (snd (sync_row C now u tb)) = br_sessions (snd tb)"
  "br_alive_ips (snd (sync_row C now u tb)) = br_alive_ips (snd tb)"
  "br_detect_logs (snd (sync_row C now u tb)) = br_detect_logs (snd tb)"
  "br_events (snd (sync_row C now u tb)) = br_events (snd tb)"
  "br_log (snd (sync_row C now u tb)) = br_log (snd tb)"
  "br_traffic (snd (sync_row C now u tb)) = fst (traffic_ensure_user (panel_user_id u) (br_traffic (snd tb)))"
  "br_conns (snd (sync_row C now u tb)) = fst (conn_ensure_user (panel_user_id u) (br_conns (snd tb)))"
  "br_speeds (snd (sync_row C now u tb)) =
     fst (speed_ensure_user (panel_user_id u) (up_speed_limit_bps (policy_from_user u), now) (br_speeds (snd tb)))"
  by (simp_all add: sync_row_def Let_def case_prod_unfold)

lemma sync_rows_fields [sv_simps]:
  "br_config (snd (fold (sync_row C now) rows tb)) = br_config (snd tb)"
  "br_active_users (snd (fold (sync_row C now) rows tb)) = br_active_users (snd tb)"
  "br_sessions (snd (fold (sync_row C now) rows tb)) = br_sessions (snd tb)"
  "br_alive_ips (snd (fold (sync_row C now) rows tb)) = br_alive_ips (snd tb)"
  "br_detect_logs (snd (fold (sync_row C now) rows tb)) = br_detect_logs (snd tb)"
  "br_events (snd (fold (sync_row C now) rows tb)) = br_events (snd tb)"
  "br_log (snd (fold (sync_row C now) rows tb)) = br_log (snd tb)"
  by (induction rows arbitrary: tb) (simp_all add: sv_simps)

lemma sync_rows_ledgers:
  "br_traffic (snd (fold (sync_row C now) rows tb)) =
     traffic.ensure_all (map (\<lambda>u. (panel_user_id u, ())) rows) (br_traffic (snd tb))"
  "br_conns (snd (fold (sync_row C now) rows tb)) =
     conns.ensure_all (map (\<lambda>u. (panel_user_id u, ())) rows) (br_conns (snd tb))"
  "br_speeds (snd (fold (sync_row C now) rows tb)) =
     speeds.ensure_all (map (\<lambda>u. (panel_user_id u, (up_speed_limit_bps (policy_from_user u), now))) rows) (br_speeds (snd tb))"
  unfolding traffic.ensure_all_def conns.ensure_all_def speeds.ensure_all_def
  by (induction rows arbitrary: tb) (simp_all add: sv_simps)

text \<open>The state in which the listeners are synchronised.\<close>

definition tabled :: "'cc crypto \<Rightarrow> nat \<Rightarrow> panel_user list \<Rightarrow> 're backend \<Rightarrow> 're backend" where
  "tabled C now rows b =
     (snd (fold (sync_row C now) rows (tables_default, b)))
       \<lparr>br_user_tables := fst (fold (sync_row C now) rows (tables_default, b))\<rparr>"

lemma tabled_fields [sv_simps]:
  "br_config (tabled C now rows b) = br_config b" "br_active_users (tabled C now rows b) = br_active_users b"
  "br_log (tabled C now rows b) = br_log b" "br_sessions (tabled C now rows b) = br_sessions b"
  "br_alive_ips (tabled C now rows b) = br_alive_ips b" "br_detect_logs (tabled C now rows b) = br_detect_logs b"
  "br_events (tabled C now rows b) = br_events b"
  by (simp_all add: tabled_def sv_simps)

definition listened :: "panel_user list \<Rightarrow> 're backend \<Rightarrow> 're backend" where
  "listened rows b =
     (let (live, b') = sync_listeners (listener_users rows) [] b in stop_stale_ports live b')"

lemma apply_users_split:
  "apply_users C now rows b = drop_stale_users (panel_user_id ` set rows) (listened rows (tabled C now rows b))"
  by (simp add: apply_users_def listened_def tabled_def Let_def case_prod_unfold)

lemma listened_fields [sv_simps]:
  "br_config (listened rows b) = br_config b" "br_traffic (listened rows b) = br_traffic b"
  "br_conns (listened rows b) = br_conns b" "br_speeds (listened rows b) = br_speeds b"
  "br_sessions (listened rows b) = br_sessions b" "br_alive_ips (listened rows b) = br_alive_ips b"
  "br_detect_logs (listened rows b) = br_detect_logs b" "br_events (listened rows b) = br_events b"
  "br_user_tables (listened rows b) = br_user_tables b"
  by (simp_all add: listened_def Let_def case_prod_unfold stop_stale_ports_def sv_simps)

lemma drop_stale_fields [sv_simps]:
  "br_config (drop_stale_users live b) = br_config b" "br_active_users (drop_stale_users live b) = br_active_users b"
  "br_log (drop_stale_users live b) = br_log b" "br_user_tables (drop_stale_users live b) = br_user_tables b"
  "br_events (drop_stale_users live b) = br_events b"
  by (simp_all add: drop_stale_users_def)

lemma active_ok_cong:
  "br_active_users b' = br_active_users b \<Longrightarrow> br_config b' = br_config b \<Longrightarrow> active_ok b' = active_ok b"
  by (simp add: active_ok_def)

text \<open>The listeners after a synchronisation, when the rows that get one have distinct ports.\<close>

lemma listened_spec:
  assumes ok: "active_ok b" and ports: "distinct (map pu_port (listener_users rows))"
  shows "active_ok (listened rows b) \<and>
    (\<forall>port. map_option act_fingerprint (hm_get (br_active_users (listened rows b)) port) =
       (case find (\<lambda>u. pu_port u = port) (listener_users rows) of
          None \<Rightarrow> None | Some u \<Rightarrow> wants (cfg_node (br_config b)) u))"
proof -
  let ?L = "listener_users rows" and ?n = "cfg_node (br_config b)"
  obtain live b' where s: "sync_listeners ?L [] b = (live, b')" by (cases "sync_listeners ?L [] b")
  have facts: "active_ok b'" "set live = {pu_port u | u. u \<in> set ?L \<and> wants ?n u \<noteq> None}"
    "\<And>u fp. u \<in> set ?L \<Longrightarrow> wants ?n u = Some fp \<Longrightarrow>
       \<exists>a. hm_get (br_active_users b') (pu_port u) = Some a \<and> act_fingerprint a = fp"
    using sync_listeners_facts [OF ok ports, of "[]"] by (simp_all add: s)
  have l: "listened rows b = stop_stale_ports live b'" by (simp add: listened_def s)
  have "map_option act_fingerprint (hm_get (br_active_users (listened rows b)) port) =
       (case find (\<lambda>u. pu_port u = port) ?L of None \<Rightarrow> None | Some u \<Rightarrow> wants ?n u)" for port
  proof (cases "find (\<lambda>u. pu_port u = port) ?L")
    case None
    then have "port \<notin> set live" using facts(2) by (auto simp: find_None_iff)
    with None show ?thesis by (simp add: l stop_stale_get)
  next
    case (Some u)
    then have u: "u \<in> set ?L" "pu_port u = port" by (auto simp: find_Some_iff)
    have only: "v = u" if "v \<in> set ?L" "pu_port v = port" for v
      using ports that u by (auto simp: distinct_map dest: inj_onD)
    show ?thesis
    proof (cases "wants ?n u")
      case None
      then have "port \<notin> set live" using facts(2) only by auto
      with None Some show ?thesis by (simp add: l stop_stale_get)
    next
      case (Some fp)
      then have "port \<in> set live" using facts(2) u by auto
      with facts(3) [OF u(1) Some] u(2) Some \<open>find _ _ = Some u\<close> show ?thesis
        by (auto simp: l stop_stale_get)
    qed
  qed
  moreover have "active_ok (listened rows b)"
    unfolding l stop_stale_ports_def by (rule active_ok_stop [OF facts(1)])
  ultimately show ?thesis by blast
qed

subsection \<open>The ledgers across a poll\<close>

abbreviation row_ids :: "panel_user list \<Rightarrow> u64 set" where
  "row_ids rows \<equiv> panel_user_id ` set rows"

lemma apply_users_ledgers:
  "br_traffic (apply_users C now rows b) = traffic.poll (map (\<lambda>u. (panel_user_id u, ())) rows) (br_traffic b)"
  "br_conns (apply_users C now rows b) = conns.poll (map (\<lambda>u. (panel_user_id u, ())) rows) (br_conns b)"
  "br_speeds (apply_users C now rows b) =
     speeds.poll (map (\<lambda>u. (panel_user_id u, (up_speed_limit_bps (policy_from_user u), now))) rows) (br_speeds b)"
  unfolding apply_users_split traffic.poll_def conns.poll_def speeds.poll_def drop_stale_users_def
  by (simp_all add: sv_simps tabled_def sync_rows_ledgers image_image)

definition ledgers_ok :: "'re backend \<Rightarrow> bool" where
  "ledgers_ok b \<longleftrightarrow> traffic_ok (br_traffic b) \<and> conn_ok (br_conns b) \<and> speed_ok (br_speeds b)"

lemma ledgers_ok_apply: "ledgers_ok b \<Longrightarrow> ledgers_ok (apply_users C now rows b)"
  by (simp add: ledgers_ok_def apply_users_ledgers traffic.invar_poll conns.invar_poll speeds.invar_poll)

text \<open>Sample data: a node with default settings, a carrier row on port 1000 and an ordinary row.\<close>

definition sample_config :: config where
  "sample_config = config_of_toml (minimal_toml ''u'' ''k'' 3)"

definition sample_user :: "u64 \<Rightarrow> u16 \<Rightarrow> int \<Rightarrow> panel_user" where
  "sample_user uid port multi =
     \<lparr>pu_id = uid, pu_user_id = None, pu_port = port, pu_password = ''pw'', pu_method = None,
      pu_protocol = None, pu_protocol_param = None, pu_obfs = None, pu_obfs_param = None,
      pu_enable = Some 1, pu_is_multi_user = multi, pu_node_speedlimit = None, pu_node_connector = None,
      pu_forbidden_ip = None, pu_forbidden_port = None\<rparr>"

definition sample_backend :: "unit backend" where
  "sample_backend = (backend_new sample_config 0)\<lparr>br_traffic := fst (traffic_ensure_user 7 traffic_default),
     br_conns := fst (conn_ensure_user 7 conn_default), br_speeds := fst (speed_ensure_user 7 (0, 0) speed_default)\<rparr>"

definition sample_web :: "panel_user list \<Rightarrow> panel_user list web" where
  "sample_web rows =
     \<lparr>w_get = (\<lambda>_ _. Inr rows), w_post = (\<lambda>_ _ _. Inr []),
      w_envelope = (\<lambda>v. Some \<lparr>ar_ret = 1, ar_msg = None, ar_data = Some v\<rparr>), w_is_null = (\<lambda>_. False),
      w_users = Some, w_rules = (\<lambda>_. Some []), w_traffic_body = (\<lambda>_. []), w_alive_body = (\<lambda>_. []),
      w_detect_body = (\<lambda>_. []), w_node_body = (\<lambda>_ _. [])\<rparr>"

lemma sample_ids [simp]: "panel_user_id (sample_user uid port multi) = uid"
  "pu_port (sample_user uid port multi) = port" "pu_is_multi_user (sample_user uid port multi) = multi"
  "pu_password (sample_user uid port multi) = ''pw''"
  by (simp_all add: sample_user_def panel_user_id_def)

lemma ledgers_ok_samples: "ledgers_ok sample_backend" "ledgers_ok (backend_new c now)"
  using traffic.invar_ensure [OF traffic_ok_default, of 7] conns.invar_ensure [OF conn_ok_default, of 7]
    speeds.invar_ensure [OF speed_ok_default, of 7 "(0, 0)"]
  by (simp_all add: sample_backend_def backend_new_def ledgers_ok_def traffic_ok_default conn_ok_default speed_ok_default)

lemma active_ok_new: "active_ok (backend_new c now)"
  by (simp add: active_ok_def backend_new_def)

text \<open>C34: an unchanged user keeps its counters, its set of connected addresses and its rate limiter
  from poll to poll, whatever happens to other users: as long as every poll names the user, the
  three ledgers keep handing out the same objects.\<close>

theorem per_user_state_survives_polls:
  assumes ok: "ledgers_ok b" and named: "list_all (\<lambda>(_, rows). uid \<in> row_ids rows) polls"
    and p: "traffic_ptr (br_traffic b) uid = Some p" and q: "conn_ptr (br_conns b) uid = Some q"
    and r: "speed_ptr (br_speeds b) uid = Some r" and b': "b' = fold (\<lambda>(now, rows). apply_users C now rows) polls b"
  shows "traffic_ptr (br_traffic b') uid = Some p \<and> conn_ptr (br_conns b') uid = Some q \<and>
    speed_ptr (br_speeds b') uid = Some r"
  unfolding b' using ok named p q r
proof (induction polls arbitrary: b)
  case (Cons x polls)
  obtain now rows where x: "x = (now, rows)" by (cases x)
  let ?b = "apply_users C now rows b"
  have uid: "uid \<in> row_ids rows" using Cons.prems(2) by (simp add: x)
  have inv: "traffic_ok (br_traffic b)" "conn_ok (br_conns b)" "speed_ok (br_speeds b)"
    using Cons.prems(1) by (simp_all add: ledgers_ok_def)
  have "traffic_ptr (br_traffic ?b) uid = Some p"
    unfolding apply_users_ledgers using uid by (intro traffic.ptr_poll_stable [OF inv(1) Cons.prems(3)]) (simp add: image_image)
  moreover have "conn_ptr (br_conns ?b) uid = Some q"
    unfolding apply_users_ledgers using uid by (intro conns.ptr_poll_stable [OF inv(2) Cons.prems(4)]) (simp add: image_image)
  moreover have "speed_ptr (br_speeds ?b) uid = Some r"
    unfolding apply_users_ledgers using uid by (intro speeds.ptr_poll_stable [OF inv(3) Cons.prems(5)]) (simp add: image_image)
  ultimately show ?case using Cons.IH [of ?b] Cons.prems(2) ledgers_ok_apply [OF Cons.prems(1), of C now rows]
    by (simp add: x)
qed simp

theorem per_user_state_survives_polls_witness:
  "\<exists>b'. b' = fold (\<lambda>(now, rows). apply_users sample_crypto now rows)
      [(1, [sample_user 7 1001 0, sample_user 8 1002 0]), (2, [sample_user 7 1001 0])] sample_backend \<and>
     traffic_ptr (br_traffic b') 7 = Some 0 \<and> conn_ptr (br_conns b') 7 = Some 0 \<and> speed_ptr (br_speeds b') 7 = Some 0"
proof -
  have "traffic_ptr (br_traffic sample_backend) 7 = Some 0" "conn_ptr (br_conns sample_backend) 7 = Some 0"
    "speed_ptr (br_speeds sample_backend) 7 = Some 0"
    by (simp_all add: sample_backend_def backend_new_def traffic_ensure_user_def traffic_default_def traffic_ptr_def
        conn_ensure_user_def conn_default_def conn_ptr_def speed_ensure_user_def speed_default_def speed_ptr_def hm_get_def)
  note p = per_user_state_survives_polls [OF ledgers_ok_samples(1) _ this refl]
  show ?thesis by (rule exI, rule conjI [OF refl], rule p) simp
qed

subsection \<open>The published tables\<close>

lemma sync_row_tables:
  "hm_get (ut_auth_users (fst (sync_row C now u tb))) uid =
     (if panel_user_id u = uid \<and> pu_is_multi_user u = 0 then Some (derive_user_auth_key C (pu_password u))
      else hm_get (ut_auth_users (fst tb)) uid)"
  "hm_get (ut_policies (fst (sync_row C now u tb))) uid =
     (if panel_user_id u = uid \<and> needs_connection_policy (policy_from_user u) then Some (policy_from_user u)
      else hm_get (ut_policies (fst tb)) uid)"
  "hm_get (ut_counters_by_user (fst (sync_row C now u tb))) uid =
     (if panel_user_id u = uid then Some (snd (traffic_ensure_user uid (br_traffic (snd tb))))
      else hm_get (ut_counters_by_user (fst tb)) uid)"
  "hm_get (ut_conns_by_user (fst (sync_row C now u tb))) uid =
     (if panel_user_id u = uid then Some (snd (conn_ensure_user uid (br_conns (snd tb))))
      else hm_get (ut_conns_by_user (fst tb)) uid)"
  "hm_get (ut_speeds_by_user (fst (sync_row C now u tb))) uid =
     (if panel_user_id u = uid
      then Some (snd (speed_ensure_user uid (up_speed_limit_bps (policy_from_user u), now) (br_speeds (snd tb))))
      else hm_get (ut_speeds_by_user (fst tb)) uid)"
  by (auto simp: sync_row_def Let_def case_prod_unfold hm_simps)

lemma sync_rows_auth:
  "hm_get (ut_auth_users (fst (fold (sync_row C now) rows (tables_default, b)))) uid =
     map_option (\<lambda>u. derive_user_auth_key C (pu_password u))
       (find (\<lambda>u. panel_user_id u = uid \<and> pu_is_multi_user u = 0) (rev rows))"
  "hm_get (ut_policies (fst (fold (sync_row C now) rows (tables_default, b)))) uid =
     map_option policy_from_user
       (find (\<lambda>u. panel_user_id u = uid \<and> needs_connection_policy (policy_from_user u)) (rev rows))"
  by (induction rows rule: rev_induct) (simp_all add: sync_row_tables tables_default_def)

lemma sync_rows_arcs:
  assumes ok: "ledgers_ok b"
  shows "ledgers_ok (snd (fold (sync_row C now) rows (tables_default, b))) \<and>
    hm_get (ut_counters_by_user (fst (fold (sync_row C now) rows (tables_default, b)))) uid =
      (if uid \<in> row_ids rows then traffic_ptr (br_traffic (snd (fold (sync_row C now) rows (tables_default, b)))) uid else None) \<and>
    hm_get (ut_conns_by_user (fst (fold (sync_row C now) rows (tables_default, b)))) uid =
      (if uid \<in> row_ids rows then conn_ptr (br_conns (snd (fold (sync_row C now) rows (tables_default, b)))) uid else None) \<and>
    hm_get (ut_speeds_by_user (fst (fold (sync_row C now) rows (tables_default, b)))) uid =
      (if uid \<in> row_ids rows then speed_ptr (br_speeds (snd (fold (sync_row C now) rows (tables_default, b)))) uid else None)"
proof (induction rows rule: rev_induct)
  case Nil
  then show ?case using ok by (simp add: tables_default_def)
next
  case (snoc u rows)
  let ?tb = "fold (sync_row C now) rows (tables_default, b)"
  have inv: "traffic_ok (br_traffic (snd ?tb))" "conn_ok (br_conns (snd ?tb))" "speed_ok (br_speeds (snd ?tb))"
    using snoc by (simp_all add: ledgers_ok_def)
  note ens = traffic.ptr_ensure [OF inv(1)] conns.ptr_ensure [OF inv(2)] speeds.ptr_ensure [OF inv(3)]
  note inv' = traffic.invar_ensure [OF inv(1)] conns.invar_ensure [OF inv(2)] speeds.invar_ensure [OF inv(3)]
  show ?case using snoc inv' by (auto simp: sync_row_tables sv_simps ens ledgers_ok_def)
qed

text \<open>C26: after a synchronisation the tables every listener reads agree with the panel's list and
  with the ledgers. A user id is in the authentication table exactly when an ordinary row carries
  it, under the key of the last such row; its policy is that of the last row with a
  connection-time control; counters, address set and rate limiter are the objects of the ledgers,
  present exactly for the ids of the list.\<close>

theorem published_tables_exact:
  assumes ok: "ledgers_ok b" and b': "b' = apply_users C now rows b"
  shows "hm_get (ut_auth_users (br_user_tables b')) uid =
      map_option (\<lambda>u. derive_user_auth_key C (pu_password u))
        (find (\<lambda>u. panel_user_id u = uid \<and> pu_is_multi_user u = 0) (rev rows)) \<and>
    hm_get (ut_policies (br_user_tables b')) uid =
      map_option policy_from_user
        (find (\<lambda>u. panel_user_id u = uid \<and> needs_connection_policy (policy_from_user u)) (rev rows)) \<and>
    hm_get (ut_counters_by_user (br_user_tables b')) uid = traffic_ptr (br_traffic b') uid \<and>
    hm_get (ut_conns_by_user (br_user_tables b')) uid = conn_ptr (br_conns b') uid \<and>
    hm_get (ut_speeds_by_user (br_user_tables b')) uid = speed_ptr (br_speeds b') uid \<and>
    (traffic_ptr (br_traffic b') uid \<noteq> None \<longleftrightarrow> uid \<in> row_ids rows)"
proof -
  let ?tb = "fold (sync_row C now) rows (tables_default, b)"
  have t: "br_user_tables b' = fst ?tb" by (simp add: b' apply_users_split sv_simps tabled_def)
  note arcs = sync_rows_arcs [OF ok, of C now rows uid]
  then have inv: "traffic_ok (br_traffic (snd ?tb))" "conn_ok (br_conns (snd ?tb))" "speed_ok (br_speeds (snd ?tb))"
    by (simp_all add: ledgers_ok_def)
  have ptrs: "traffic_ptr (br_traffic b') uid = (if uid \<in> row_ids rows then traffic_ptr (br_traffic (snd ?tb)) uid else None)"
    "conn_ptr (br_conns b') uid = (if uid \<in> row_ids rows then conn_ptr (br_conns (snd ?tb)) uid else None)"
    "speed_ptr (br_speeds b') uid = (if uid \<in> row_ids rows then speed_ptr (br_speeds (snd ?tb)) uid else None)"
    unfolding b' apply_users_split drop_stale_users_def
    by (simp_all add: sv_simps tabled_def traffic.ptr_drop [OF inv(1)] conns.ptr_drop [OF inv(2)] speeds.ptr_drop [OF inv(3)])
  have "dom (traffic_ptr (br_traffic b')) = row_ids rows"
    using ok unfolding b' apply_users_ledgers ledgers_ok_def by (simp add: traffic.dom_poll image_image)
  then have "traffic_ptr (br_traffic b') uid \<noteq> None \<longleftrightarrow> uid \<in> row_ids rows" by (metis domIff)
  with arcs ptrs show ?thesis unfolding t by (simp add: sync_rows_auth)
qed

theorem published_tables_exact_witness:
  "\<exists>b' :: unit backend. b' = apply_users sample_crypto 1 [sample_user 1 1000 1, sample_user 7 1001 0] (backend_new sample_config 0) \<and>
     hm_get (ut_auth_users (br_user_tables b')) 7 = Some (derive_user_auth_key sample_crypto ''pw'') \<and>
     hm_get (ut_auth_users (br_user_tables b')) 1 = None \<and> traffic_ptr (br_traffic b') 1 \<noteq> None"
proof -
  have ok: "ledgers_ok (backend_new sample_config 0 :: unit backend)" by (rule ledgers_ok_samples)
  note p = published_tables_exact [OF ok refl, of sample_crypto 1 "[sample_user 1 1000 1, sample_user 7 1001 0]"]
  let ?b = "apply_users sample_crypto 1 [sample_user 1 1000 1, sample_user 7 1001 0] (backend_new sample_config 0 :: unit backend)"
  have "hm_get (ut_auth_users (br_user_tables ?b)) 7 = Some (derive_user_auth_key sample_crypto ''pw'')"
    using p [of 7] by simp
  moreover have "hm_get (ut_auth_users (br_user_tables ?b)) 1 = None" "traffic_ptr (br_traffic ?b) 1 \<noteq> None"
    using p [of 1] by auto
  ultimately show ?thesis by blast
qed

subsection \<open>Listeners across polls\<close>

lemma listener_users_carriers:
  assumes "filter (\<lambda>u. pu_is_multi_user u \<noteq> 0) rows' = filter (\<lambda>u. pu_is_multi_user u \<noteq> 0) rows"
    and "list_ex (\<lambda>u. pu_is_multi_user u \<noteq> 0) rows"
  shows "listener_users rows' = listener_users rows" "distinct (map pu_port (listener_users rows))"
proof -
  have "list_ex (\<lambda>u. pu_is_multi_user u \<noteq> 0) rows' \<longleftrightarrow> filter (\<lambda>u. pu_is_multi_user u \<noteq> 0) rows' \<noteq> []"
    by (auto simp: list_ex_iff filter_empty_conv)
  moreover have "filter (\<lambda>u. pu_is_multi_user u \<noteq> 0) rows \<noteq> []"
    using assms(2) by (auto simp: list_ex_iff filter_empty_conv)
  ultimately show "listener_users rows' = listener_users rows" using assms by (simp add: listener_users_def)
  show "distinct (map pu_port (listener_users rows))"
    using assms(2) merge_carrier_users_spec by (simp add: listener_users_def)
qed

lemma listened_again:
  assumes ok: "active_ok b0" and ports: "distinct (map pu_port (listener_users rows))"
    and same: "listener_users rows' = listener_users rows"
    and act: "br_active_users b = br_active_users (listened rows b0)" and cfg: "br_config b = br_config b0"
  shows "listened rows' b = b"
proof -
  let ?L = "listener_users rows" and ?n = "cfg_node (br_config b)"
  note spec = listened_spec [OF ok ports]
  have ok': "active_ok b" using spec act cfg by (simp add: active_ok_def sv_simps)
  have finger: "map_option act_fingerprint (hm_get (br_active_users b) port) =
      (case find (\<lambda>u. pu_port u = port) ?L of None \<Rightarrow> None | Some u \<Rightarrow> wants ?n u)" for port
    using spec act cfg by (simp cong: option.case_cong)
  have find: "find (\<lambda>v. pu_port v = pu_port u) ?L = Some u" if mem: "u \<in> set ?L" for u
  proof -
    obtain v where v: "find (\<lambda>v. pu_port v = pu_port u) ?L = Some v" using mem by (cases "find (\<lambda>v. pu_port v = pu_port u) ?L") (auto simp: find_None_iff)
    then have "v \<in> set ?L" "pu_port v = pu_port u" by (auto simp: find_Some_iff)
    with ports mem v show ?thesis by (auto simp: distinct_map dest: inj_onD)
  qed
  have idle: "snd (sync_listeners ?L [] b) = b"
  proof (rule sync_listeners_idle)
    fix u fp assume "u \<in> set ?L" "wants ?n u = Some fp"
    then have "map_option act_fingerprint (hm_get (br_active_users b) (pu_port u)) = Some fp"
      by (simp add: finger find)
    then show "\<exists>a. hm_get (br_active_users b) (pu_port u) = Some a \<and> act_fingerprint a = fp" by auto
  qed
  have "port \<in> set (fst (sync_listeners ?L [] b))" if "hm_get (br_active_users b) port \<noteq> None" for port
  proof -
    have "(case find (\<lambda>u. pu_port u = port) ?L of None \<Rightarrow> None | Some u \<Rightarrow> wants ?n u) \<noteq> None"
      using that unfolding finger [symmetric] by simp
    then obtain u where u: "find (\<lambda>u. pu_port u = port) ?L = Some u" "wants ?n u \<noteq> None"
      by (auto split: option.splits)
    then have "u \<in> set ?L" "pu_port u = port" by (auto simp: find_Some_iff)
    with u(2) sync_listeners_facts [OF ok' ports, of "[]"] show ?thesis by (auto simp: Let_def case_prod_unfold)
  qed
  then have "stop_stale_ports (fst (sync_listeners ?L [] b)) b = b" by (rule stop_stale_idle)
  then show ?thesis by (simp add: listened_def same Let_def case_prod_unfold idle)
qed

text \<open>C21: on a node with carrier rows, adding, removing or changing ordinary users never touches a
  listener: when two successive polls list the same carrier rows, the second one spawns and stops
  nothing, whatever else it changes.\<close>

theorem user_changes_keep_listeners:
  assumes ok: "active_ok b"
    and carriers: "filter (\<lambda>u. pu_is_multi_user u \<noteq> 0) rows' = filter (\<lambda>u. pu_is_multi_user u \<noteq> 0) rows"
    and some: "list_ex (\<lambda>u. pu_is_multi_user u \<noteq> 0) rows"
    and b1: "b1 = apply_users C now rows b"
  shows "br_log (apply_users C now' rows' b1) = br_log b1 \<and>
    br_active_users (apply_users C now' rows' b1) = br_active_users b1"
proof -
  let ?start = "tabled C now rows b" and ?b = "tabled C now' rows' b1"
  have "listened rows' ?b = ?b"
  proof (rule listened_again [of ?start rows rows' ?b])
    show "active_ok ?start" using ok by (simp add: active_ok_def sv_simps)
    show "br_active_users ?b = br_active_users (listened rows ?start)" "br_config ?b = br_config ?start"
      by (simp_all add: b1 sv_simps) (simp_all add: apply_users_split sv_simps)
  qed (use listener_users_carriers [OF carriers some] in simp_all)
  then show ?thesis unfolding apply_users_split [of C now' rows'] by (simp add: sv_simps)
qed

theorem user_changes_keep_listeners_witness:
  "\<exists>b1 :: unit backend. b1 = apply_users sample_crypto 1 [sample_user 1 1000 1] (backend_new sample_config 0) \<and>
     br_log (apply_users sample_crypto 2 [sample_user 1 1000 1, sample_user 7 1001 0] b1) = br_log b1"
proof -
  have ok: "active_ok (backend_new sample_config 0 :: unit backend)" by (rule active_ok_new)
  show ?thesis
    using user_changes_keep_listeners [OF ok, of "[sample_user 1 1000 1, sample_user 7 1001 0]"
        "[sample_user 1 1000 1]" _ sample_crypto 1 2] by simp
qed


lemma sample_profile:
  "profile_from_user (sample_user uid port multi) (cfg_node sample_config) =
     Inr \<lparr>pf_method = ''rc4-md5'', pf_protocol = ''auth_aes128_md5'', pf_obfs = ''plain'', pf_timeout = duration_secs 300\<rparr>"
  by (simp add: profile_from_user_def sample_user_def sample_config_def config_of_toml_def minimal_toml_def
      node_defaults_def node_timeout_def profile_new_def ensure_supported_def from_method_def Let_def
      to_ascii_lowercase_def ascii_lower_def code_def)


end
