(* ===== verification/Supervisor_Runtime.thy ===== *)
theory Supervisor_Runtime
  imports Supervisor_Props
begin

text \<open>
  Properties of whole runs of the supervisor: its state stays within the configured bounds, its
  handling of the traffic ledger is an instance of the reporting protocol of \<open>Traffic\<close>, and the
  alive-IP reports carry what was observed since the last accepted one.
\<close>

lemma hm_length_card: "hm_ok m \<Longrightarrow> length m = card (dom (hm_get m))"
proof -
  assume "hm_ok m"
  then have "card (fst ` set m) = length m" by (simp add: hm_ok_def distinct_card [of "map fst m", simplified])
  moreover have "dom (hm_get m) = fst ` set m" by (simp add: hm_get_def dom_map_of_conv_image_fst [symmetric] dom_def)
  ultimately show ?thesis by simp
qed

subsection \<open>Bounds\<close>

definition users_within :: "'re backend \<Rightarrow> bool" where
  "users_within b \<longleftrightarrow>
     (let n = lc_max_users (cfg_limits (br_config b))
      in length (tl_counters (br_traffic b)) \<le> n \<and> length (cl_state (br_conns b)) \<le> n \<and> length (sl_state (br_speeds b)) \<le> n)"

definition maps_ok :: "'re backend \<Rightarrow> bool" where
  "maps_ok b \<longleftrightarrow>
     tm_ok (br_sessions b) \<and> tm_capacity (br_sessions b) = max (lc_max_sessions (cfg_limits (br_config b))) 1 \<and>
     tm_ok (br_alive_ips b) \<and> tm_capacity (br_alive_ips b) = max (lc_max_alive_ips (cfg_limits (br_config b))) 1 \<and>
     tm_ok (br_detect_logs b) \<and> tm_capacity (br_detect_logs b) = max (lc_max_detect_logs (cfg_limits (br_config b))) 1"

definition runtime_ok :: "'re backend \<Rightarrow> bool" where
  "runtime_ok b \<longleftrightarrow> active_ok b \<and> ledgers_ok b \<and> users_within b \<and> maps_ok b \<and> length (br_events b) \<le> EVENT_CHANNEL_CAPACITY"

lemma active_ok_listeners: "active_ok b \<Longrightarrow> active_ok (snd (sync_listeners rows lp b))"
  by (induction rows arbitrary: lp b) (auto simp: active_ok_ensure split: sum.splits)

lemma active_ok_apply: "active_ok b \<Longrightarrow> active_ok (apply_users C now rows b)"
proof -
  assume "active_ok b"
  then have "active_ok (tabled C now rows b)" by (simp add: active_ok_def sv_simps)
  then have "active_ok (listened rows (tabled C now rows b))"
    by (simp add: listened_def Let_def case_prod_unfold stop_stale_ports_def active_ok_stop active_ok_listeners)
  then show ?thesis by (simp add: apply_users_split active_ok_def sv_simps)
qed

lemma apply_users_fields [sv_simps]:
  "br_config (apply_users C now rows b) = br_config b" "br_events (apply_users C now rows b) = br_events b"
  "br_sessions (apply_users C now rows b) = tm_retain (\<lambda>k _. sk_user_id k \<in> row_ids rows) (br_sessions b)"
  "br_alive_ips (apply_users C now rows b) = tm_retain (\<lambda>k _. ak_user_id k \<in> row_ids rows) (br_alive_ips b)"
  "br_detect_logs (apply_users C now rows b) = tm_retain (\<lambda>k _. dk_user_id k \<in> row_ids rows) (br_detect_logs b)"
  by (simp_all add: apply_users_split sv_simps drop_stale_users_def)

lemma apply_users_within:
  assumes ok: "ledgers_ok b" and few: "length rows \<le> lc_max_users (cfg_limits (br_config b))"
  shows "users_within (apply_users C now rows b)"
proof -
  let ?b = "apply_users C now rows b"
  have "card (row_ids rows) \<le> length rows" by (metis card_image_le card_length finite_set le_trans)
  then have card: "card (row_ids rows) \<le> lc_max_users (cfg_limits (br_config ?b))" using few by (simp add: sv_simps)
  have inv: "traffic_ok (br_traffic b)" "conn_ok (br_conns b)" "speed_ok (br_speeds b)" using ok by (simp_all add: ledgers_ok_def)
  have dom: "dom (hm_get (tl_counters (br_traffic ?b))) = row_ids rows"
    "dom (hm_get (cl_state (br_conns ?b))) = row_ids rows" "dom (hm_get (sl_state (br_speeds ?b))) = row_ids rows"
    using traffic.dom_poll [OF inv(1), of "map (\<lambda>u. (panel_user_id u, ())) rows"]
      conns.dom_poll [OF inv(2), of "map (\<lambda>u. (panel_user_id u, ())) rows"]
      speeds.dom_poll [OF inv(3), of "map (\<lambda>u. (panel_user_id u, (up_speed_limit_bps (policy_from_user u), now))) rows"]
    by (simp_all add: apply_users_ledgers image_image traffic_ptr_def conn_ptr_def speed_ptr_def dom_def)
  have hm: "hm_ok (tl_counters (br_traffic ?b))" "hm_ok (cl_state (br_conns ?b))" "hm_ok (sl_state (br_speeds ?b))"
    using ledgers_ok_apply [OF ok, of C now rows]
    by (auto simp: ledgers_ok_def traffic_ok_def conn_ok_def speed_ok_def intro: table_ok_hm_ok)
  show ?thesis unfolding users_within_def Let_def hm_length_card [OF hm(1)] hm_length_card [OF hm(2)] hm_length_card [OF hm(3)] dom
    using card by simp
qed

lemma maps_ok_apply: "maps_ok b \<Longrightarrow> maps_ok (apply_users C now rows b)"
  by (simp add: maps_ok_def sv_simps tm_ok_retain)

lemma runtime_ok_sync: "runtime_ok b \<Longrightarrow> runtime_ok (fst (sync_users C w now b))"
  by (auto simp: sync_users_def runtime_ok_def active_ok_apply ledgers_ok_apply apply_users_within maps_ok_apply
      sv_simps not_less split: sum.split)

lemma runtime_ok_cong:
  assumes "runtime_ok b"
    and "br_config b' = br_config b" "br_active_users b' = br_active_users b" "br_conns b' = br_conns b"
    "br_speeds b' = br_speeds b" "traffic_ok (br_traffic b')" "tl_counters (br_traffic b') = tl_counters (br_traffic b)"
    "maps_ok b'" "length (br_events b') \<le> EVENT_CHANNEL_CAPACITY"
  shows "runtime_ok b'"
  using assms by (simp add: runtime_ok_def active_ok_def ledgers_ok_def users_within_def)

lemma runtime_ok_event: "runtime_ok b \<Longrightarrow> runtime_ok (record_event now e b)"
  by (cases e; rule runtime_ok_cong [of b]) (simp_all add: runtime_ok_def ledgers_ok_def maps_ok_def tm_ok_ops)

lemma runtime_ok_traffic: "runtime_ok b \<Longrightarrow> runtime_ok (fst (report_traffic w b))"
  by (rule runtime_ok_cong [of b])
    (auto simp: report_traffic_def Let_def runtime_ok_def ledgers_ok_def maps_ok_def traffic_ok_mark split: sum.split)

lemma runtime_ok_aux: "runtime_ok b \<Longrightarrow> runtime_ok (fst (report_auxiliary_state w b))"
  by (rule runtime_ok_cong [of b])
    (auto simp: report_auxiliary_state_def Let_def runtime_ok_def ledgers_ok_def maps_ok_def tm_ok_ops split: sum.split)

lemma runtime_ok_poll_tail:
  "runtime_ok b \<Longrightarrow> runtime_ok (expire_local_state now (refresh_detect_rules re_new w b))"
  by (rule runtime_ok_cong [of b])
    (auto simp: expire_local_state_def refresh_detect_rules_def runtime_ok_def ledgers_ok_def maps_ok_def tm_ok_ops
      split: sum.split)

lemma tl_counters_count: "tl_counters (count_bytes dir p n l) = tl_counters l"
  by (simp add: count_bytes_def)

lemma runtime_ok_turn: "runtime_ok b \<Longrightarrow> runtime_ok (run_turn C re_new t b)"
proof (cases t)
  case (Event now)
  assume ok: "runtime_ok b"
  show ?thesis
  proof (cases "br_events b")
    case (Cons e es)
    have "runtime_ok (b\<lparr>br_events := es\<rparr>)"
      by (rule runtime_ok_cong [OF ok]) (use ok Cons in \<open>simp_all add: runtime_ok_def ledgers_ok_def maps_ok_def\<close>)
    with Cons Event show ?thesis by (simp add: runtime_ok_event)
  qed (use ok Event in simp)
next
  case (Relay e)
  assume ok: "runtime_ok b"
  have "runtime_ok (b\<lparr>br_events := try_send e (br_events b)\<rparr>)"
    by (rule runtime_ok_cong [OF ok]) (use ok in \<open>simp_all add: runtime_ok_def ledgers_ok_def maps_ok_def try_send_bound\<close>)
  with Relay show ?thesis by simp
next
  case (Count dir p n)
  assume ok: "runtime_ok b"
  have "runtime_ok (b\<lparr>br_traffic := count_bytes dir p n (br_traffic b)\<rparr>)"
    by (rule runtime_ok_cong [OF ok])
      (use ok in \<open>simp_all add: runtime_ok_def ledgers_ok_def maps_ok_def traffic_ok_count tl_counters_count\<close>)
  with Count show ?thesis by simp
qed (simp_all add: runtime_ok_sync runtime_ok_poll_tail runtime_ok_traffic runtime_ok_aux)

lemma runtime_ok_new: "runtime_ok (backend_new c now)"
  by (simp add: runtime_ok_def active_ok_def ledgers_ok_def users_within_def maps_ok_def backend_new_def
      traffic_ok_default conn_ok_default speed_ok_default tm_ok_new event_channel_def)
    (simp add: traffic_default_def conn_default_def speed_default_def tm_new_def)

lemma runtime_ok_run: "runtime_ok b \<Longrightarrow> runtime_ok (fold (run_turn C re_new) turns b)"
  by (induction turns arbitrary: b) (simp_all add: runtime_ok_turn)

lemma br_config_turn: "br_config (run_turn C re_new t b) = br_config b"
proof -
  have ev: "br_config (record_event now e b) = br_config b" for now e and b :: "'a backend" by (cases e) simp_all
  show ?thesis
    by (cases t) (auto simp: ev sync_users_def refresh_detect_rules_def expire_local_state_def report_traffic_def
        report_auxiliary_state_def Let_def sv_simps split: list.split sum.split)
qed

lemma br_config_run: "br_config (fold (run_turn C re_new) turns b) = br_config b"
  by (induction turns arbitrary: b) (simp_all add: br_config_turn)

text \<open>C31: the supervisor's state is bounded by its configuration. Whatever the panel answers, whatever
  the relay tasks do and in whatever order the loop is woken, the session, alive-IP and detect-log
  maps stay within their configured capacity (at least one entry), the event queue within the
  channel's capacity, and the per-user ledgers within the configured number of users.\<close>

theorem runtime_state_bounded:
  assumes "b = fold (run_turn C re_new) turns (backend_new c now)"
  shows "tm_len (br_sessions b) \<le> max (lc_max_sessions (cfg_limits c)) 1 \<and>
    tm_len (br_alive_ips b) \<le> max (lc_max_alive_ips (cfg_limits c)) 1 \<and>
    tm_len (br_detect_logs b) \<le> max (lc_max_detect_logs (cfg_limits c)) 1 \<and>
    length (br_events b) \<le> EVENT_CHANNEL_CAPACITY \<and>
    length (tl_counters (br_traffic b)) \<le> lc_max_users (cfg_limits c) \<and>
    length (cl_state (br_conns b)) \<le> lc_max_users (cfg_limits c) \<and>
    length (sl_state (br_speeds b)) \<le> lc_max_users (cfg_limits c)"
proof -
  have "runtime_ok b" unfolding assms by (rule runtime_ok_run [OF runtime_ok_new])
  moreover have "br_config b = c" by (simp add: assms br_config_run) (simp add: backend_new_def)
  ultimately show ?thesis
    by (simp add: runtime_ok_def maps_ok_def users_within_def Let_def tm_ok_def tm_len_def)
qed

theorem runtime_state_bounded_witness:
  "length (br_events (fold (run_turn sample_crypto (\<lambda>_. None :: unit option)) [Relay (Connect 7 ''1.1.1.1'' ''1.1.1.1:9''), Event 5,
      Poll (sample_web [sample_user 7 1001 0]) 6] (backend_new sample_config 0))) \<le> EVENT_CHANNEL_CAPACITY"
  using runtime_state_bounded [OF refl, of sample_crypto "\<lambda>_. None :: unit option"
      "[Relay (Connect 7 ''1.1.1.1'' ''1.1.1.1:9''), Event 5, Poll (sample_web [sample_user 7 1001 0]) 6]" sample_config 0]
  by blast

subsection \<open>The runtime follows the reporting protocol\<close>

text \<open>What a run of the loop counts and what the panel accepts during it, newest first.\<close>

fun turn_accepted :: "'j wakeup \<Rightarrow> 're backend \<Rightarrow> traffic_delta list" where
  "turn_accepted (Traffic_Tick w) b =
     (let ds = pending_deltas (br_traffic b)
      in if ds \<noteq> [] \<and> \<not> isl (panel_report_traffic w (pc_node_id (cfg_panel (br_config b))) ds) then ds else [])"
| "turn_accepted _ b = []"

fun turn_counted :: "'j wakeup \<Rightarrow> 're backend \<Rightarrow> (nat \<times> direction \<times> nat) list" where
  "turn_counted (Count dir p n) b = (if p < length (tl_arcs (br_traffic b)) then [(p, dir, unat n)] else [])"
| "turn_counted _ b = []"

fun run_accepted :: "'cc crypto \<Rightarrow> (string \<Rightarrow> 're option) \<Rightarrow> 'j wakeup list \<Rightarrow> 're backend \<Rightarrow> traffic_delta list" where
  "run_accepted C re_new [] b = []"
| "run_accepted C re_new (t # turns) b = run_accepted C re_new turns (run_turn C re_new t b) @ turn_accepted t b"

fun run_counted ::
  "'cc crypto \<Rightarrow> (string \<Rightarrow> 're option) \<Rightarrow> 'j wakeup list \<Rightarrow> 're backend \<Rightarrow> (nat \<times> direction \<times> nat) list" where
  "run_counted C re_new [] b = []"
| "run_counted C re_new (t # turns) b = run_counted C re_new turns (run_turn C re_new t b) @ turn_counted t b"

text \<open>A reporter that mirrors a backend: same ledger, no report in flight, the same two logs.\<close>

definition mirrors :: "reporter \<Rightarrow> traffic_ledger \<Rightarrow> traffic_delta list \<Rightarrow> (nat \<times> direction \<times> nat) list \<Rightarrow> bool" where
  "mirrors r l acc cnt \<longleftrightarrow>
     report_step\<^sup>*\<^sup>* reporter_init r \<and> rp_inflight r = None \<and> rp_ledger r = l \<and> map snd (rp_accepted r) = acc \<and> rp_counted r = cnt"

lemma mirrors_poll:
  assumes "mirrors r l acc cnt"
  shows "\<exists>r'. mirrors r' (traffic.poll rows l) acc cnt"
proof (rule traffic.poll_preserves)
  show "\<exists>r'. mirrors r' l acc cnt" using assms by blast
  show "\<exists>r'. mirrors r' (fst (traffic_ensure_user u l)) acc cnt" if "\<exists>r'. mirrors r' l acc cnt" for u l
  proof -
    from that obtain r where r: "mirrors r l acc cnt" by blast
    then have "mirrors (r\<lparr>rp_ledger := fst (traffic_ensure_user u l)\<rparr>) (fst (traffic_ensure_user u l)) acc cnt"
      using report_step.ensure [of r u] by (auto simp: mirrors_def)
    then show ?thesis by blast
  qed
  show "\<exists>r'. mirrors r' (traffic_remove_stale_users live l) acc cnt" if "\<exists>r'. mirrors r' l acc cnt" for live l
  proof -
    from that obtain r where r: "mirrors r l acc cnt" by blast
    then have "mirrors (r\<lparr>rp_ledger := traffic_remove_stale_users live l\<rparr>) (traffic_remove_stale_users live l) acc cnt"
      using report_step.remove [of r live] by (auto simp: mirrors_def)
    then show ?thesis by blast
  qed
qed

lemma mirrors_report:
  assumes m: "mirrors r (br_traffic b) acc cnt"
  shows "\<exists>r'. mirrors r' (br_traffic (fst (report_traffic w b))) (turn_accepted (Traffic_Tick w) b @ acc) cnt"
proof -
  let ?ds = "pending_deltas (br_traffic b)"
  let ?answer = "panel_report_traffic w (pc_node_id (cfg_panel (br_config b))) ?ds"
  show ?thesis
  proof (cases "?ds \<noteq> [] \<and> \<not> isl ?answer")
    case False
    then have "report_traffic w b = (b, Inr ()) \<or> (\<exists>e. report_traffic w b = (b, Inl e))"
      by (cases ?answer) (auto simp: report_traffic_def Let_def)
    with m False show ?thesis by (auto simp: Let_def)
  next
    case True
    let ?r = "r\<lparr>rp_inflight := Some ?ds\<rparr>"
    let ?r' = "?r\<lparr>rp_ledger := mark_reported ?ds (rp_ledger ?r), rp_inflight := None,
      rp_accepted := map (\<lambda>d. (the (traffic_ptr (rp_ledger ?r) (td_user_id d)), d)) ?ds @ rp_accepted ?r\<rparr>"
    have "report_step\<^sup>*\<^sup>* reporter_init ?r" using m True report_step.collect [of r] by (auto simp: mirrors_def)
    moreover have "report_step ?r ?r'" by (rule report_step.accepted) simp
    ultimately have "report_step\<^sup>*\<^sup>* reporter_init ?r'" by (rule rtranclp.rtrancl_into_rtrancl)
    then have "mirrors ?r' (mark_reported ?ds (br_traffic b)) (?ds @ acc) cnt" using m by (simp add: mirrors_def comp_def)
    moreover have "br_traffic (fst (report_traffic w b)) = mark_reported ?ds (br_traffic b)"
      using True by (cases ?answer) (auto simp: report_traffic_def Let_def)
    ultimately show ?thesis using True by (auto simp: Let_def)
  qed
qed

lemma mirrors_count:
  assumes m: "mirrors r (br_traffic b) acc cnt"
  shows "\<exists>r'. mirrors r' (count_bytes dir p n (br_traffic b)) acc (turn_counted (Count dir p n) b @ cnt)"
proof (cases "p < length (tl_arcs (br_traffic b))")
  case True
  with m have "mirrors (r\<lparr>rp_ledger := count_bytes dir p n (br_traffic b), rp_counted := (p, dir, unat n) # rp_counted r\<rparr>)
      (count_bytes dir p n (br_traffic b)) acc ((p, dir, unat n) # cnt)"
    using report_step.count [of p r dir n] by (auto simp: mirrors_def)
  with True show ?thesis by auto
next
  case False
  then have "count_bytes dir p n (br_traffic b) = br_traffic b" by (simp add: count_bytes_def list_update_beyond)
  with m False show ?thesis by auto
qed

lemma br_traffic_event: "br_traffic (record_event now e b) = br_traffic b"
  by (cases e) simp_all

lemma br_traffic_aux: "br_traffic (fst (report_auxiliary_state w b)) = br_traffic b"
  by (auto simp: report_auxiliary_state_def Let_def split: sum.split)

lemma mirrors_turn:
  assumes m: "mirrors r (br_traffic b) acc cnt"
  shows "\<exists>r'. mirrors r' (br_traffic (run_turn C re_new t b)) (turn_accepted t b @ acc) (turn_counted t b @ cnt)"
proof (cases t)
  case (Poll w now)
  have "\<exists>r'. mirrors r' (br_traffic (fst (sync_users C w now b))) acc cnt"
    using m mirrors_poll [OF m] by (auto simp: sync_users_def apply_users_ledgers split: sum.split)
  then show ?thesis using Poll by (simp add: expire_local_state_def refresh_detect_rules_def split: sum.split)
next
  case (Traffic_Tick w)
  then show ?thesis using mirrors_report [OF m, of w] by (simp add: br_traffic_aux)
next
  case (Count dir p n)
  then show ?thesis using mirrors_count [OF m, of dir p n] by simp
qed (use m in \<open>auto simp: br_traffic_event split: list.split\<close>)

text \<open>C20: every run of the supervisor is a run of the reporting protocol. Whatever polls, reports and
  relayed bytes a run is made of, the protocol has a run that ends in the same traffic ledger with
  no report in flight, in which the deltas accepted are those of the reports the panel answered
  with success, and the bytes counted those the relay tasks counted. Exactly-once accounting
  therefore holds in the running program; nothing is marked reported that the panel did not take.\<close>

theorem runtime_refines_reporting:
  "\<exists>r. report_step\<^sup>*\<^sup>* reporter_init r \<and> rp_inflight r = None \<and>
     rp_ledger r = br_traffic (fold (run_turn C re_new) turns (backend_new c now)) \<and>
     map snd (rp_accepted r) = run_accepted C re_new turns (backend_new c now) \<and>
     rp_counted r = run_counted C re_new turns (backend_new c now)"
proof -
  have "\<exists>r'. mirrors r' (br_traffic (fold (run_turn C re_new) turns b))
      (run_accepted C re_new turns b @ acc) (run_counted C re_new turns b @ cnt)"
    if "mirrors r (br_traffic b) acc cnt" for r b acc cnt
    using that
  proof (induction turns arbitrary: r b acc cnt)
    case (Cons t turns)
    from mirrors_turn [OF Cons.prems, of C re_new t] Cons.IH show ?case by fastforce
  qed auto
  from this [of reporter_init "backend_new c now" "[]" "[]"] show ?thesis
    by (simp add: mirrors_def reporter_init_def backend_new_def)
qed

subsection \<open>Alive-IP reports\<close>

fun connect_entry :: "nat \<times> relay_event \<Rightarrow> (nat \<times> alive_ip_key \<times> unit) option" where
  "connect_entry (now, Connect uid ip peer) = Some (now, \<lparr>ak_user_id = uid, ak_ip = ip\<rparr>, ())"
| "connect_entry (now, Detect uid lid ip) = None"

definition record_events :: "(nat \<times> relay_event) list \<Rightarrow> 're backend \<Rightarrow> 're backend" where
  "record_events evs b = fold (\<lambda>(now, e). record_event now e) evs b"

lemma record_events_alive:
  "br_alive_ips (record_events evs b) = tm.record_all (List.map_filter connect_entry evs) (br_alive_ips b) \<and>
   br_config (record_events evs b) = br_config b"
proof (induction evs arbitrary: b)
  case Nil
  then show ?case by (simp add: record_events_def tm.record_all_def)
next
  case (Cons x evs)
  obtain now e where x: "x = (now, e)" by (cases x)
  have "record_events (x # evs) b = record_events evs (record_event now e b)" by (simp add: record_events_def x)
  then show ?case using Cons [of "record_event now e b"]
    by (cases e) (simp_all add: x tm.record_all_def List.map_filter_simps)
qed

lemma map_filter_connect:
  "(t, k, v) \<in> set (List.map_filter connect_entry evs) \<longleftrightarrow> (\<exists>peer. (t, Connect (ak_user_id k) (ak_ip k) peer) \<in> set evs)"
proof -
  have "connect_entry x = Some (t, k, v) \<longleftrightarrow> (\<exists>peer. x = (t, Connect (ak_user_id k) (ak_ip k) peer))" for x
    by (cases x rule: connect_entry.cases) auto
  then show ?thesis by (auto simp: set_map_filter)
qed

lemma mem_tm_keys: "tm_ok m \<Longrightarrow> k \<in> set (tm_keys m) \<longleftrightarrow> tm_lookup m k \<noteq> None"
  by (simp add: tm_keys_def set_hm_keys tm_lookup_def)

text \<open>C32: an alive-IP report is honest and complete for its cycle. Starting from an empty table (as a
  successful report leaves it), the report after any sequence of events names each user and address
  at most once, only pairs some connect event named, at most as many as the table may hold, and
  always the most recent one; an accepted report empties the table, a refused one loses nothing.\<close>

theorem alive_report_cycle:
  assumes ok: "tm_ok (br_alive_ips b)" and fresh: "tm_len (br_alive_ips b) = 0"
    and b1: "b1 = record_events (evs @ [(t, Connect uid ip peer)]) b"
  shows "distinct (alive_reports b1) \<and> length (alive_reports b1) \<le> tm_capacity (br_alive_ips b) \<and>
    \<lparr>ai_user_id = uid, ai_ip = ip\<rparr> \<in> set (alive_reports b1) \<and>
    list_all (\<lambda>r. \<exists>t' p. (t', Connect (ai_user_id r) (ai_ip r) p) \<in> set (evs @ [(t, Connect uid ip peer)])) (alive_reports b1) \<and>
    (case panel_report_alive_ips w (pc_node_id (cfg_panel (br_config b1))) (alive_reports b1) of
       Inr _ \<Rightarrow> alive_reports (fst (report_auxiliary_state w b1)) = []
     | Inl e \<Rightarrow> report_auxiliary_state w b1 = (b1, Inl e))"
proof -
  let ?evs = "evs @ [(t, Connect uid ip peer)]" and ?m = "br_alive_ips b"
  let ?m1 = "tm.record_all (List.map_filter connect_entry ?evs) ?m"
  have m1: "br_alive_ips b1 = ?m1" by (simp add: b1 record_events_alive)
  have ok1: "tm_ok ?m1" by (rule tm.invar_record_all [OF ok])
  have empty: "tm_lookup ?m k = None" for k using fresh by (simp add: tm_lookup_def tm_len_def)
  have "distinct (alive_reports b1)"
    using ok1 by (auto simp: alive_reports_def m1 distinct_map inj_on_def tm_keys_def hm_keys_def tm_ok_def hm_ok_def
        intro!: alive_ip_key.equality)
  moreover have "length (alive_reports b1) \<le> tm_capacity ?m"
    using tm.record_all_bounded [OF ok, of "List.map_filter connect_entry ?evs"] card_tm_lookup [OF ok1]
    by (simp add: alive_reports_def m1 tm_keys_def hm_keys_def tm_len_def)
  moreover have "tm_lookup ?m1 \<lparr>ak_user_id = uid, ak_ip = ip\<rparr> = Some ((), t)"
    using tm.record_all_last [OF ok] by (simp add: map_filter_def)
  then have "\<lparr>ai_user_id = uid, ai_ip = ip\<rparr> \<in> set (alive_reports b1)"
    using mem_tm_keys [OF ok1, of "\<lparr>ak_user_id = uid, ak_ip = ip\<rparr>"] by (force simp: alive_reports_def m1)
  moreover have "\<exists>t' p. (t', Connect (ak_user_id k) (ak_ip k) p) \<in> set ?evs" if "k \<in> set (tm_keys ?m1)" for k
  proof -
    from that obtain t' where "tm_lookup ?m1 k = Some ((), t')" using mem_tm_keys [OF ok1] by auto
    from tm.record_all_sound [OF ok this] empty show ?thesis by (auto simp only: map_filter_connect option.distinct)
  qed
  then have "list_all (\<lambda>r. \<exists>t' p. (t', Connect (ai_user_id r) (ai_ip r) p) \<in> set ?evs) (alive_reports b1)"
    by (auto simp: list_all_iff alive_reports_def m1)
  moreover have "case panel_report_alive_ips w (pc_node_id (cfg_panel (br_config b1))) (alive_reports b1) of
       Inr _ \<Rightarrow> alive_reports (fst (report_auxiliary_state w b1)) = []
     | Inl e \<Rightarrow> report_auxiliary_state w b1 = (b1, Inl e)"
    by (auto simp: report_auxiliary_state_def Let_def alive_reports_def tm_keys_def hm_keys_def tm_retain_def hm_retain_def
        split: sum.split)
  ultimately show ?thesis by blast
qed

theorem alive_report_cycle_witness:
  "\<exists>b1 :: unit backend. b1 = record_events ([(1, Connect 7 ''1.1.1.1'' ''1.1.1.1:9'')] @ [(2, Connect 8 ''2.2.2.2'' ''2.2.2.2:9'')])
      (backend_new sample_config 0) \<and>
    \<lparr>ai_user_id = 8, ai_ip = ''2.2.2.2''\<rparr> \<in> set (alive_reports b1)"
proof -
  have "tm_ok (br_alive_ips (backend_new sample_config 0 :: unit backend))"
    "tm_len (br_alive_ips (backend_new sample_config 0 :: unit backend)) = 0"
    by (simp_all add: backend_new_def tm_ok_new) (simp add: tm_len_def tm_new_def)
  note p = alive_report_cycle [OF this refl, of "[(1, Connect 7 ''1.1.1.1'' ''1.1.1.1:9'')]" 2 8 "''2.2.2.2''" "''2.2.2.2:9''" "sample_web []"]
  show ?thesis using p by blast
qed

end
