(* ===== verification/Shutdown.thy ===== *)
theory Shutdown
  imports Supervisor_Runtime
begin

text \<open>
  \<^verbatim>\<open>src/src/runtime/supervisor.rs\<close>: \<open>shutdown_signal\<close> and the shutdown arm of the \<open>select!\<close> in
  \<open>BackendRuntime::run\<close>. The signal streams belong to the tokio crate: \<open>recv g before since\<close> says
  whether a stream for \<open>g\<close> that is created after the signals \<open>before\<close> has become ready once the
  signals \<open>since\<close> arrived.
\<close>

datatype os_signal = SIGTERM | SIGINT

text \<open>Whether registering the two signal streams and, where it is reached, \<open>ctrl_c\<close> succeeds.\<close>

record installed =
  in_term :: bool
  in_int :: bool
  in_ctrl_c :: bool

type_synonym signal_recv = "os_signal \<Rightarrow> os_signal list \<Rightarrow> os_signal list \<Rightarrow> bool"

text \<open>Whether the future \<open>shutdown_signal()\<close> is ready. A failing \<open>ctrl_c\<close> returns at once and its
  error is discarded.\<close>

definition shutdown_signal :: "signal_recv \<Rightarrow> installed \<Rightarrow> os_signal list \<Rightarrow> os_signal list \<Rightarrow> bool" where
  "shutdown_signal recv i before since =
     (case (in_term i, in_int i) of
        (True, True) \<Rightarrow> recv SIGTERM before since \<or> recv SIGINT before since
      | (True, False) \<Rightarrow> recv SIGTERM before since
      | (False, _) \<Rightarrow> \<not> in_ctrl_c i \<or> recv SIGINT before since)"

text \<open>One iteration of the loop. \<open>lt_polled\<close> is \<open>None\<close> when another arm was ready before the shutdown
  future was polled at all; \<open>lt_waiting\<close> are the signals between its creation and its last poll;
  \<open>lt_turns\<close> is the arm that won otherwise, with what relay tasks did to the shared state;
  \<open>lt_busy\<close> are the signals that arrived after that last poll, while the arm's handler ran.\<close>

record 'j loop_turn =
  lt_polled :: "installed option"
  lt_waiting :: "os_signal list"
  lt_turns :: "'j wakeup list"
  lt_busy :: "os_signal list"

text \<open>The loop over a list of iterations; the flag says whether it was left. \<open>before\<close> collects all
  signals so far: every iteration creates the future, and with it its streams, anew.\<close>

fun run_loop ::
  "signal_recv \<Rightarrow> 'cc crypto \<Rightarrow> (string \<Rightarrow> 're option) \<Rightarrow> os_signal list \<Rightarrow> 'j loop_turn list \<Rightarrow> 're backend \<Rightarrow>
   're backend \<times> bool" where
  "run_loop recv C re_new before [] b = (b, False)"
| "run_loop recv C re_new before (t # ts) b =
     (if (case lt_polled t of None \<Rightarrow> False | Some i \<Rightarrow> shutdown_signal recv i before (lt_waiting t))
      then (stop_all b, True)
      else run_loop recv C re_new (before @ lt_waiting t @ lt_busy t) ts (fold (run_turn C re_new) (lt_turns t) b))"

subsection \<open>What the loop hears\<close>

text \<open>The documented behaviour of a signal stream: it reports signals that arrive after its creation.\<close>

definition fresh_streams :: "signal_recv \<Rightarrow> bool" where
  "fresh_streams recv \<longleftrightarrow> (\<forall>g before since. recv g before since \<longleftrightarrow> g \<in> set since)"

definition hears :: "'j loop_turn \<Rightarrow> bool" where
  "hears t \<longleftrightarrow> (\<exists>i. lt_polled t = Some i \<and>
     (if in_term i then SIGTERM \<in> set (lt_waiting t) \<or> in_int i \<and> SIGINT \<in> set (lt_waiting t)
      else \<not> in_ctrl_c i \<or> SIGINT \<in> set (lt_waiting t)))"

lemma shutdown_arm:
  assumes "fresh_streams recv"
  shows "(case lt_polled t of None \<Rightarrow> False | Some i \<Rightarrow> shutdown_signal recv i before (lt_waiting t)) = hears t"
  using assms by (auto simp: fresh_streams_def shutdown_signal_def hears_def split: option.split bool.split)

lemma hears_busy [simp]: "hears (t\<lparr>lt_busy := x\<rparr>) = hears t"
  by (simp add: hears_def)

lemma run_loop_hears:
  assumes "fresh_streams recv"
  shows "run_loop recv C re_new before ts b =
    (let quiet = takeWhile (\<lambda>t. \<not> hears t) ts; b' = fold (run_turn C re_new) (concat (map lt_turns quiet)) b
     in if \<exists>t\<in>set ts. hears t then (stop_all b', True) else (b', False))"
proof (induction ts arbitrary: before b)
  case (Cons t ts)
  then show ?case by (auto simp: shutdown_arm [OF assms] Let_def)
qed simp



end
