(* ===== verification/Tcp.thy ===== *)
theory Tcp
  imports Supervisor Relay_Target Ssr_Session_Props
begin

text \<open>
  \<^verbatim>\<open>src/src/tcp.rs\<close>: one accepted connection. \<open>handle_stream\<close> is a task that alternates
  between awaiting something and running to the next await, so it is a state machine: a phase says
  which await the task is in, a \<open>wake\<close> what the await came back with, and \<open>tcp_step\<close> runs the
  task to its next await. A wake that does not belong to the phase cannot happen and changes
  nothing. The objects the task shares with the rest of the program (counters, address sets, token
  buckets, the event channel, the published rules) are those of the \<open>backend\<close> state. Each socket
  is the bytes read from it and written to it so far; \<open>tc_replies\<close> records what the session
  encrypted for the client, written or not.
\<close>

definition READ_CHUNK :: nat where
  "READ_CHUNK = 16 * 1024"

definition MAX_HANDSHAKE_BYTES :: nat where
  "MAX_HANDSHAKE_BYTES = 64 * 1024"

record stream_context =
  cx_password :: string
  cx_fallback_user_id :: u64
  cx_tables :: user_tables
  cx_enforcement :: enforcement_config
  cx_is_multi_user :: int
  cx_cipher_kind :: cipher_kind
  cx_peer_ip :: string
  cx_peer :: string
  cx_idle_timeout :: duration

datatype sink = ToRemoteInitial | ToRemote | ToClient

datatype phase =
    Handshake bytes u64
  | Connecting address bytes
  | Pacing sink bytes
  | Sending sink bytes
  | Relaying
  | Closed "unit result"

record 'cc tcp_conn =
  tc_ctx :: stream_context
  tc_session :: "'cc session"
  tc_phase :: phase
  tc_user_id :: u64
  tc_counters :: "nat option"
  tc_limiter :: "nat option"
  tc_guard :: "conn_guard option"
  tc_idle :: nat
  tc_remote :: "socket_addr option"
  tc_client_read :: bytes
  tc_client_written :: bytes
  tc_remote_read :: bytes
  tc_remote_written :: bytes
  tc_replies :: bytes

text \<open>Reads carry the bytes (none at the end of the stream) and the clock; a failed write says how
  many bytes went out before.\<close>

datatype wake =
    ClientRead "string + bytes" nat
  | ReadTimeout
  | NetAnswer net nat
  | Turn nat
  | Wrote nat
  | WriteFailed nat string
  | WriteTimedOut nat
  | RemoteRead "string + bytes" nat
  | IdleFired nat

definition saturating_add :: "u64 \<Rightarrow> u64 \<Rightarrow> u64" where
  "saturating_add a b = (if unat a + unat b < 2 ^ 64 then a + b else - 1)"

definition sink_timed :: "sink \<Rightarrow> bool" where
  "sink_timed k \<longleftrightarrow> k \<noteq> ToRemoteInitial"

subsection \<open>Leaving the task\<close>

text \<open>Returning drops the connection guard, whatever the result.\<close>

definition tcp_close :: "unit result \<Rightarrow> 'cc tcp_conn \<times> 're backend \<Rightarrow> 'cc tcp_conn \<times> 're backend" where
  "tcp_close r = (\<lambda>(c, b).
     (c\<lparr>tc_phase := Closed r, tc_guard := None\<rparr>,
      case tc_guard c of None \<Rightarrow> b | Some g \<Rightarrow> b\<lparr>br_conns := guard_drop g (br_conns b)\<rparr>))"

subsection \<open>Accepting\<close>

definition tcp_open ::
  "'cc crypto \<Rightarrow> (nat \<Rightarrow> bytes option) \<Rightarrow> stream_context \<Rightarrow> 'cc tcp_conn result" where
  "tcp_open C rand cx =
     (case session_new C rand (cx_password cx) (hm_get (ut_auth_users (cx_tables cx))) (cx_is_multi_user cx)
             (cx_cipher_kind cx) of
        Inl e \<Rightarrow> Inl e
      | Inr s \<Rightarrow> Inr
          \<lparr>tc_ctx = cx, tc_session = s, tc_phase = Handshake [] 0, tc_user_id = 0, tc_counters = None,
           tc_limiter = None, tc_guard = None, tc_idle = 0, tc_remote = None, tc_client_read = [],
           tc_client_written = [], tc_remote_read = [], tc_remote_written = [], tc_replies = []\<rparr>)"

subsection \<open>From the handshake to the relay\<close>

definition conn_policy :: "'cc tcp_conn \<Rightarrow> user_policy option" where
  "conn_policy c = hm_get (ut_policies (cx_tables (tc_ctx c))) (tc_user_id c)"

datatype admission = Refused | Admitted "conn_guard option"

definition acquire_slot ::
  "stream_context \<Rightarrow> u64 \<Rightarrow> user_policy option \<Rightarrow> conn_ledger \<Rightarrow> conn_ledger \<times> admission result" where
  "acquire_slot cx uid policy conns =
     (case policy of
        Some pol \<Rightarrow>
          if ec_conn_limit (cx_enforcement cx) \<and> 0 < up_conn_limit pol then
            (case hm_get (ut_conns_by_user (cx_tables cx)) uid of
               None \<Rightarrow> (conns, Inl (NoConnCounter uid))
             | Some ips \<Rightarrow>
                 (case guard_acquire ips (cx_peer_ip cx) (up_conn_limit pol) conns of
                    (conns, Some guard) \<Rightarrow> (conns, Inr (Admitted (Some guard)))
                  | (conns, None) \<Rightarrow> (conns, Inr Refused)))
          else (conns, Inr (Admitted None))
      | None \<Rightarrow> (conns, Inr (Admitted None)))"

definition conn_user :: "'cc tcp_conn \<Rightarrow> u64" where
  "conn_user c = (case session_user_id (tc_session c) of Some u \<Rightarrow> u | None \<Rightarrow> cx_fallback_user_id (tc_ctx c))"

definition conn_counters :: "user_tables \<Rightarrow> u64 \<Rightarrow> u64 \<Rightarrow> nat option" where
  "conn_counters t uid fallback =
     (case hm_get (ut_counters_by_user t) uid of
        Some p \<Rightarrow> Some p
      | None \<Rightarrow> hm_get (ut_counters_by_user t) fallback)"

text \<open>Everything between the address header and the connection to the target.\<close>

definition tcp_admit ::
  "('re \<Rightarrow> bytes \<Rightarrow> bool) \<Rightarrow> address \<Rightarrow> bytes \<Rightarrow> u64 \<Rightarrow> 'cc tcp_conn \<times> 're backend \<Rightarrow> 'cc tcp_conn \<times> 're backend" where
  "tcp_admit re_is_match target initial pre_auth_upload = (\<lambda>(c, b).
     let cx = tc_ctx c; t = cx_tables cx; uid = conn_user c in
     case conn_counters t uid (cx_fallback_user_id cx) of
       None \<Rightarrow> tcp_close (Inl (NoTrafficCounter uid)) (c, b)
     | Some counters \<Rightarrow>
         let b = b\<lparr>br_traffic := count_bytes Upload counters pre_auth_upload (br_traffic b)\<rparr>;
             policy = hm_get (ut_policies t) uid;
             limiter = (if ec_speed (cx_enforcement cx) then hm_get (ut_speeds_by_user t) uid else None);
             c = c\<lparr>tc_user_id := uid, tc_counters := Some counters, tc_limiter := limiter\<rparr>;
             (conns, slot) = acquire_slot cx uid policy (br_conns b);
             b = b\<lparr>br_conns := conns\<rparr>
         in case slot of
              Inl e \<Rightarrow> tcp_close (Inl e) (c, b)
            | Inr Refused \<Rightarrow> tcp_close (Inr ()) (c, b)
            | Inr (Admitted guard) \<Rightarrow>
                let c = c\<lparr>tc_guard := guard\<rparr>;
                    auditor = auditor_new uid (cx_peer_ip cx) (cx_peer cx);
                    q = auditor_report_connect auditor (br_events b);
                    (hit, _, q) = auditor_scan re_is_match (br_detect_rules b) initial auditor q;
                    b = b\<lparr>br_events := q\<rparr>
                in if hit \<and> ec_audit_block (cx_enforcement cx) then tcp_close (Inl InitialMatched) (c, b)
                   else (c\<lparr>tc_phase := Connecting target initial\<rparr>, b))"

definition tcp_handshake ::
  "'cc crypto \<Rightarrow> ('re \<Rightarrow> bytes \<Rightarrow> bool) \<Rightarrow> bytes \<Rightarrow> u64 \<Rightarrow> bytes \<Rightarrow> 'cc tcp_conn \<times> 're backend \<Rightarrow> 'cc tcp_conn \<times> 're backend" where
  "tcp_handshake C re_is_match app_buf pre_auth_upload chunk = (\<lambda>(c, b).
     if chunk = [] then tcp_close (Inr ()) (c, b)
     else
       let pre_auth_upload = saturating_add pre_auth_upload (word_of_nat (length chunk));
           (s, r) = session_decrypt C (tc_session c) chunk;
           c = c\<lparr>tc_session := s, tc_client_read := tc_client_read c @ chunk\<rparr>
       in case r of
            Inl e \<Rightarrow> tcp_close (Inl e) (c, b)
          | Inr decoded \<Rightarrow>
              if decoded = [] then (c\<lparr>tc_phase := Handshake app_buf pre_auth_upload\<rparr>, b)
              else
                let app_buf = app_buf @ decoded in
                (case parse_address app_buf of
                   Inl e \<Rightarrow> tcp_close (Inl e) (c, b)
                 | Inr (Some (target, consumed)) \<Rightarrow>
                     tcp_admit re_is_match target (drop consumed app_buf) pre_auth_upload (c, b)
                 | Inr None \<Rightarrow>
                     if MAX_HANDSHAKE_BYTES < length app_buf then tcp_close (Inl HandshakeTooLong) (c, b)
                     else (c\<lparr>tc_phase := Handshake app_buf pre_auth_upload\<rparr>, b)))"

text \<open>\<open>l.acquire(len)\<close>, when there is a limiter, then the write.\<close>

definition begin_send :: "sink \<Rightarrow> bytes \<Rightarrow> 'cc tcp_conn \<Rightarrow> 'cc tcp_conn" where
  "begin_send k data c =
     (case tc_limiter c of
        None \<Rightarrow> c\<lparr>tc_phase := Sending k data\<rparr>
      | Some _ \<Rightarrow> c\<lparr>tc_phase := Pacing k data\<rparr>)"

definition enter_relay :: "nat \<Rightarrow> 'cc tcp_conn \<Rightarrow> 'cc tcp_conn" where
  "enter_relay now c = c\<lparr>tc_phase := Relaying, tc_idle := now + cx_idle_timeout (tc_ctx c)\<rparr>"

definition tcp_connect ::
  "net \<Rightarrow> nat \<Rightarrow> address \<Rightarrow> bytes \<Rightarrow> 'cc tcp_conn \<times> 're backend \<Rightarrow> 'cc tcp_conn \<times> 're backend" where
  "tcp_connect nt now target initial = (\<lambda>(c, b).
     case connect_target_checked nt target (conn_policy c) (cx_enforcement (tc_ctx c)) of
       Inl e \<Rightarrow> tcp_close (Inl e) (c, b)
     | Inr a \<Rightarrow>
         let c = c\<lparr>tc_remote := Some a\<rparr>
         in (if initial \<noteq> [] then begin_send ToRemoteInitial initial c else enter_relay now c, b))"

subsection \<open>The relay loop\<close>

text \<open>One turn of the limiter's \<open>acquire\<close> loop.\<close>

definition tcp_pace :: "nat \<Rightarrow> sink \<Rightarrow> bytes \<Rightarrow> 'cc tcp_conn \<times> 're backend \<Rightarrow> 'cc tcp_conn \<times> 're backend" where
  "tcp_pace now k data = (\<lambda>(c, b).
     case tc_limiter c of
       None \<Rightarrow> (c, b)
     | Some l \<Rightarrow>
         let (bucket, wait) = acquire_turn (length data) now (sl_arcs (br_speeds b) ! l);
             b = b\<lparr>br_speeds := (br_speeds b)\<lparr>sl_arcs := (sl_arcs (br_speeds b))[l := bucket]\<rparr>\<rparr>
         in (if wait = None then c\<lparr>tc_phase := Sending k data\<rparr> else c, b))"

definition deliver :: "sink \<Rightarrow> bytes \<Rightarrow> 'cc tcp_conn \<Rightarrow> 'cc tcp_conn" where
  "deliver k data c =
     (if k = ToClient then c\<lparr>tc_client_written := tc_client_written c @ data\<rparr>
      else c\<lparr>tc_remote_written := tc_remote_written c @ data\<rparr>)"

definition tcp_wrote :: "nat \<Rightarrow> sink \<Rightarrow> bytes \<Rightarrow> 'cc tcp_conn \<Rightarrow> 'cc tcp_conn" where
  "tcp_wrote now k data c =
     (let c = deliver k data c
      in if k = ToRemoteInitial then enter_relay now c else c\<lparr>tc_phase := Relaying\<rparr>)"

definition record_bytes :: "direction \<Rightarrow> nat \<Rightarrow> 'cc tcp_conn \<Rightarrow> 're backend \<Rightarrow> 're backend" where
  "record_bytes dir n c b =
     (case tc_counters c of
        None \<Rightarrow> b
      | Some p \<Rightarrow> b\<lparr>br_traffic := count_bytes dir p (word_of_nat n) (br_traffic b)\<rparr>)"

definition relay_upload ::
  "'cc crypto \<Rightarrow> bytes \<Rightarrow> nat \<Rightarrow> 'cc tcp_conn \<times> 're backend \<Rightarrow> 'cc tcp_conn \<times> 're backend" where
  "relay_upload C chunk now = (\<lambda>(c, b).
     if chunk = [] then tcp_close (Inr ()) (c, b)
     else
       let b = record_bytes Upload (length chunk) c b;
           (s, r) = session_decrypt C (tc_session c) chunk;
           c = c\<lparr>tc_idle := now + cx_idle_timeout (tc_ctx c), tc_session := s,
                 tc_client_read := tc_client_read c @ chunk\<rparr>
       in case r of
            Inl e \<Rightarrow> tcp_close (Inl e) (c, b)
          | Inr data \<Rightarrow> (if data = [] then c else begin_send ToRemote data c, b))"

definition relay_download ::
  "'cc crypto \<Rightarrow> bytes \<Rightarrow> nat \<Rightarrow> 'cc tcp_conn \<times> 're backend \<Rightarrow> 'cc tcp_conn \<times> 're backend" where
  "relay_download C chunk now = (\<lambda>(c, b).
     if chunk = [] then tcp_close (Inr ()) (c, b)
     else
       let (s, r) = session_encrypt C (tc_session c) chunk;
           c = c\<lparr>tc_idle := now + cx_idle_timeout (tc_ctx c), tc_session := s,
                 tc_remote_read := tc_remote_read c @ chunk\<rparr>
       in case r of
            Inl e \<Rightarrow> tcp_close (Inl e) (c, b)
          | Inr wire \<Rightarrow>
              (begin_send ToClient wire (c\<lparr>tc_replies := tc_replies c @ wire\<rparr>),
               record_bytes Download (length wire) c b))"

fun tcp_step ::
  "'cc crypto \<Rightarrow> ('re \<Rightarrow> bytes \<Rightarrow> bool) \<Rightarrow> phase \<Rightarrow> wake \<Rightarrow> 'cc tcp_conn \<times> 're backend \<Rightarrow> 'cc tcp_conn \<times> 're backend" where
  "tcp_step C m (Handshake app_buf pre) ReadTimeout w = tcp_close (Inl HandshakeIdle) w"
| "tcp_step C m (Handshake app_buf pre) (ClientRead (Inl e) now) w = tcp_close (Inl (Io e)) w"
| "tcp_step C m (Handshake app_buf pre) (ClientRead (Inr chunk) now) w =
     (if length chunk \<le> READ_CHUNK then tcp_handshake C m app_buf pre chunk w else w)"
| "tcp_step C m (Connecting target initial) (NetAnswer nt now) w = tcp_connect nt now target initial w"
| "tcp_step C m (Pacing k data) (Turn now) w = tcp_pace now k data w"
| "tcp_step C m (Sending k data) (Wrote now) w = (tcp_wrote now k data (fst w), snd w)"
| "tcp_step C m (Sending k data) (WriteFailed n e) w =
     tcp_close (Inl (Io e)) (deliver k (take n data) (fst w), snd w)"
| "tcp_step C m (Sending k data) (WriteTimedOut n) w =
     (if sink_timed k then tcp_close (Inl WriteIdle) (deliver k (take n data) (fst w), snd w) else w)"
| "tcp_step C m Relaying (IdleFired now) w =
     (if tc_idle (fst w) \<le> now then tcp_close (Inl SessionIdle) w else w)"
| "tcp_step C m Relaying (ClientRead (Inl e) now) w = tcp_close (Inl (Io e)) w"
| "tcp_step C m Relaying (ClientRead (Inr chunk) now) w =
     (if length chunk \<le> READ_CHUNK then relay_upload C chunk now w else w)"
| "tcp_step C m Relaying (RemoteRead (Inl e) now) w = tcp_close (Inl (Io e)) w"
| "tcp_step C m Relaying (RemoteRead (Inr chunk) now) w =
     (if length chunk \<le> READ_CHUNK then relay_download C chunk now w else w)"
| "tcp_step C m _ _ w = w"

definition tcp_wake ::
  "'cc crypto \<Rightarrow> ('re \<Rightarrow> bytes \<Rightarrow> bool) \<Rightarrow> wake \<Rightarrow> 'cc tcp_conn \<times> 're backend \<Rightarrow> 'cc tcp_conn \<times> 're backend" where
  "tcp_wake C m e w = tcp_step C m (tc_phase (fst w)) e w"

end
