(* ===== verification/Udp.thy ===== *)
theory Udp
  imports Tcp
begin

text \<open>
  \<^verbatim>\<open>src/src/udp.rs\<close>: one UDP listener. Its task handles one datagram at a time
  (\<open>handle_inbound\<close>); each association has an outbound socket and a task that pumps replies back
  (\<open>pump_reply\<close>). Sockets are numbered as they are bound. The datagrams sent are recorded with
  the socket or peer they went through, the datagrams charged with their counter. A pump that ends
  is recorded by its socket; dropping an association from the map aborts its pump. What the
  operating system answers during one datagram is \<open>udp_env\<close>.
\<close>

definition BUF_SIZE :: nat where
  "BUF_SIZE = 64 * 1024"

record association_key =
  ky_peer :: socket_addr
  ky_user_id :: u64

record association =
  as_outbound :: nat
  as_response_key :: bytes
  as_counters :: nat
  as_peer :: socket_addr

record udp_listener =
  ul_task :: udp_task
  ul_cipher :: cipher_kind
  ul_master_key :: bytes
  ul_associations :: "(association_key, association) ttl_map"
  ul_running :: bool
  ul_bound :: nat
  ul_ended :: "nat list"
  ul_sent :: "(nat \<times> udp_dest \<times> bytes) list"
  ul_replies :: "(socket_addr \<times> bytes) list"
  ul_charged :: "(nat \<times> direction \<times> bytes) list"

record udp_env =
  ue_net :: net
  ue_bind :: "string + unit"
  ue_send :: "string + unit"

text \<open>\<open>run_listener\<close> up to its loop; \<open>Inl Panic\<close> where \<open>cipher_kind\<close> would panic.\<close>

definition udp_listen :: "'cc crypto \<Rightarrow> udp_task \<Rightarrow> udp_listener result" where
  "udp_listen C t =
     (case profile_cipher_kind (ud_profile t) of
        Inl e \<Rightarrow> Inl e
      | Inr k \<Rightarrow> Inr
          \<lparr>ul_task = t, ul_cipher = k, ul_master_key = derive_master_key C (ud_password t) k,
           ul_associations = tm_new (ud_association_ttl t) (ud_max_associations t),
           ul_running = True, ul_bound = 0, ul_ended = [], ul_sent = [], ul_replies = [], ul_charged = []\<rparr>)"

text \<open>The reuse or creation of the association: \<open>Inl\<close> when binding the outbound socket fails.\<close>

definition find_association ::
  "udp_env \<Rightarrow> nat \<Rightarrow> association_key \<Rightarrow> bytes \<Rightarrow> nat \<Rightarrow> udp_listener \<times> 're backend \<Rightarrow>
   (udp_listener \<times> 're backend) \<times> nat result" where
  "find_association env now k response_key counters = (\<lambda>(l, b).
     case touch now k (ul_associations l) of
       (assocs, Some a) \<Rightarrow> ((l\<lparr>ul_associations := assocs\<rparr>, b), Inr (as_outbound a))
     | (assocs, None) \<Rightarrow>
         let ip = show_ip (sa_ip (ky_peer k));
             b = b\<lparr>br_events := report_connect (ky_user_id k) ip (show_socket_addr (ky_peer k)) (br_events b)\<rparr>
         in case ue_bind env of
              Inl e \<Rightarrow> ((l, b), Inl (Io e))
            | Inr _ \<Rightarrow>
                let outbound = ul_bound l;
                    a = \<lparr>as_outbound = outbound, as_response_key = response_key, as_counters = counters,
                         as_peer = ky_peer k\<rparr>
                in ((l\<lparr>ul_bound := outbound + 1, ul_associations := tm_insert now k a (ul_associations l)\<rparr>, b),
                    Inr outbound))"

definition response_key_of :: "user_tables \<Rightarrow> bytes \<Rightarrow> u64 option \<Rightarrow> bytes" where
  "response_key_of t mkey who =
     (case who of
        Some uid \<Rightarrow> (case hm_get (ut_auth_users t) uid of Some key \<Rightarrow> key | None \<Rightarrow> mkey)
      | None \<Rightarrow> mkey)"

text \<open>The part of \<open>handle_inbound\<close> from the resolution of the destination on.\<close>

definition forward ::
  "udp_env \<Rightarrow> nat \<Rightarrow> address \<Rightarrow> user_policy option \<Rightarrow> association_key \<Rightarrow> bytes \<Rightarrow> nat \<Rightarrow> bytes \<Rightarrow>
   udp_listener \<times> 're backend \<Rightarrow> (udp_listener \<times> 're backend) \<times> unit result" where
  "forward env now target policy k response_key counters payload w =
     (case resolve_udp_dest (ue_net env) target policy (ud_enforcement (ul_task (fst w))) of
        Inl e \<Rightarrow> (w, Inl e)
      | Inr dest \<Rightarrow>
          (case find_association env now k response_key counters w of
             (w, Inl e) \<Rightarrow> (w, Inl e)
           | (w, Inr outbound) \<Rightarrow>
               (case ue_send env of
                  Inl e \<Rightarrow> (w, Inl (Io e))
                | Inr _ \<Rightarrow> (((fst w)\<lparr>ul_sent := ul_sent (fst w) @ [(outbound, dest, payload)]\<rparr>, snd w), Inr ()))))"

definition handle_inbound ::
  "'cc crypto \<Rightarrow> ('re \<Rightarrow> bytes \<Rightarrow> bool) \<Rightarrow> udp_env \<Rightarrow> nat \<Rightarrow> user_tables \<Rightarrow> bytes \<Rightarrow> socket_addr \<Rightarrow>
   udp_listener \<Rightarrow> 're backend \<Rightarrow> (udp_listener \<times> 're backend) \<times> unit result" where
  "handle_inbound C re_is_match env now t datagram peer l b =
     (let user = ud_user_id (ul_task l); enf = ud_enforcement (ul_task l) in
      case udp_decrypt_packet C (ul_master_key l) (hm_get (ut_auth_users t)) (ud_is_multi_user (ul_task l)) datagram
             (ul_cipher l) of
        Inl e \<Rightarrow> ((l, b), Inl e)
      | Inr (plain, who) \<Rightarrow>
          let real_user_id = unwrap_or who user;
              response_key = response_key_of t (ul_master_key l) who
          in case conn_counters t real_user_id user of
               None \<Rightarrow> ((l, b), Inl (NoTrafficCounter real_user_id))
             | Some counters \<Rightarrow>
                 let b = b\<lparr>br_traffic := count_bytes Upload counters (word_of_nat (length datagram)) (br_traffic b)\<rparr>;
                     l = l\<lparr>ul_charged := (counters, Upload, datagram) # ul_charged l\<rparr>
                 in case parse_address plain of
                      Inl e \<Rightarrow> ((l, b), Inl e)
                    | Inr None \<Rightarrow> ((l, b), Inl UdpHeaderIncomplete)
                    | Inr (Some (target, consumed)) \<Rightarrow>
                        let payload = drop consumed plain;
                            policy = hm_get (ut_policies t) real_user_id
                        in if policy_blocks_port enf policy (port target) then ((l, b), Inl (PortForbidden (port target)))
                           else
                             let ip = show_ip (sa_ip peer);
                                 matched = scan_payload re_is_match (br_detect_rules b) real_user_id ip payload (br_events b);
                                 b = b\<lparr>br_events := snd matched\<rparr>
                             in forward env now target policy \<lparr>ky_peer = peer, ky_user_id = real_user_id\<rparr>
                                  response_key counters payload (l, b))"

text \<open>One turn of the listener loop that received a datagram; an error is logged and dropped.\<close>

definition udp_receive ::
  "'cc crypto \<Rightarrow> ('re \<Rightarrow> bytes \<Rightarrow> bool) \<Rightarrow> udp_env \<Rightarrow> nat \<Rightarrow> bytes \<Rightarrow> socket_addr \<Rightarrow>
   udp_listener \<times> 're backend \<Rightarrow> udp_listener \<times> 're backend" where
  "udp_receive C re_is_match env now datagram peer = (\<lambda>(l, b).
     fst (handle_inbound C re_is_match env now (br_user_tables b) (take BUF_SIZE datagram) peer
       (l\<lparr>ul_associations := tm_expire now (ul_associations l)\<rparr>) b))"

text \<open>One turn of the reply pump of an association: what \<open>recv_from\<close> on its socket gave, and whether
  the reply could be sent.\<close>

definition pump_reply ::
  "'cc crypto \<Rightarrow> (nat \<Rightarrow> bytes option) \<Rightarrow> association_key \<Rightarrow> string + bytes \<times> socket_addr \<Rightarrow> string + unit \<Rightarrow>
   udp_listener \<times> 're backend \<Rightarrow> udp_listener \<times> 're backend" where
  "pump_reply C rand k received sent = (\<lambda>(l, b).
     case tm_lookup (ul_associations l) k of
       None \<Rightarrow> (l, b)
     | Some (a, _) \<Rightarrow>
         if as_outbound a \<in> set (ul_ended l) then (l, b)
         else case received of
                Inl _ \<Rightarrow> (l\<lparr>ul_ended := as_outbound a # ul_ended l\<rparr>, b)
              | Inr (data, from) \<Rightarrow>
                  let header = pack_socket_addr (sa_ip from) (sa_port from) @ take BUF_SIZE data
                  in case udp_encrypt_packet C rand (ul_master_key l) (as_response_key a) header (ul_cipher l) of
                       Inl _ \<Rightarrow> (l, b)
                     | Inr pkt \<Rightarrow>
                         let b = b\<lparr>br_traffic := count_bytes Download (as_counters a) (word_of_nat (length pkt)) (br_traffic b)\<rparr>;
                             l = l\<lparr>ul_charged := (as_counters a, Download, pkt) # ul_charged l\<rparr>
                         in case sent of
                              Inl _ \<Rightarrow> (l\<lparr>ul_ended := as_outbound a # ul_ended l\<rparr>, b)
                            | Inr _ \<Rightarrow> (l\<lparr>ul_replies := ul_replies l @ [(as_peer a, pkt)]\<rparr>, b))"

text \<open>The end of the loop, on the stop signal or when \<open>recv_from\<close> fails: the map is dropped, and with it
  every pump.\<close>

definition udp_stop :: "udp_listener \<Rightarrow> udp_listener" where
  "udp_stop l = l\<lparr>ul_running := False,
     ul_associations := tm_new (tm_ttl (ul_associations l)) (tm_capacity (ul_associations l))\<rparr>"

datatype udp_wakeup =
    Received udp_env nat bytes socket_addr
  | ReceiveFailed string
  | Stopping
  | Replied "nat \<Rightarrow> bytes option" association_key "string + bytes \<times> socket_addr" "string + unit"

fun udp_wake ::
  "'cc crypto \<Rightarrow> ('re \<Rightarrow> bytes \<Rightarrow> bool) \<Rightarrow> udp_wakeup \<Rightarrow> udp_listener \<times> 're backend \<Rightarrow> udp_listener \<times> 're backend" where
  "udp_wake C m (Received env now datagram peer) w =
     (if ul_running (fst w) then udp_receive C m env now datagram peer w else w)"
| "udp_wake C m (ReceiveFailed _) w = (udp_stop (fst w), snd w)"
| "udp_wake C m Stopping w = (udp_stop (fst w), snd w)"
| "udp_wake C m (Replied rand k received sent) w = pump_reply C rand k received sent w"

end
