(* ===== verification/Udp_Props.thy ===== *)
theory Udp_Props
  imports Udp Supervisor_Props "HOL-Library.Sublist"
begin

text \<open>
  What a UDP listener does over a run: it forwards and answers only for datagrams that
  authenticate, keeps to the user's policy and to its association bound, and carries a request and
  its reply unchanged.
\<close>

subsection \<open>Accepting a datagram\<close>

text \<open>The datagram authenticates with the published tables \<open>t\<close>: to whom it is attributed, the key of
  the replies, the counter it is charged to and its plaintext.\<close>

definition accepts ::
  "'cc crypto \<Rightarrow> udp_listener \<Rightarrow> user_tables \<Rightarrow> bytes \<Rightarrow> u64 \<Rightarrow> bytes \<Rightarrow> nat \<Rightarrow> bytes \<Rightarrow> bool" where
  "accepts C l t datagram uid rkey cnt plain \<longleftrightarrow>
     (\<exists>who. udp_decrypt_packet C (ul_master_key l) (hm_get (ut_auth_users t)) (ud_is_multi_user (ul_task l)) datagram
          (ul_cipher l) = Inr (plain, who) \<and>
        uid = unwrap_or who (ud_user_id (ul_task l)) \<and>
        rkey = response_key_of t (ul_master_key l) who \<and>
        conn_counters t uid (ud_user_id (ul_task l)) = Some cnt)"

definition same_listener :: "udp_listener \<Rightarrow> udp_listener \<Rightarrow> bool" where
  "same_listener l l' \<longleftrightarrow> ul_task l' = ul_task l \<and> ul_cipher l' = ul_cipher l \<and> ul_master_key l' = ul_master_key l"

lemma same_listener_charged [simp]: "same_listener l0 (l\<lparr>ul_charged := x\<rparr>) = same_listener l0 l"
  by (simp add: same_listener_def)

lemma accepts_cong: "same_listener l l' \<Longrightarrow> accepts C l' t = accepts C l t"
  by (intro ext) (simp add: accepts_def same_listener_def)

lemma handle_inbound_rejects:
  "udp_decrypt_packet C (ul_master_key l) (hm_get (ut_auth_users t)) (ud_is_multi_user (ul_task l)) datagram (ul_cipher l) = Inl e \<Longrightarrow>
   handle_inbound C m env now t datagram peer l b = ((l, b), Inl e)"
  by (simp add: handle_inbound_def)

lemma handle_inbound_accepts:
  assumes "accepts C l t datagram uid rkey cnt plain"
  shows "handle_inbound C m env now t datagram peer l b =
    (let b = b\<lparr>br_traffic := count_bytes Upload cnt (word_of_nat (length datagram)) (br_traffic b)\<rparr>;
         l = l\<lparr>ul_charged := (cnt, Upload, datagram) # ul_charged l\<rparr>;
         policy = hm_get (ut_policies t) uid
     in case parse_address plain of
          Inl e \<Rightarrow> ((l, b), Inl e)
        | Inr None \<Rightarrow> ((l, b), Inl UdpHeaderIncomplete)
        | Inr (Some (target, n)) \<Rightarrow>
            if policy_blocks_port (ud_enforcement (ul_task l)) policy (port target)
            then ((l, b), Inl (PortForbidden (port target)))
            else forward env now target policy \<lparr>ky_peer = peer, ky_user_id = uid\<rparr> rkey cnt (drop n plain)
                   (l, b\<lparr>br_events := snd (scan_payload m (br_detect_rules b) uid (show_ip (sa_ip peer)) (drop n plain) (br_events b))\<rparr>))"
proof -
  obtain who where "udp_decrypt_packet C (ul_master_key l) (hm_get (ut_auth_users t)) (ud_is_multi_user (ul_task l)) datagram
      (ul_cipher l) = Inr (plain, who)" "unwrap_or who (ud_user_id (ul_task l)) = uid"
    "response_key_of t (ul_master_key l) who = rkey" "conn_counters t uid (ud_user_id (ul_task l)) = Some cnt"
    using assms by (auto simp: accepts_def)
  then show ?thesis by (simp add: handle_inbound_def Let_def split: sum.split option.split)
qed

lemma handle_inbound_other:
  assumes "\<nexists>uid rkey cnt plain. accepts C l t datagram uid rkey cnt plain"
  shows "fst (handle_inbound C m env now t datagram peer l b) = (l, b) \<and>
    isl (snd (handle_inbound C m env now t datagram peer l b))"
proof (cases "udp_decrypt_packet C (ul_master_key l) (hm_get (ut_auth_users t)) (ud_is_multi_user (ul_task l)) datagram (ul_cipher l)")
  case (Inr x)
  then show ?thesis using assms by (cases x) (auto simp: accepts_def handle_inbound_def Let_def split: option.splits)
qed (simp add: handle_inbound_rejects)

subsection \<open>Associations\<close>

lemma tm_capacity_new: "tm_capacity (tm_new ttl cap) = max cap 1"
  by (simp add: tm_new_def)

lemma tm_lookup_insertD:
  "tm_lookup (tm_insert now k v m) j = Some (a, t) \<Longrightarrow> tm_ok m \<Longrightarrow> j = k \<and> a = v \<or> tm_lookup m j = Some (a, t)"
  using tm.look_ins [of m now k v] tm.look_ins_other [of m j k now v] by (cases "j = k") auto

text \<open>What a step adds to the associations: nothing, or one for the key at hand.\<close>

lemma find_association_facts:
  assumes ok: "tm_ok (ul_associations l)" and f: "find_association env now k rkey cnt (l, b) = ((l', b'), res)"
  shows "same_listener l l'" "tm_ok (ul_associations l')" "tm_capacity (ul_associations l') = tm_capacity (ul_associations l)"
    "ul_sent l' = ul_sent l" "ul_replies l' = ul_replies l" "ul_ended l' = ul_ended l" "ul_bound l \<le> ul_bound l'"
    "tm_lookup (ul_associations l') j = Some (a, t) \<Longrightarrow>
       (\<exists>t. tm_lookup (ul_associations l) j = Some (a, t)) \<or>
       j = k \<and> a = \<lparr>as_outbound = ul_bound l, as_response_key = rkey, as_counters = cnt, as_peer = ky_peer k\<rparr> \<and>
         ul_bound l' = ul_bound l + 1"
    "res = Inr out \<Longrightarrow> \<exists>a. tm_lookup (ul_associations l') k = Some (a, now) \<and> as_outbound a = out"
proof -
  have cap: "touch now k (ul_associations l) = (x, r) \<Longrightarrow> tm_capacity x = tm_capacity (ul_associations l)" for x r
    by (metis fst_conv tm_fields_ops(3))
  show "same_listener l l'" "tm_ok (ul_associations l')" "tm_capacity (ul_associations l') = tm_capacity (ul_associations l)"
    "ul_sent l' = ul_sent l" "ul_replies l' = ul_replies l" "ul_ended l' = ul_ended l" "ul_bound l \<le> ul_bound l'"
    using f ok tm_ok_touch [OF ok, of now k] cap
    by (auto simp: find_association_def same_listener_def Let_def tm_ok_insert split: prod.splits option.splits sum.splits)
  show "(\<exists>t. tm_lookup (ul_associations l) j = Some (a, t)) \<or>
       j = k \<and> a = \<lparr>as_outbound = ul_bound l, as_response_key = rkey, as_counters = cnt, as_peer = ky_peer k\<rparr> \<and>
         ul_bound l' = ul_bound l + 1"
    if "tm_lookup (ul_associations l') j = Some (a, t)"
  proof (cases "snd (touch now k (ul_associations l))")
    case None
    then have "l' = l \<or> l' = l\<lparr>ul_bound := ul_bound l + 1, ul_associations := tm_insert now k
        \<lparr>as_outbound = ul_bound l, as_response_key = rkey, as_counters = cnt, as_peer = ky_peer k\<rparr> (ul_associations l)\<rparr>"
      using f by (auto simp: find_association_def Let_def split: prod.splits sum.splits)
    then show ?thesis using that tm_lookup_insertD [OF _ ok, of now k _ j a t] by fastforce
  next
    case (Some x)
    then have "l' = l\<lparr>ul_associations := fst (touch now k (ul_associations l))\<rparr>"
      using f by (auto simp: find_association_def split: prod.splits)
    then show ?thesis using that by (auto simp: tm_lookup_touch split: if_splits)
  qed
  show "\<exists>a. tm_lookup (ul_associations l') k = Some (a, now) \<and> as_outbound a = out" if "res = Inr out"
    using f that tm_lookup_touch [of now k "ul_associations l" k] touch_result [of now k "ul_associations l"] tm.look_ins [OF ok]
    by (auto simp: find_association_def Let_def split: prod.splits option.splits sum.splits)
qed

subsection \<open>The invariant of a run\<close>

text \<open>A run of the listener and its pumps; the shared state at each step is whatever the rest of the
  program made of it.\<close>

type_synonym 're udp_trace = "('re backend \<times> udp_wakeup) list"

fun udp_run :: "'cc crypto \<Rightarrow> ('re \<Rightarrow> bytes \<Rightarrow> bool) \<Rightarrow> 're udp_trace \<Rightarrow> udp_listener \<Rightarrow> udp_listener" where
  "udp_run C m [] l = l"
| "udp_run C m ((b, e) # es) l = udp_run C m es (fst (udp_wake C m e (l, b)))"

text \<open>Some datagram of the run came from \<open>peer\<close> and was accepted.\<close>

definition vouched ::
  "'cc crypto \<Rightarrow> udp_listener \<Rightarrow> 're udp_trace \<Rightarrow> socket_addr \<Rightarrow> u64 \<Rightarrow> bytes \<Rightarrow> nat \<Rightarrow> bool" where
  "vouched C l es peer uid rkey cnt \<longleftrightarrow>
     (\<exists>b env now datagram plain. (b, Received env now datagram peer) \<in> set es \<and>
        accepts C l (br_user_tables b) (take BUF_SIZE datagram) uid rkey cnt plain)"

text \<open>What a datagram asks to be forwarded, if it authenticates and the policy of its user lets it.\<close>

fun request_of :: "'cc crypto \<Rightarrow> udp_listener \<Rightarrow> 're backend \<times> udp_wakeup \<Rightarrow> (udp_dest \<times> bytes) option" where
  "request_of C l (b, Received env now datagram peer) =
     (let t = br_user_tables b; enf = ud_enforcement (ul_task l) in
      case udp_decrypt_packet C (ul_master_key l) (hm_get (ut_auth_users t)) (ud_is_multi_user (ul_task l))
             (take BUF_SIZE datagram) (ul_cipher l) of
        Inr (plain, who) \<Rightarrow>
          let uid = unwrap_or who (ud_user_id (ul_task l)); policy = hm_get (ut_policies t) uid in
          (case (conn_counters t uid (ud_user_id (ul_task l)), parse_address plain) of
             (Some _, Inr (Some (target, n))) \<Rightarrow>
               if policy_blocks_port enf policy (port target) then None
               else (case resolve_udp_dest (ue_net env) target policy enf of
                       Inr dest \<Rightarrow> Some (dest, drop n plain)
                     | Inl _ \<Rightarrow> None)
           | _ \<Rightarrow> None)
      | Inl _ \<Rightarrow> None)"
| "request_of C l _ = None"

definition requests :: "'cc crypto \<Rightarrow> udp_listener \<Rightarrow> 're udp_trace \<Rightarrow> (udp_dest \<times> bytes) list" where
  "requests C l es = List.map_filter (request_of C l) es"

text \<open>Some datagram of the run from \<open>peer\<close> was accepted for \<open>uid\<close> and asked for this forwarding.\<close>

definition forwarded ::
  "'cc crypto \<Rightarrow> udp_listener \<Rightarrow> 're udp_trace \<Rightarrow> association_key \<Rightarrow> udp_dest \<Rightarrow> bytes \<Rightarrow> bool" where
  "forwarded C l es k dest payload \<longleftrightarrow>
     (\<exists>b env now datagram rkey cnt plain target n. (b, Received env now datagram (ky_peer k)) \<in> set es \<and>
        accepts C l (br_user_tables b) (take BUF_SIZE datagram) (ky_user_id k) rkey cnt plain \<and>
        parse_address plain = Inr (Some (target, n)) \<and> payload = drop n plain \<and>
        \<not> policy_blocks_port (ud_enforcement (ul_task l)) (hm_get (ut_policies (br_user_tables b)) (ky_user_id k)) (port target) \<and>
        resolve_udp_dest (ue_net env) target (hm_get (ut_policies (br_user_tables b)) (ky_user_id k))
          (ud_enforcement (ul_task l)) = Inr dest)"

definition answered :: "'cc crypto \<Rightarrow> udp_listener \<Rightarrow> 're udp_trace \<Rightarrow> socket_addr \<Rightarrow> bytes \<Rightarrow> bool" where
  "answered C l es peer pkt \<longleftrightarrow>
     (\<exists>uid rkey cnt rand (from :: socket_addr) data. vouched C l es peer uid rkey cnt \<and>
        udp_encrypt_packet C rand (ul_master_key l) rkey (pack_socket_addr (sa_ip from) (sa_port from) @ data) (ul_cipher l) = Inr pkt)"

definition assocs_ok :: "'cc crypto \<Rightarrow> udp_listener \<Rightarrow> 're udp_trace \<Rightarrow> udp_listener \<Rightarrow> bool" where
  "assocs_ok C l0 es l \<longleftrightarrow>
     (\<forall>k a t. tm_lookup (ul_associations l) k = Some (a, t) \<longrightarrow>
        as_peer a = ky_peer k \<and> as_outbound a < ul_bound l \<and>
        vouched C l0 es (ky_peer k) (ky_user_id k) (as_response_key a) (as_counters a) \<and>
        (\<forall>j a' t'. tm_lookup (ul_associations l) j = Some (a', t') \<longrightarrow> as_outbound a' = as_outbound a \<longrightarrow> j = k))"

definition sent_ok :: "'cc crypto \<Rightarrow> udp_listener \<Rightarrow> 're udp_trace \<Rightarrow> udp_listener \<Rightarrow> bool" where
  "sent_ok C l0 es l \<longleftrightarrow>
     (\<forall>out dest payload. (out, dest, payload) \<in> set (ul_sent l) \<longrightarrow> out < ul_bound l \<and>
        (\<exists>k. forwarded C l0 es k dest payload \<and>
           (\<forall>j a t. tm_lookup (ul_associations l) j = Some (a, t) \<longrightarrow> as_outbound a = out \<longrightarrow> j = k)))"

definition udp_inv :: "'cc crypto \<Rightarrow> udp_listener \<Rightarrow> 're udp_trace \<Rightarrow> udp_listener \<Rightarrow> bool" where
  "udp_inv C l0 es l \<longleftrightarrow>
     same_listener l0 l \<and> tm_ok (ul_associations l) \<and>
     tm_capacity (ul_associations l) = tm_capacity (ul_associations l0) \<and>
     assocs_ok C l0 es l \<and> sent_ok C l0 es l \<and> list_all (\<lambda>out. out < ul_bound l) (ul_ended l) \<and>
     (\<forall>x \<in> set (ul_replies l). answered C l0 es (fst x) (snd x))"

lemma udp_inv_charged [simp]: "udp_inv C l0 es (l\<lparr>ul_charged := x\<rparr>) = udp_inv C l0 es l"
  by (simp add: udp_inv_def assocs_ok_def sent_ok_def)

lemma history_mono:
  assumes "set es \<subseteq> set es'"
  shows "vouched C l es peer uid rkey cnt \<Longrightarrow> vouched C l es' peer uid rkey cnt"
    "forwarded C l es k dest payload \<Longrightarrow> forwarded C l es' k dest payload"
    "answered C l es peer pkt \<Longrightarrow> answered C l es' peer pkt"
proof -
  show v: "vouched C l es peer uid rkey cnt \<Longrightarrow> vouched C l es' peer uid rkey cnt" for uid rkey cnt
    unfolding vouched_def using assms by blast
  show "forwarded C l es k dest payload \<Longrightarrow> forwarded C l es' k dest payload"
    unfolding forwarded_def using assms by blast
  show "answered C l es peer pkt \<Longrightarrow> answered C l es' peer pkt"
    unfolding answered_def using v by blast
qed

lemma udp_inv_mono: "udp_inv C l0 es l \<Longrightarrow> set es \<subseteq> set es' \<Longrightarrow> udp_inv C l0 es' l"
  unfolding udp_inv_def assocs_ok_def sent_ok_def by (meson history_mono)

text \<open>Forgetting associations keeps the invariant.\<close>

lemma udp_inv_forget:
  assumes "udp_inv C l0 es l" "tm_ok m" "tm_capacity m = tm_capacity (ul_associations l)"
    and "\<And>k x. tm_lookup m k = Some x \<Longrightarrow> tm_lookup (ul_associations l) k = Some x"
  shows "udp_inv C l0 es (l\<lparr>ul_running := r, ul_associations := m\<rparr>)"
  using assms unfolding udp_inv_def assocs_ok_def sent_ok_def same_listener_def by simp meson

lemma udp_inv_expire:
  assumes "udp_inv C l0 es l"
  shows "udp_inv C l0 es (l\<lparr>ul_associations := tm_expire now (ul_associations l)\<rparr>)"
proof -
  have ok: "tm_ok (ul_associations l)" using assms by (simp add: udp_inv_def)
  have "tm_lookup (tm_expire now (ul_associations l)) k = Some x \<Longrightarrow> tm_lookup (ul_associations l) k = Some x" for k x
    by (auto simp: tm_lookup_expire [OF ok] split: option.splits if_splits)
  from udp_inv_forget [OF assms tm_ok_expire [OF ok] _ this, of now "ul_running l"] show ?thesis by simp
qed

lemma udp_inv_stop: "udp_inv C l0 es l \<Longrightarrow> udp_inv C l0 es (udp_stop l)"
  unfolding udp_stop_def
  by (rule udp_inv_forget) (simp_all add: tm_ok_new tm_capacity_new udp_inv_def tm_ok_def [of "ul_associations l"])

lemma udp_inv_found:
  assumes inv: "udp_inv C l0 es l" and f: "find_association env now k rkey cnt (l, b) = ((l', b'), res)"
    and v: "vouched C l0 es (ky_peer k) (ky_user_id k) rkey cnt"
  shows "udp_inv C l0 es l'"
proof -
  note i = inv [unfolded udp_inv_def]
  have ok: "tm_ok (ul_associations l)" using i by simp
  note ff = find_association_facts [OF ok f]
  have old: "as_outbound a < ul_bound l" if "tm_lookup (ul_associations l) j = Some (a, t)" for j a t
    using i that by (auto simp: assocs_ok_def)
  have "assocs_ok C l0 es l'"
    unfolding assocs_ok_def
  proof (intro allI impI)
    fix j a t assume j: "tm_lookup (ul_associations l') j = Some (a, t)"
    have "as_peer a = ky_peer j \<and> as_outbound a < ul_bound l' \<and> vouched C l0 es (ky_peer j) (ky_user_id j) (as_response_key a) (as_counters a)"
      using ff(7) ff(8) [OF j] i v by (auto simp: assocs_ok_def intro: less_le_trans)
    moreover have "j' = j" if j': "tm_lookup (ul_associations l') j' = Some (a', t')" "as_outbound a' = as_outbound a" for j' a' t'
      using ff(8) [OF j] ff(8) [OF j'(1)] j'(2) i old by (fastforce simp: assocs_ok_def)
    ultimately show "as_peer a = ky_peer j \<and> as_outbound a < ul_bound l' \<and>
        vouched C l0 es (ky_peer j) (ky_user_id j) (as_response_key a) (as_counters a) \<and>
        (\<forall>j' a' t'. tm_lookup (ul_associations l') j' = Some (a', t') \<longrightarrow> as_outbound a' = as_outbound a \<longrightarrow> j' = j)"
      by blast
  qed
  moreover have "sent_ok C l0 es l'"
    unfolding sent_ok_def ff(4)
  proof (intro allI impI)
    fix out dest payload assume "(out, dest, payload) \<in> set (ul_sent l)"
    then obtain j where j: "out < ul_bound l" "forwarded C l0 es j dest payload"
      "\<And>j' a t. tm_lookup (ul_associations l) j' = Some (a, t) \<Longrightarrow> as_outbound a = out \<Longrightarrow> j' = j"
      using i unfolding sent_ok_def by blast
    have "j' = j" if "tm_lookup (ul_associations l') j' = Some (a, t)" "as_outbound a = out" for j' a t
      using ff(8) [OF that(1)] that(2) j(1,3) by auto
    then show "out < ul_bound l' \<and> (\<exists>k. forwarded C l0 es k dest payload \<and>
        (\<forall>j a t. tm_lookup (ul_associations l') j = Some (a, t) \<longrightarrow> as_outbound a = out \<longrightarrow> j = k))"
      using j(1,2) ff(7) by (blast intro: less_le_trans)
  qed
  ultimately show ?thesis using i ff(1-3,5-7)
    by (auto simp: udp_inv_def same_listener_def list_all_iff intro: less_le_trans)
qed

lemma udp_inv_send:
  assumes inv: "udp_inv C l0 es l" and k: "tm_lookup (ul_associations l) k = Some (a, t)" "as_outbound a = out"
    and fwd: "forwarded C l0 es k dest payload"
  shows "udp_inv C l0 es (l\<lparr>ul_sent := ul_sent l @ [(out, dest, payload)]\<rparr>)"
proof -
  note i = inv [unfolded udp_inv_def]
  have "out < ul_bound l" "\<And>j a' t'. tm_lookup (ul_associations l) j = Some (a', t') \<Longrightarrow> as_outbound a' = out \<Longrightarrow> j = k"
    using i k by (auto simp: assocs_ok_def)
  then have "sent_ok C l0 es (l\<lparr>ul_sent := ul_sent l @ [(out, dest, payload)]\<rparr>)"
    using i fwd unfolding sent_ok_def by simp blast
  then show ?thesis using i by (simp add: udp_inv_def assocs_ok_def same_listener_def)
qed

lemma udp_inv_forward:
  assumes inv: "udp_inv C l0 es l" and b: "br_user_tables b0 = t" "(b0, Received env now datagram peer) \<in> set es"
    and acc: "accepts C l0 t (take BUF_SIZE datagram) uid rkey cnt plain" "parse_address plain = Inr (Some (target, n))"
    and pol: "policy = hm_get (ut_policies t) uid" "\<not> policy_blocks_port (ud_enforcement (ul_task l0)) policy (port target)"
  shows "udp_inv C l0 es (fst (fst (forward env now target policy \<lparr>ky_peer = peer, ky_user_id = uid\<rparr> rkey cnt (drop n plain) (l, b))))"
proof -
  let ?k = "\<lparr>ky_peer = peer, ky_user_id = uid\<rparr>"
  have task: "ul_task l = ul_task l0" and ok: "tm_ok (ul_associations l)"
    using inv by (simp_all add: udp_inv_def same_listener_def)
  show ?thesis
  proof (cases "resolve_udp_dest (ue_net env) target policy (ud_enforcement (ul_task l0))")
    case (Inl e)
    then show ?thesis using inv by (simp add: forward_def task)
  next
    case (Inr dest)
    obtain l1 b1 res where f: "find_association env now ?k rkey cnt (l, b) = ((l1, b1), res)" by (metis prod.collapse)
    have "vouched C l0 es (ky_peer ?k) (ky_user_id ?k) rkey cnt" unfolding vouched_def using b acc(1) by (simp, blast)
    from udp_inv_found [OF inv f this] have l1: "udp_inv C l0 es l1" .
    have "forwarded C l0 es ?k dest (drop n plain)"
      unfolding forwarded_def using b acc pol Inr by (simp, blast)
    then have "udp_inv C l0 es (l1\<lparr>ul_sent := ul_sent l1 @ [(out, dest, drop n plain)]\<rparr>)" if "res = Inr out" for out
      using udp_inv_send [OF l1] find_association_facts(9) [OF ok f that] by blast
    then show ?thesis using l1 Inr f by (auto simp: forward_def task split: sum.split)
  qed
qed

lemma udp_inv_receive:
  assumes inv: "udp_inv C l0 es l" and here: "(b, Received env now datagram peer) \<in> set es"
  shows "udp_inv C l0 es (fst (udp_receive C m env now datagram peer (l, b)))"
proof -
  let ?l = "l\<lparr>ul_associations := tm_expire now (ul_associations l)\<rparr>" and ?d = "take BUF_SIZE datagram"
  have inv': "udp_inv C l0 es ?l" by (rule udp_inv_expire [OF inv])
  have same: "same_listener l0 ?l" "ul_task l = ul_task l0" using inv' by (simp_all add: udp_inv_def same_listener_def)
  show ?thesis
  proof (cases "\<exists>uid rkey cnt plain. accepts C ?l (br_user_tables b) ?d uid rkey cnt plain")
    case False
    then show ?thesis using handle_inbound_other [of C ?l "br_user_tables b" ?d m env now peer b] inv'
      by (simp add: udp_receive_def)
  next
    case True
    then obtain uid rkey cnt plain where acc: "accepts C ?l (br_user_tables b) ?d uid rkey cnt plain" by blast
    have "udp_inv C l0 es (?l\<lparr>ul_charged := (cnt, Upload, ?d) # ul_charged l\<rparr>)" using inv' by simp
    note fwd = udp_inv_forward [OF this refl here acc [unfolded accepts_cong [OF same(1)]]]
    show ?thesis
      using inv' fwd [OF _ refl]
      by (auto simp: udp_receive_def handle_inbound_accepts [OF acc] same(2) Let_def split: sum.split option.split)
  qed
qed

lemma udp_inv_reply:
  assumes inv: "udp_inv C l0 es l"
  shows "udp_inv C l0 es (fst (pump_reply C rand k received sent (l, b)))"
proof (cases "tm_lookup (ul_associations l) k")
  case None
  then show ?thesis using inv by (simp add: pump_reply_def)
next
  case (Some x)
  obtain a t where x: "x = (a, t)" by (cases x)
  note i = inv [unfolded udp_inv_def]
  have v: "as_peer a = ky_peer k" "vouched C l0 es (ky_peer k) (ky_user_id k) (as_response_key a) (as_counters a)"
    and out: "as_outbound a < ul_bound l"
    and same: "ul_master_key l = ul_master_key l0" "ul_cipher l = ul_cipher l0"
    using i Some x by (auto simp: same_listener_def assocs_ok_def)
  have "answered C l0 es (as_peer a) pkt"
    if "udp_encrypt_packet C rand (ul_master_key l) (as_response_key a) (pack_socket_addr (sa_ip from) (sa_port from) @ data)
      (ul_cipher l) = Inr pkt" for pkt data and "from" :: socket_addr
    unfolding answered_def using that v same by metis
  then show ?thesis using i Some x out
    by (auto simp: pump_reply_def udp_inv_def same_listener_def assocs_ok_def sent_ok_def Let_def split: sum.split prod.split)
qed

lemma udp_inv_run:
  "udp_inv C l0 past l \<Longrightarrow> udp_inv C l0 (past @ es) (udp_run C m es l)"
proof (induction C m es l arbitrary: past rule: udp_run.induct)
  case (2 C m b e es l)
  have "udp_inv C l0 (past @ [(b, e)]) l" by (rule udp_inv_mono [OF "2.prems"]) auto
  then have "udp_inv C l0 (past @ [(b, e)]) (fst (udp_wake C m e (l, b)))"
    by (cases e) (auto simp: udp_inv_receive udp_inv_reply udp_inv_stop)
  from "2.IH" [OF this] show ?case by simp
qed simp

lemma udp_inv_listen:
  "udp_listen C t = Inr l \<Longrightarrow> udp_inv C l [] l \<and> tm_capacity (ul_associations l) = max (ud_max_associations t) 1 \<and> ul_task l = t"
  by (auto simp: udp_listen_def udp_inv_def same_listener_def assocs_ok_def sent_ok_def tm_ok_new tm_capacity_new split: sum.splits)

subsection \<open>What is forwarded\<close>

lemma request_of_accepts:
  assumes "accepts C l (br_user_tables b) (take BUF_SIZE datagram) uid rkey cnt plain"
  shows "request_of C l (b, Received env now datagram peer) =
    (case parse_address plain of
       Inr (Some (target, n)) \<Rightarrow>
         if policy_blocks_port (ud_enforcement (ul_task l)) (hm_get (ut_policies (br_user_tables b)) uid) (port target) then None
         else (case resolve_udp_dest (ue_net env) target (hm_get (ut_policies (br_user_tables b)) uid) (ud_enforcement (ul_task l)) of
                 Inr dest \<Rightarrow> Some (dest, drop n plain)
               | Inl _ \<Rightarrow> None)
     | _ \<Rightarrow> None)"
  using assms by (auto simp: accepts_def Let_def split: sum.split option.split)

lemma request_of_other:
  assumes "\<nexists>uid rkey cnt plain. accepts C l (br_user_tables b) (take BUF_SIZE datagram) uid rkey cnt plain"
  shows "request_of C l (b, Received env now datagram peer) = None"
  using assms by (auto simp: accepts_def Let_def split: sum.split option.split prod.split)

lemma request_of_cong: "same_listener l l' \<Longrightarrow> request_of C l' = request_of C l"
proof (rule ext)
  fix x assume "same_listener l l'"
  then have eq: "ul_task l' = ul_task l" "ul_cipher l' = ul_cipher l" "ul_master_key l' = ul_master_key l"
    by (simp_all add: same_listener_def)
  show "request_of C l' x = request_of C l x"
    by (cases "(C, l, x)" rule: request_of.cases) (simp_all, unfold eq, rule refl)
qed

definition env_works :: "udp_env \<Rightarrow> bool" where
  "env_works env \<longleftrightarrow> ue_bind env = Inr () \<and> ue_send env = Inr ()"

lemma forward_sent:
  assumes ok: "tm_ok (ul_associations l)"
    and d: "resolve_udp_dest (ue_net env) target policy (ud_enforcement (ul_task l)) = Inr dest"
    and fwd: "fst (forward env now target policy k rkey cnt payload (l, b)) = (l', b')"
  shows "\<exists>done. map snd (ul_sent l') = map snd (ul_sent l) @ done \<and> (done = [] \<or> done = [(dest, payload)]) \<and>
    (env_works env \<longrightarrow> done = [(dest, payload)])" "ul_running l' = ul_running l"
proof -
  obtain l1 b1 res where f: "find_association env now k rkey cnt (l, b) = ((l1, b1), res)" by (metis prod.collapse)
  have run: "ul_running l1 = ul_running l" and b: "ue_bind env = Inr () \<Longrightarrow> \<exists>out. res = Inr out"
    using f by (auto simp: find_association_def Let_def split: prod.splits option.splits sum.splits)
  note s = find_association_facts(4) [OF ok f]
  have "l' = l1 \<and> \<not> env_works env \<or> (\<exists>out. l' = l1\<lparr>ul_sent := ul_sent l1 @ [(out, dest, payload)]\<rparr>)"
    using fwd d f b by (auto simp: forward_def env_works_def split: sum.splits)
  then show "\<exists>done. map snd (ul_sent l') = map snd (ul_sent l) @ done \<and> (done = [] \<or> done = [(dest, payload)]) \<and>
      (env_works env \<longrightarrow> done = [(dest, payload)])" "ul_running l' = ul_running l"
    using s run by auto
qed

lemma receive_sent:
  assumes ok: "tm_ok (ul_associations l)" and r: "udp_receive C m env now datagram peer (l, b) = (l', b')"
  shows "\<exists>done. map snd (ul_sent l') = map snd (ul_sent l) @ done \<and>
      (done = [] \<or> (\<exists>x. request_of C l (b, Received env now datagram peer) = Some x \<and> done = [x])) \<and>
      (env_works env \<longrightarrow> done = (case request_of C l (b, Received env now datagram peer) of Some x \<Rightarrow> [x] | None \<Rightarrow> [])) \<and>
      ul_running l' = ul_running l"
proof -
  let ?l = "l\<lparr>ul_associations := tm_expire now (ul_associations l)\<rparr>" and ?d = "take BUF_SIZE datagram" and ?t = "br_user_tables b"
  have same: "same_listener ?l l" by (simp add: same_listener_def)
  have h: "fst (handle_inbound C m env now ?t ?d peer ?l b) = (l', b')" using r by (simp add: udp_receive_def)
  show ?thesis
  proof (cases "\<exists>uid rkey cnt plain. accepts C ?l ?t ?d uid rkey cnt plain")
    case False
    then show ?thesis using handle_inbound_other [OF False, of m env now peer b] h request_of_other [of C l b datagram env now peer]
      by (simp add: accepts_cong [OF same])
  next
    case True
    then obtain uid rkey cnt plain where acc: "accepts C ?l ?t ?d uid rkey cnt plain" by blast
    note acc' = acc [folded accepts_cong [OF same]]
    note hh = h [unfolded handle_inbound_accepts [OF acc] Let_def]
    show ?thesis
    proof (cases "\<exists>target n dest. parse_address plain = Inr (Some (target, n)) \<and>
        \<not> policy_blocks_port (ud_enforcement (ul_task l)) (hm_get (ut_policies ?t) uid) (port target) \<and>
        resolve_udp_dest (ue_net env) target (hm_get (ut_policies ?t) uid) (ud_enforcement (ul_task l)) = Inr dest")
      case False
      then have "request_of C l (b, Received env now datagram peer) = None"
        unfolding request_of_accepts [OF acc'] by (auto split: sum.split option.split)
      moreover have "ul_sent l' = ul_sent l \<and> ul_running l' = ul_running l"
        using hh False by (auto simp: forward_def split: sum.splits option.splits if_splits)
      ultimately show ?thesis by simp
    next
      case True
      then obtain target n dest where t: "parse_address plain = Inr (Some (target, n))"
        "\<not> policy_blocks_port (ud_enforcement (ul_task l)) (hm_get (ut_policies ?t) uid) (port target)"
        "resolve_udp_dest (ue_net env) target (hm_get (ut_policies ?t) uid) (ud_enforcement (ul_task ?l)) = Inr dest" by auto
      then have req: "request_of C l (b, Received env now datagram peer) = Some (dest, drop n plain)"
        unfolding request_of_accepts [OF acc'] by simp
      let ?lc = "?l\<lparr>ul_charged := (cnt, Upload, ?d) # ul_charged l\<rparr>"
      obtain b1 where fwd: "fst (forward env now target (hm_get (ut_policies ?t) uid) \<lparr>ky_peer = peer, ky_user_id = uid\<rparr> rkey cnt
          (drop n plain) (?lc, b1)) = (l', b')"
        using hh t(1,2) by auto
      have "tm_ok (ul_associations ?lc)" using ok by (simp add: tm_ok_expire)
      from forward_sent [OF this _ fwd] t(3) show ?thesis unfolding req by auto
    qed
  qed
qed

fun step_works :: "udp_wakeup \<Rightarrow> bool" where
  "step_works (Received env now datagram peer) = env_works env"
| "step_works (ReceiveFailed e) = False"
| "step_works Stopping = False"
| "step_works (Replied rand k received sent) = True"

lemma run_sent:
  fixes past es :: "'re udp_trace"
  shows "udp_inv C l0 past l \<Longrightarrow>
   \<exists>done. map snd (ul_sent (udp_run C m es l)) = map snd (ul_sent l) @ done \<and> subseq done (requests C l0 es) \<and>
     (ul_running l \<and> list_all (step_works \<circ> snd) es \<longrightarrow> done = requests C l0 es)"
proof (induction C m es l arbitrary: past rule: udp_run.induct)
  case (1 C m l)
  then show ?case by (auto simp: requests_def map_filter_simps)
next
  case (2 C m b e es l)
  let ?l = "fst (udp_wake C m e (l, b))" and ?req = "case request_of C l0 (b, e) of Some x \<Rightarrow> [x] | None \<Rightarrow> []"
  have inv: "udp_inv C l0 (past @ [(b, e)]) ?l"
    using udp_inv_run [OF "2.prems", of "[(b, e)]" m] by simp
  have ok: "tm_ok (ul_associations l)" and req: "request_of C l = request_of C l0"
    using "2.prems" request_of_cong by (auto simp: udp_inv_def)
  have "\<exists>done. map snd (ul_sent ?l) = map snd (ul_sent l) @ done \<and> subseq done ?req \<and>
      (ul_running l \<and> step_works e \<longrightarrow> done = ?req \<and> ul_running ?l)"
  proof (cases e)
    case (Received env now datagram peer)
    obtain l' b' where r: "udp_receive C m env now datagram peer (l, b) = (l', b')" by (metis prod.collapse)
    show ?thesis using receive_sent [OF ok r] Received r unfolding req by (auto split: option.splits)
  next
    case (Replied rand k received sent)
    then have "ul_sent ?l = ul_sent l \<and> ul_running ?l = ul_running l"
      by (auto simp: pump_reply_def Let_def split: option.split sum.split prod.split)
    then show ?thesis using Replied by simp
  qed (simp_all add: udp_stop_def)
  then obtain x where x: "map snd (ul_sent ?l) = map snd (ul_sent l) @ x" "subseq x ?req"
    "ul_running l \<Longrightarrow> step_works e \<Longrightarrow> x = ?req \<and> ul_running ?l" by blast
  from "2.IH" [OF inv] obtain y where y: "map snd (ul_sent (udp_run C m es ?l)) = map snd (ul_sent ?l) @ y"
    "subseq y (requests C l0 es)" "ul_running ?l \<Longrightarrow> list_all (step_works \<circ> snd) es \<Longrightarrow> y = requests C l0 es" by blast
  have r: "requests C l0 ((b, e) # es) = ?req @ requests C l0 es"
    by (simp add: requests_def map_filter_simps split: option.split)
  show ?case unfolding r using x y by (intro exI [of _ "x @ y"]) (auto simp: comp_def intro: list_emb_append_mono)
qed

text \<open>The policy of the user admits the destination of the target.\<close>

definition permitted :: "enforcement_config \<Rightarrow> user_policy option \<Rightarrow> address \<Rightarrow> udp_dest \<Rightarrow> bool" where
  "permitted enf policy target dest \<longleftrightarrow>
     (case policy of
        Some pol \<Rightarrow> ec_forbidden enf \<longrightarrow> \<not> port_forbidden pol (port target) \<and>
          (case dest of
             Addr a \<Rightarrow> \<not> ip_forbidden pol (sa_ip a)
           | HostPort h p \<Rightarrow> \<not> has_forbidden_ip pol \<and> h = host target \<and> p = port target)
      | None \<Rightarrow> dest = HostPort (host target) (port target))"

lemma resolved_permitted:
  assumes "resolve_udp_dest nt target policy enf = Inr dest" "\<not> policy_blocks_port enf policy (port target)"
  shows "permitted enf policy target dest"
proof (cases policy)
  case None
  then show ?thesis using assms(1) by (simp add: permitted_def resolve_udp_dest_def ip_check_def)
next
  case (Some pol)
  then show ?thesis using assms resolve_udp_sound [OF assms(1) [unfolded Some]]
    by (auto simp: permitted_def policy_blocks_port_def split: udp_dest.splits)
qed

subsection \<open>An association in use\<close>

lemma touch_found:
  "tm_lookup m k = Some (a, t) \<Longrightarrow> \<exists>m'. touch now k m = (m', Some a) \<and> tm_lookup m' k = Some (a, now)"
  using tm_lookup_touch [of now k m k] touch_result [of now k m] by (cases "touch now k m") auto

lemma forward_found:
  assumes "tm_lookup (ul_associations l) k = Some (a, t)"
    "resolve_udp_dest (ue_net env) target policy (ud_enforcement (ul_task l)) = Inr dest" "ue_send env = Inr ()"
  shows "\<exists>m'. tm_lookup m' k = Some (a, now) \<and>
    fst (forward env now target policy k rkey cnt payload (l, b)) =
      (l\<lparr>ul_associations := m', ul_sent := ul_sent l @ [(as_outbound a, dest, payload)]\<rparr>, b)"
  using touch_found [OF assms(1), of now] assms(2,3) by (auto simp: forward_def find_association_def)

lemma forward_fresh:
  assumes "tm_ok (ul_associations l)" "tm_lookup (ul_associations l) k = None" "env_works env"
    "resolve_udp_dest (ue_net env) target policy (ud_enforcement (ul_task l)) = Inr dest"
  shows "\<exists>m' b'. tm_lookup m' k =
      Some (\<lparr>as_outbound = ul_bound l, as_response_key = rkey, as_counters = cnt, as_peer = ky_peer k\<rparr>, now) \<and>
    br_traffic b' = br_traffic b \<and>
    fst (forward env now target policy k rkey cnt payload (l, b)) =
      (l\<lparr>ul_bound := ul_bound l + 1, ul_associations := m', ul_sent := ul_sent l @ [(ul_bound l, dest, payload)]\<rparr>, b')"
proof -
  let ?a = "\<lparr>as_outbound = ul_bound l, as_response_key = rkey, as_counters = cnt, as_peer = ky_peer k\<rparr>"
  let ?m = "tm_insert now k ?a (ul_associations l)"
  obtain m0 where t: "touch now k (ul_associations l) = (m0, None)"
    using assms(2) touch_result [of now k "ul_associations l"] by (cases "touch now k (ul_associations l)") simp
  show ?thesis using assms(3,4) tm.look_ins [OF assms(1), of now k ?a]
    by (intro exI [of _ ?m]) (auto simp: forward_def find_association_def env_works_def t Let_def)
qed

lemma response_key_is_user_key:
  "udp_user mkey (hm_get (ut_auth_users t)) multi iv uid = (key, who) \<Longrightarrow> who \<noteq> None \<or> multi = 0 \<Longrightarrow>
   response_key_of t mkey who = key"
  by (auto simp: udp_user_def response_key_of_def split: option.splits if_splits)

lemma pump_reply_alive:
  assumes "tm_lookup (ul_associations l) k = Some (a, t)" "as_outbound a \<notin> set (ul_ended l)"
    and "crypto_ok C" "new_stream C (ul_cipher l) (ul_master_key l) iv = Inr c" "rand (iv_len (ul_cipher l)) = Some iv"
    and "length data \<le> BUF_SIZE" "header = pack_socket_addr (sa_ip from) (sa_port from) @ data"
  shows "\<exists>cipher. pump_reply C rand k (Inr (data, from)) (Inr ()) (l, b) =
      (l\<lparr>ul_replies := ul_replies l @ [(as_peer a, iv @ cipher)],
         ul_charged := (as_counters a, Download, iv @ cipher) # ul_charged l\<rparr>,
       b\<lparr>br_traffic := count_bytes Download (as_counters a) (word_of_nat (length (iv @ cipher))) (br_traffic b)\<rparr>) \<and>
    snd (stream_process C c cipher) = header @ hmac_md5_prefix C (as_response_key a) header 4"
proof -
  obtain cipher where c: "udp_encrypt_packet C rand (ul_master_key l) (as_response_key a) header (ul_cipher l) = Inr (iv @ cipher)"
    "snd (stream_process C c cipher) = header @ hmac_md5_prefix C (as_response_key a) header 4"
    using udp_reply_decodes [where rand = rand, OF assms(3,4,5)] by blast
  then show ?thesis using assms(1,2,6,7) by (intro exI [of _ cipher]) (simp add: pump_reply_def)
qed

lemma receive_accepted:
  assumes "accepts C l (br_user_tables b) datagram uid rkey cnt plain" "length datagram \<le> BUF_SIZE"
    and "parse_address plain = Inr (Some (target, n))"
    and "\<not> policy_blocks_port (ud_enforcement (ul_task l)) (hm_get (ut_policies (br_user_tables b)) uid) (port target)"
  shows "\<exists>b'. br_traffic b' = count_bytes Upload cnt (word_of_nat (length datagram)) (br_traffic b) \<and>
    udp_receive C m env now datagram peer (l, b) =
      fst (forward env now target (hm_get (ut_policies (br_user_tables b)) uid) \<lparr>ky_peer = peer, ky_user_id = uid\<rparr> rkey cnt (drop n plain)
        (l\<lparr>ul_associations := tm_expire now (ul_associations l), ul_charged := (cnt, Upload, datagram) # ul_charged l\<rparr>, b'))"
proof -
  let ?l = "l\<lparr>ul_associations := tm_expire now (ul_associations l)\<rparr>"
  have "accepts C ?l (br_user_tables b) datagram uid rkey cnt plain"
    using assms(1) accepts_cong [of l ?l C] by (simp add: same_listener_def)
  note h = handle_inbound_accepts [OF this]
  show ?thesis using assms(2-4)
    by (simp add: udp_receive_def h Let_def) (rule exI, rule conjI [rotated], rule refl, simp)
qed

end
