(* ===== verification/Ssr_Duplex.thy ===== *)
theory Ssr_Duplex
  imports Ssr_Session_Props
begin

text \<open>
  One \<open>ServerSession\<close> serves both directions of a connection from a single task. The relay relies
  on the two halves being independent: once the handshake header is in, decrypting and encrypting
  may be interleaved in any order and each direction sees the stream it would see alone.
\<close>

subsection \<open>The send counter is invisible to the receive path\<close>

definition set_pack :: "u32 \<Rightarrow> auth \<Rightarrow> auth" where
  "set_pack n p = p\<lparr>pack_id := n\<rparr>"

lemma set_pack_sel [simp]:
  "user_key (set_pack n p) = user_key p" "recv_id (set_pack n p) = recv_id p" "recv_buf (set_pack n p) = recv_buf p"
  "has_recv_header (set_pack n p) = has_recv_header p" "pack_id (set_pack n p) = n" "users (set_pack n p) = users p"
  "is_multi_user (set_pack n p) = is_multi_user p" "recv_iv (set_pack n p) = recv_iv p"
  "master_key (set_pack n p) = master_key p" "user_id (set_pack n p) = user_id p" "aes_key (set_pack n p) = aes_key p"
  by (simp_all add: set_pack_def)

lemma set_pack_upd:
  "set_pack n (p\<lparr>recv_buf := b\<rparr>) = (set_pack n p)\<lparr>recv_buf := b\<rparr>"
  "set_pack n (p\<lparr>recv_id := i\<rparr>) = (set_pack n p)\<lparr>recv_id := i\<rparr>"
  "set_pack n (p\<lparr>has_recv_header := h\<rparr>) = (set_pack n p)\<lparr>has_recv_header := h\<rparr>"
  "set_pack n (buffer p xs) = buffer (set_pack n p) xs"
  "select_user C (set_pack n p) u = set_pack n (select_user C p u)"
  "aes_decrypt_block C (set_pack n p) blk = aes_decrypt_block C p blk"
  by (auto simp: set_pack_def buffer_def select_user_def rebuild_aes_key_def aes_decrypt_block_def split: option.split)

lemma header_step_pack: "header_step C (set_pack n p) = map_outcome (set_pack n) (header_step C p)"
  by (simp add: header_step_def Let_def set_pack_upd)

lemma data_step_pack: "data_step C (set_pack n p) = map_outcome (set_pack n) (data_step C p)"
  by (simp add: data_step_def Let_def set_pack_upd)

lemma data_loop_pack: "data_loop C (set_pack n p) out = map_prod (set_pack n) id (data_loop C p out)"
proof (induction C p out rule: data_loop.induct)
  case (1 C p out)
  show ?case
  proof (cases "data_step C p")
    case (Packet q xs)
    then show ?thesis using "1.IH" [OF Packet]
      by (subst (1 2) data_loop.simps) (simp add: data_step_pack id_def)
  qed (subst (1 2) data_loop.simps; simp add: data_step_pack)+
qed

lemma post_decrypt_pack:
  "server_post_decrypt C (set_pack n p) xs = map_prod (set_pack n) id (server_post_decrypt C p xs)"
  by (auto simp: server_post_decrypt_def post_decrypt_buffered_def set_pack_upd(4) [symmetric] header_step_pack
      data_loop_pack split: outcome.split)

subsection \<open>The send half of a session\<close>

definition set_tx :: "'cc stream_cipher \<Rightarrow> bool \<Rightarrow> u32 \<Rightarrow> 'cc session \<Rightarrow> 'cc session" where
  "set_tx e f n s =
     s\<lparr>ss_encryptor := e, ss_send_iv_emitted := f, ss_protocol := map_option (set_pack n) (ss_protocol s)\<rparr>"

lemma set_tx_sel [simp]:
  "ss_encryptor (set_tx e f n s) = e" "ss_send_iv_emitted (set_tx e f n s) = f"
  "ss_protocol (set_tx e f n s) = map_option (set_pack n) (ss_protocol s)"
  "ss_decryptor (set_tx e f n s) = ss_decryptor s" "ss_send_iv (set_tx e f n s) = ss_send_iv s"
  by (simp_all add: set_tx_def)

text \<open>A session past the handshake header.\<close>

definition served :: "'cc session \<Rightarrow> bool" where
  "served s \<longleftrightarrow> ss_decryptor s \<noteq> None \<and> (\<exists>p. ss_protocol s = Some p \<and> has_recv_header p)"

lemma served_set_tx [simp]: "served (set_tx e f n s) = served s"
  by (auto simp: served_def)

lemma session_decrypt_tx:
  assumes "served s"
  shows "session_decrypt C (set_tx e f n s) xs = map_prod (set_tx e f n) id (session_decrypt C s xs)"
proof -
  obtain d p where dp: "ss_decryptor s = Some d" "ss_protocol s = Some p" using assms by (auto simp: served_def)
  then show ?thesis
    by (auto simp: session_decrypt_def decrypt_cipher_bytes_def set_tx_def post_decrypt_pack case_prod_beta Let_def)
qed

lemma session_encrypt_tx:
  assumes "ss_protocol s = Some p"
  shows "session_encrypt C s x =
    (let ps = map (\<lambda>b. ([1], b)) (units x);
         r = stream_process C (ss_encryptor s) (wire_data_stream C (user_key p) (pack_id p) ps)
     in (set_tx (fst r) True (pack_id p + word_of_nat (length ps)) s,
         Inr ((if ss_send_iv_emitted s then [] else ss_send_iv s) @ snd r)))"
  using assms
  by (auto simp: session_encrypt_def server_pre_encrypt_wire set_tx_def set_pack_def case_prod_beta Let_def)

lemma session_encrypt_ok: "served s \<Longrightarrow> \<exists>s' w. session_encrypt C s x = (s', Inr w) \<and> served s'"
  by (auto simp: served_def session_encrypt_tx Let_def set_tx_def)

text \<open>What decryption keeps of a session past the header: the send half and the keys.\<close>

lemma data_loop_pack_id: "data_loop C p out = (q, Inr d) \<Longrightarrow> pack_id q = pack_id p"
  using data_loop_pack [of C "pack_id p" p out] by (simp add: set_pack_def) (metis set_pack_def set_pack_sel(5))

lemma session_decrypt_served:
  assumes "served s" "session_decrypt C s xs = (s', Inr d)" "ss_protocol s = Some p"
  shows "served s'" "ss_encryptor s' = ss_encryptor s" "ss_send_iv_emitted s' = ss_send_iv_emitted s"
    "ss_send_iv s' = ss_send_iv s"
    "\<exists>q. ss_protocol s' = Some q \<and> user_key q = user_key p \<and> pack_id q = pack_id p \<and> user_id q = user_id p"
proof -
  obtain c where c: "ss_decryptor s = Some c" and h: "has_recv_header p" using assms by (auto simp: served_def)
  have "served s' \<and> ss_encryptor s' = ss_encryptor s \<and> ss_send_iv_emitted s' = ss_send_iv_emitted s \<and>
    ss_send_iv s' = ss_send_iv s \<and>
    (\<exists>q. ss_protocol s' = Some q \<and> user_key q = user_key p \<and> pack_id q = pack_id p \<and> user_id q = user_id p)"
  proof (cases "xs = []")
    case True
    then show ?thesis using assms c by (simp add: session_decrypt_def decrypt_cipher_bytes_def)
  next
    case False
    obtain c' ys where c': "stream_process C c xs = (c', ys)" by fastforce
    obtain q where q: "server_post_decrypt C p ys = (q, Inr d)" "s' = s\<lparr>ss_decryptor := Some c', ss_protocol := Some q\<rparr>"
      using assms c c' False by (auto simp: session_decrypt_def decrypt_cipher_bytes_def case_prod_beta Let_def prod_eq_iff)
    then have "data_loop C (buffer p ys) [] = (q, Inr d)"
      using h by (simp add: server_post_decrypt_def post_decrypt_buffered_def)
    from data_loop_user [OF this] data_loop_pack_id [OF this] h q(2) show ?thesis
      by (simp add: served_def buffer_def)
  qed
  then show "served s'" "ss_encryptor s' = ss_encryptor s" "ss_send_iv_emitted s' = ss_send_iv_emitted s"
    "ss_send_iv s' = ss_send_iv s"
    "\<exists>q. ss_protocol s' = Some q \<and> user_key q = user_key p \<and> pack_id q = pack_id p \<and> user_id q = user_id p" by auto
qed

subsection \<open>Decryption and encryption commute\<close>

lemma encrypt_decrypt_commute:
  assumes "served s" "session_encrypt C s y = (s1, Inr w)"
  shows "served s1"
    and "session_decrypt C s x = (s2, Inr d) \<Longrightarrow> \<exists>s3. session_decrypt C s1 x = (s3, Inr d) \<and> session_encrypt C s2 y = (s3, Inr w)"
    and "snd (session_decrypt C s x) = Inl e \<Longrightarrow> snd (session_decrypt C s1 x) = Inl e"
proof -
  obtain p where p: "ss_protocol s = Some p" using assms(1) by (auto simp: served_def)
  define r where "r = stream_process C (ss_encryptor s)
    (wire_data_stream C (user_key p) (pack_id p) (map (\<lambda>b. ([1], b)) (units y)))"
  define n where "n = pack_id p + word_of_nat (length (units y))"
  have s1: "s1 = set_tx (fst r) True n s" and w: "w = (if ss_send_iv_emitted s then [] else ss_send_iv s) @ snd r"
    using assms(2) by (simp_all add: session_encrypt_tx [OF p] Let_def r_def n_def)
  show "served s1" using assms(1) s1 by simp
  show "\<exists>s3. session_decrypt C s1 x = (s3, Inr d) \<and> session_encrypt C s2 y = (s3, Inr w)"
    if d: "session_decrypt C s x = (s2, Inr d)"
  proof -
    from session_decrypt_served [OF assms(1) d p] obtain q where
      q: "ss_protocol s2 = Some q" "user_key q = user_key p" "pack_id q = pack_id p" by blast
    have "session_decrypt C s1 x = (set_tx (fst r) True n s2, Inr d)"
      using d by (simp add: s1 session_decrypt_tx [OF assms(1)])
    moreover have "session_encrypt C s2 y = (set_tx (fst r) True n s2, Inr w)"
      by (simp add: session_encrypt_tx [OF q(1)] Let_def session_decrypt_served(2-4) [OF assms(1) d p] q w r_def n_def)
    ultimately show ?thesis by simp
  qed
  show "snd (session_decrypt C s1 x) = Inl e" if "snd (session_decrypt C s x) = Inl e"
    using that by (simp add: s1 session_decrypt_tx [OF assms(1)])
qed

lemma feed_encrypt_decrypt_commute:
  assumes "served s" "feed_result (session_encrypt C) s ys = (s1, Inr w)"
  shows "served s1"
    and "session_decrypt C s x = (s2, Inr d) \<Longrightarrow>
      \<exists>s3. session_decrypt C s1 x = (s3, Inr d) \<and> feed_result (session_encrypt C) s2 ys = (s3, Inr w)"
    and "snd (session_decrypt C s x) = Inl e \<Longrightarrow> snd (session_decrypt C s1 x) = Inl e"
proof -
  have "served s1 \<and>
    (\<forall>s2. session_decrypt C s x = (s2, Inr d) \<longrightarrow>
      (\<exists>s3. session_decrypt C s1 x = (s3, Inr d) \<and> feed_result (session_encrypt C) s2 ys = (s3, Inr w))) \<and>
    (snd (session_decrypt C s x) = Inl e \<longrightarrow> snd (session_decrypt C s1 x) = Inl e)"
    using assms
  proof (induction ys arbitrary: s w)
    case Nil
    then show ?case by auto
  next
    case (Cons y ys)
    obtain t w1 w2 where t: "session_encrypt C s y = (t, Inr w1)" "feed_result (session_encrypt C) t ys = (s1, Inr w2)"
      "w = w1 @ w2"
      using Cons.prems(2) by (auto split: prod.splits sum.splits)
    note one = encrypt_decrypt_commute [OF Cons.prems(1) t(1)]
    note rest = Cons.IH [OF one(1) t(2)]
    have "\<exists>s3. session_decrypt C s1 x = (s3, Inr d) \<and> feed_result (session_encrypt C) s2 (y # ys) = (s3, Inr w)"
      if "session_decrypt C s x = (s2, Inr d)" for s2
      using one(2) [OF that] rest by (fastforce simp: t(3))
    then show ?case using rest one(3) by blast
  qed
  then show "served s1" "session_decrypt C s x = (s2, Inr d) \<Longrightarrow>
      \<exists>s3. session_decrypt C s1 x = (s3, Inr d) \<and> feed_result (session_encrypt C) s2 ys = (s3, Inr w)"
    "snd (session_decrypt C s x) = Inl e \<Longrightarrow> snd (session_decrypt C s1 x) = Inl e" by auto
qed

lemma feed_result_snoc:
  "feed_result f s xs = (s1, Inr a) \<Longrightarrow> f s1 x = (s2, Inr b) \<Longrightarrow> feed_result f s (xs @ [x]) = (s2, Inr (a @ b))"
  by (induction xs arbitrary: s a) (auto split: prod.splits sum.splits)

end
