(* ===== verification/Tcp_Inv.thy ===== *)
theory Tcp_Inv
  imports Tcp Ssr_Duplex "HOL-Library.Sublist"
begin

text \<open>
  The invariant of one relayed connection: what it has done to its two byte streams, whatever the
  other tasks do to the shared state in between and in whatever order reads, writes, timeouts and
  errors come; and that every step keeps it.
\<close>

subsection \<open>The address header\<close>

text \<open>The parser decides within 259 bytes, so a header still incomplete is shorter than that.\<close>

lemma parse_address_incomplete: "parse_address buf = Inr None \<Longrightarrow> length buf < 259"
proof -
  assume inc: "parse_address buf = Inr None"
  have "unat (buf ! Suc 0) < 256" by simp
  then show ?thesis using inc
    by (auto simp: parse_address_def Let_def simp del: unat_byte_bound split: if_splits option.splits)
qed

subsection \<open>The codec of a connection\<close>

text \<open>The session after decrypting \<open>R\<close>, which gave \<open>d\<close>, and encrypting \<open>plains\<close>, which gave \<open>w\<close>.\<close>

definition codec_at ::
  "'cc crypto \<Rightarrow> 'cc session \<Rightarrow> bytes \<Rightarrow> 'cc session \<Rightarrow> bytes \<Rightarrow> bytes list \<Rightarrow> bytes \<Rightarrow> 'cc session \<Rightarrow> bool" where
  "codec_at C s0 R r d plains w s \<longleftrightarrow>
     session_idle C s0 \<and> session_decrypt C s0 R = (r, Inr d) \<and> served r \<and>
     feed_result (session_encrypt C) r plains = (s, Inr w)"

lemma session_decrypt_append:
  assumes "session_idle C s0" "session_decrypt C s0 R = (r, Inr d)"
  shows "session_decrypt C r x = (r', Inr d') \<Longrightarrow> session_decrypt C s0 (R @ x) = (r', Inr (d @ d'))"
    and "session_idle C r"
  using sess.decode_ok [OF assms, of x] sess.decode_idle [OF assms] by (auto simp: agree_Inr)

lemma codec_at_decrypt:
  assumes at: "codec_at C s0 R r d plains w s" and x: "session_decrypt C s x = (s', Inr d')"
  shows "\<exists>r'. codec_at C s0 (R @ x) r' (d @ d') plains w s' \<and> session_user_id r' = session_user_id r"
proof -
  have r: "session_idle C s0" "session_decrypt C s0 R = (r, Inr d)" "served r"
    "feed_result (session_encrypt C) r plains = (s, Inr w)" using at by (simp_all add: codec_at_def)
  obtain r' q where q: "session_decrypt C r x = (r', q)" by fastforce
  obtain d2 where d2: "q = Inr d2"
    using feed_encrypt_decrypt_commute(3) [OF r(3,4), of x] q x by (cases q) auto
  with q have q: "session_decrypt C r x = (r', Inr d2)" by simp
  from feed_encrypt_decrypt_commute(2) [OF r(3,4) q] x
  have "d2 = d'" "feed_result (session_encrypt C) r' plains = (s', Inr w)" by auto
  moreover obtain p where p: "ss_protocol r = Some p" using r(3) by (auto simp: served_def)
  ultimately show ?thesis
    using session_decrypt_append(1) [OF r(1,2) q] session_decrypt_served [OF r(3) q p] r p
    by (auto simp: codec_at_def session_user_id_def)
qed

lemma codec_at_encrypt:
  assumes at: "codec_at C s0 R r d plains w s" and x: "session_encrypt C s x = (s', Inr w')"
  shows "codec_at C s0 R r d (plains @ [x]) (w @ w') s'"
  using at feed_result_snoc [of "session_encrypt C" r plains s w x s' w'] x by (simp add: codec_at_def)

lemma codec_at_served: "codec_at C s0 R r d plains w s \<Longrightarrow> served s"
  unfolding codec_at_def by (blast dest: feed_encrypt_decrypt_commute(1))

text \<open>Payload comes out of a fresh session only once the header has been verified.\<close>

lemma post_decrypt_payload_header:
  assumes "server_post_decrypt C p xs = (q, Inr d)" "d \<noteq> [] \<or> has_recv_header p"
  shows "has_recv_header q"
proof (cases "has_recv_header p")
  case True
  then show ?thesis using assms(1) data_loop_user [of C "buffer p xs" "[]" q d]
    by (simp add: server_post_decrypt_def post_decrypt_buffered_def)
next
  case False
  then obtain p' ys where h: "header_step C (buffer p xs) = Packet p' ys" "data_loop C p' ys = (q, Inr d)"
    using assms by (auto simp: server_post_decrypt_def post_decrypt_buffered_def split: outcome.splits)
  then have "has_recv_header p'" by (auto simp: header_step_def Let_def split: if_splits)
  then show ?thesis using data_loop_user [OF h(2)] by simp
qed

lemma decrypt_cipher_bytes_payload:
  assumes "decrypt_cipher_bytes C s xs = (s', Inr d)" "d \<noteq> []"
  shows "served s'"
proof -
  obtain c p where cp: "ss_decryptor s = Some c" "ss_protocol s = Some p" "xs \<noteq> []"
    using assms by (auto simp: decrypt_cipher_bytes_def case_prod_beta Let_def split: if_splits option.splits)
  obtain c' ys where c': "stream_process C c xs = (c', ys)" by fastforce
  obtain q where q: "server_post_decrypt C p ys = (q, Inr d)" "s' = s\<lparr>ss_decryptor := Some c', ss_protocol := Some q\<rparr>"
    using assms cp c' by (auto simp: decrypt_cipher_bytes_def case_prod_beta Let_def prod_eq_iff)
  then show ?thesis using post_decrypt_payload_header [OF q(1)] assms(2) by (simp add: served_def)
qed

lemma session_decrypt_payload:
  assumes "session_decrypt C s xs = (s', Inr d)" "d \<noteq> []"
  shows "served s'"
  using assms decrypt_cipher_bytes_payload
  by (fastforce simp: session_decrypt_def Let_def split: if_splits sum.splits)

subsection \<open>The invariant of a connection\<close>

text \<open>Bytes decoded for the remote, or encrypted for the client, and not yet written.\<close>

fun unsent_remote :: "phase \<Rightarrow> bytes" where
  "unsent_remote (Connecting target initial) = initial"
| "unsent_remote (Pacing k data) = (if k = ToClient then [] else data)"
| "unsent_remote (Sending k data) = (if k = ToClient then [] else data)"
| "unsent_remote _ = []"

fun unsent_client :: "phase \<Rightarrow> bytes" where
  "unsent_client (Pacing k data) = (if k = ToClient then data else [])"
| "unsent_client (Sending k data) = (if k = ToClient then data else [])"
| "unsent_client _ = []"

definition untouched :: "'cc tcp_conn \<Rightarrow> bool" where
  "untouched c \<longleftrightarrow> tc_remote c = None \<and> tc_client_written c = [] \<and> tc_remote_read c = [] \<and>
     tc_remote_written c = [] \<and> tc_replies c = []"

text \<open>The target was read from the decoded stream, the user from the session, and the remote
  address, if there is one, passed the policy check for that target and user.\<close>

definition user_or :: "u64 \<Rightarrow> 'cc session \<Rightarrow> u64" where
  "user_or fallback r = (case session_user_id r of Some u \<Rightarrow> u | None \<Rightarrow> fallback)"

lemma conn_user_or: "conn_user c = user_or (cx_fallback_user_id (tc_ctx c)) (tc_session c)"
  by (simp add: conn_user_def user_or_def)

definition attributed :: "'cc session \<Rightarrow> bytes \<Rightarrow> address \<Rightarrow> nat \<Rightarrow> 'cc tcp_conn \<Rightarrow> bool" where
  "attributed r d target n c \<longleftrightarrow>
     parse_address d = Inr (Some (target, n)) \<and>
     tc_user_id c = user_or (cx_fallback_user_id (tc_ctx c)) r \<and>
     (\<forall>a. tc_remote c = Some a \<longrightarrow>
        (\<exists>nt. connect_target_checked nt target (conn_policy c) (cx_enforcement (tc_ctx c)) = Inr a))"

definition relays :: "'cc crypto \<Rightarrow> 'cc session \<Rightarrow> 'cc tcp_conn \<Rightarrow> bool" where
  "relays C s0 c \<longleftrightarrow>
     (\<exists>r d plains target n.
        codec_at C s0 (tc_client_read c) r d plains (tc_replies c) (tc_session c) \<and> attributed r d target n c \<and>
        concat plains = tc_remote_read c \<and> [] \<notin> set plains \<and>
        tc_remote_written c @ unsent_remote (tc_phase c) = drop n d \<and>
        tc_client_written c @ unsent_client (tc_phase c) = tc_replies c \<and>
        (\<forall>t i. tc_phase c = Connecting t i \<longrightarrow> t = target))"

definition relayed :: "'cc crypto \<Rightarrow> 'cc session \<Rightarrow> 'cc tcp_conn \<Rightarrow> bool" where
  "relayed C s0 c \<longleftrightarrow>
     (\<exists>R r d plains target n s.
        codec_at C s0 R r d plains (tc_replies c) s \<and> attributed r d target n c \<and>
        prefix R (tc_client_read c) \<and> concat plains = tc_remote_read c \<and> [] \<notin> set plains \<and>
        prefix (tc_remote_written c) (drop n d) \<and> prefix (tc_client_written c) (tc_replies c))"

definition handshakes :: "'cc crypto \<Rightarrow> 'cc session \<Rightarrow> bytes \<Rightarrow> 'cc tcp_conn \<Rightarrow> bool" where
  "handshakes C s0 app_buf c \<longleftrightarrow>
     session_idle C s0 \<and> session_decrypt C s0 (tc_client_read c) = (tc_session c, Inr app_buf) \<and>
     parse_address app_buf = Inr None \<and> untouched c"

definition tcp_inv :: "'cc crypto \<Rightarrow> 'cc session \<Rightarrow> 'cc tcp_conn \<Rightarrow> bool" where
  "tcp_inv C s0 c \<longleftrightarrow>
     (case tc_phase c of
        Handshake app_buf pre \<Rightarrow> handshakes C s0 app_buf c
      | Closed res \<Rightarrow> untouched c \<or> relayed C s0 c
      | _ \<Rightarrow> relays C s0 c)"

lemma relayedI:
  "codec_at C s0 R r d plains (tc_replies c) s \<Longrightarrow> attributed r d target n c \<Longrightarrow> prefix R (tc_client_read c) \<Longrightarrow>
   concat plains = tc_remote_read c \<Longrightarrow> [] \<notin> set plains \<Longrightarrow> prefix (tc_remote_written c) (drop n d) \<Longrightarrow>
   prefix (tc_client_written c) (tc_replies c) \<Longrightarrow> relayed C s0 c"
  unfolding relayed_def by blast

lemma relays_relayed:
  "relays C s0 c \<Longrightarrow> relayed C s0 c"
  unfolding relays_def relayed_def by (fastforce intro: prefixI [OF sym])

lemma relayed_closed:
  "relayed C s0 (c\<lparr>tc_phase := x, tc_guard := g\<rparr>) = relayed C s0 c"
  "untouched (c\<lparr>tc_phase := x, tc_guard := g\<rparr>) = untouched c"
  by (simp_all add: relayed_def untouched_def attributed_def conn_policy_def)

lemma tcp_inv_close: "untouched c \<or> relayed C s0 c \<Longrightarrow> tcp_inv C s0 (fst (tcp_close res (c, b)))"
  by (simp add: tcp_close_def tcp_inv_def relayed_closed)

lemma untouched_upd:
  "untouched c \<Longrightarrow> untouched (c\<lparr>tc_session := s, tc_client_read := R\<rparr>)"
  "untouched c \<Longrightarrow> untouched (c\<lparr>tc_user_id := u, tc_counters := p, tc_limiter := l\<rparr>)"
  "untouched c \<Longrightarrow> untouched (c\<lparr>tc_guard := g\<rparr>)"
  by (simp_all add: untouched_def)

lemma tcp_inv_open:
  assumes "crypto_ok C" "tcp_open C rand cx = Inr c"
  shows "tcp_inv C (tc_session c) c"
proof -
  obtain s where s: "session_new C rand (cx_password cx) (hm_get (ut_auth_users (cx_tables cx))) (cx_is_multi_user cx)
      (cx_cipher_kind cx) = Inr s" and c: "tc_session c = s" "tc_phase c = Handshake [] 0" "tc_client_read c = []" "untouched c"
    using assms(2) by (auto simp: tcp_open_def untouched_def split: sum.splits)
  have idle: "session_idle C s" by (rule session_new_idle [OF crypto_okD(4) [OF assms(1)] s])
  then show ?thesis using c sess.decode_nil [OF idle] by (simp add: tcp_inv_def handshakes_def parse_address_def)
qed

subsection \<open>Every step keeps the invariant\<close>

lemma tcp_inv_admit:
  assumes "session_idle C s0" "session_decrypt C s0 (tc_client_read c) = (tc_session c, Inr d)" "served (tc_session c)"
    and "parse_address d = Inr (Some (target, n))" "untouched c"
  shows "tcp_inv C s0 (fst (tcp_admit m target (drop n d) pre (c, b)))"
proof -
  let ?c = "\<lambda>p l g. c\<lparr>tc_user_id := conn_user c, tc_counters := p, tc_limiter := l, tc_guard := g\<rparr>"
  have un: "untouched (c\<lparr>tc_user_id := conn_user c, tc_counters := p, tc_limiter := l\<rparr>)" "untouched (?c p l g)" for p l g
    using assms(5) by (simp_all add: untouched_def)
  have "codec_at C s0 (tc_client_read c) (tc_session c) d [] [] (tc_session c)"
    using assms by (simp add: codec_at_def)
  then have "relays C s0 ((?c p l g)\<lparr>tc_phase := Connecting target (drop n d)\<rparr>)" for p l g
    using assms unfolding relays_def
    by (intro exI [of _ "tc_session c"] exI [of _ d] exI [of _ "[]"] exI [of _ target] exI [of _ n])
      (simp add: untouched_def attributed_def conn_user_or)
  then show ?thesis
    using assms(5) un
    by (auto simp: tcp_admit_def Let_def case_prod_beta tcp_inv_close tcp_inv_def [of _ _ "_\<lparr>tc_phase := Connecting _ _\<rparr>"]
        split: option.split sum.split admission.split)
qed

lemma tcp_inv_handshake:
  assumes "handshakes C s0 app_buf c" "tc_phase c = Handshake app_buf pre"
  shows "tcp_inv C s0 (fst (tcp_handshake C m app_buf pre chunk (c, b)))"
proof (cases "chunk = []")
  case True
  then show ?thesis using assms by (simp add: tcp_handshake_def tcp_inv_close handshakes_def)
next
  case False
  note h = assms(1) [unfolded handshakes_def]
  obtain s r where s: "session_decrypt C (tc_session c) chunk = (s, r)" by fastforce
  let ?c = "c\<lparr>tc_session := s, tc_client_read := tc_client_read c @ chunk\<rparr>"
  have un: "untouched ?c" using h by (simp add: untouched_upd)
  show ?thesis
  proof (cases r)
    case (Inl e)
    then show ?thesis using False s un by (simp add: tcp_handshake_def Let_def tcp_inv_close)
  next
    case (Inr decoded)
    have dec: "session_decrypt C s0 (tc_client_read ?c) = (tc_session ?c, Inr (app_buf @ decoded))"
      using h s Inr session_decrypt_append(1) [of C s0 "tc_client_read c" "tc_session c" app_buf chunk s decoded] by simp
    show ?thesis
    proof (cases "decoded = []")
      case True
      then show ?thesis using False s Inr dec h un
        by (simp add: tcp_handshake_def Let_def tcp_inv_def handshakes_def untouched_def)
    next
      case ne: False
      have srv: "served (tc_session ?c)" using session_decrypt_payload [OF s [unfolded Inr] ne] by simp
      have eq: "tcp_handshake C m app_buf pre chunk (c, b) =
        (case parse_address (app_buf @ decoded) of
           Inl e \<Rightarrow> tcp_close (Inl e) (?c, b)
         | Inr (Some (target, consumed)) \<Rightarrow>
             tcp_admit m target (drop consumed (app_buf @ decoded)) (saturating_add pre (word_of_nat (length chunk))) (?c, b)
         | Inr None \<Rightarrow>
             if MAX_HANDSHAKE_BYTES < length (app_buf @ decoded) then tcp_close (Inl HandshakeTooLong) (?c, b)
             else (?c\<lparr>tc_phase := Handshake (app_buf @ decoded) (saturating_add pre (word_of_nat (length chunk)))\<rparr>, b))"
        using False s Inr ne by (simp add: tcp_handshake_def Let_def)
      have "tcp_inv C s0 (fst (tcp_admit m target (drop n (app_buf @ decoded)) q (?c, b)))"
        if "parse_address (app_buf @ decoded) = Inr (Some (target, n))" for target n q
        using h by (intro tcp_inv_admit [OF _ dec srv that un]) simp
      moreover have "tcp_inv C s0 (?c\<lparr>tc_phase := Handshake (app_buf @ decoded) q\<rparr>)"
        if "parse_address (app_buf @ decoded) = Inr None" for q
        using that h dec un by (simp add: tcp_inv_def handshakes_def untouched_def)
      ultimately show ?thesis unfolding eq using un
        by (auto simp: tcp_inv_close split: sum.split option.split)
    qed
  qed
qed

text \<open>Outside the codec, what matters of a connection is the bytes on each side.\<close>

lemma relays_cong:
  assumes "relays C s0 c" "tc_client_read c' = tc_client_read c" "tc_session c' = tc_session c" "tc_ctx c' = tc_ctx c"
    "tc_user_id c' = tc_user_id c" "tc_remote_read c' = tc_remote_read c" "tc_replies c' = tc_replies c"
    "tc_remote_written c' @ unsent_remote (tc_phase c') = tc_remote_written c @ unsent_remote (tc_phase c)"
    "tc_client_written c' @ unsent_client (tc_phase c') = tc_client_written c @ unsent_client (tc_phase c)"
    "\<And>t i. tc_phase c' = Connecting t i \<Longrightarrow> tc_phase c = Connecting t i"
    "tc_remote c' = tc_remote c"
  shows "relays C s0 c'"
  using assms(1) unfolding relays_def attributed_def conn_policy_def assms(2-9,11)
  using assms(10) by blast

lemma relayed_failed_write:
  assumes "relays C s0 c" "tc_phase c = Sending k data"
  shows "relayed C s0 (deliver k (take i data) c)"
proof -
  have p: "prefix (xs @ take i data) ys" if "xs @ data = ys" for xs ys :: bytes
    using that by (auto simp: take_is_prefix)
  from assms obtain r d plains target n where
    "codec_at C s0 (tc_client_read c) r d plains (tc_replies c) (tc_session c)" "attributed r d target n c"
    "concat plains = tc_remote_read c" "[] \<notin> set plains" "tc_remote_written c @ unsent_remote (Sending k data) = drop n d"
    "tc_client_written c @ unsent_client (Sending k data) = tc_replies c"
    unfolding relays_def by auto
  then show ?thesis
    by (intro relayedI [of _ _ "tc_client_read c" r d plains _ "tc_session c" target n])
      (auto simp: deliver_def attributed_def conn_policy_def p intro: prefixI split: if_splits)
qed

lemma tcp_inv_relays: "relays C s0 c \<Longrightarrow> (\<And>app pre. tc_phase c \<noteq> Handshake app pre) \<Longrightarrow> tcp_inv C s0 c"
  by (cases "tc_phase c") (auto simp: tcp_inv_def relays_relayed)

lemma begin_send_fields:
  "tc_client_read (begin_send k data c) = tc_client_read c" "tc_session (begin_send k data c) = tc_session c"
  "tc_ctx (begin_send k data c) = tc_ctx c" "tc_user_id (begin_send k data c) = tc_user_id c"
  "tc_remote_read (begin_send k data c) = tc_remote_read c" "tc_replies (begin_send k data c) = tc_replies c"
  "tc_remote_written (begin_send k data c) = tc_remote_written c" "tc_remote (begin_send k data c) = tc_remote c"
  "tc_client_written (begin_send k data c) = tc_client_written c" "tc_counters (begin_send k data c) = tc_counters c"
  "tc_guard (begin_send k data c) = tc_guard c"
  "unsent_remote (tc_phase (begin_send k data c)) = (if k = ToClient then [] else data)"
  "unsent_client (tc_phase (begin_send k data c)) = (if k = ToClient then data else [])"
  "tc_phase (begin_send k data c) \<noteq> Connecting t i" "tc_phase (begin_send k data c) \<noteq> Handshake app pre"
  "tc_phase (begin_send k data c) \<noteq> Relaying" "tc_phase (begin_send k data c) \<noteq> Closed res"
  by (simp_all add: begin_send_def split: option.split)

lemma tcp_inv_connect:
  assumes "relays C s0 c" "tc_phase c = Connecting target initial"
  shows "tcp_inv C s0 (fst (tcp_connect nt now target initial (c, b)))"
proof (cases "connect_target_checked nt target (conn_policy c) (cx_enforcement (tc_ctx c))")
  case (Inl e)
  then show ?thesis using assms(1) by (simp add: tcp_connect_def tcp_inv_close relays_relayed)
next
  case (Inr a)
  let ?c = "c\<lparr>tc_remote := Some a\<rparr>"
  let ?d = "if initial \<noteq> [] then begin_send ToRemoteInitial initial ?c else enter_relay now ?c"
  from assms obtain r d plains n where
    "codec_at C s0 (tc_client_read c) r d plains (tc_replies c) (tc_session c)" "attributed r d target n c"
    "concat plains = tc_remote_read c" "[] \<notin> set plains" "tc_remote_written c @ initial = drop n d"
    "tc_client_written c = tc_replies c"
    unfolding relays_def by auto
  then have "relays C s0 ?d"
    unfolding relays_def using Inr
    by (intro exI [of _ r] exI [of _ d] exI [of _ plains] exI [of _ target] exI [of _ n])
      (auto simp: attributed_def conn_policy_def begin_send_fields enter_relay_def)
  then have "tcp_inv C s0 ?d"
    by (rule tcp_inv_relays) (auto simp: begin_send_fields enter_relay_def)
  then show ?thesis using Inr by (simp add: tcp_connect_def Let_def)
qed

lemma tcp_inv_pace:
  assumes "relays C s0 c" "tc_phase c = Pacing k data"
  shows "tcp_inv C s0 (fst (tcp_pace now k data (c, b)))"
proof -
  have "relays C s0 (c\<lparr>tc_phase := Sending k data\<rparr>)"
    by (rule relays_cong [OF assms(1)]) (use assms(2) in auto)
  then show ?thesis using assms by (auto simp: tcp_pace_def tcp_inv_def case_prod_beta Let_def split: option.split)
qed

lemma tcp_wrote_phase: "tc_phase (tcp_wrote now k data c) = Relaying"
  by (simp add: tcp_wrote_def enter_relay_def Let_def)

lemma tcp_inv_wrote:
  assumes "relays C s0 c" "tc_phase c = Sending k data"
  shows "tcp_inv C s0 (tcp_wrote now k data c)"
proof -
  have "relays C s0 (tcp_wrote now k data c)"
    by (rule relays_cong [OF assms(1)])
      (use assms(2) in \<open>simp_all add: tcp_wrote_phase\<close>,
       simp_all add: tcp_wrote_def deliver_def enter_relay_def Let_def)
  then show ?thesis by (rule tcp_inv_relays) (simp add: tcp_wrote_phase)
qed

lemma tcp_inv_upload:
  assumes "relays C s0 c" "tc_phase c = Relaying"
  shows "tcp_inv C s0 (fst (relay_upload C chunk now (c, b)))"
proof (cases "chunk = []")
  case True
  then show ?thesis using assms(1) by (simp add: relay_upload_def tcp_inv_close relays_relayed)
next
  case False
  from assms(1) obtain r d plains target n where
    at: "codec_at C s0 (tc_client_read c) r d plains (tc_replies c) (tc_session c)" and
    rest: "attributed r d target n c" "concat plains = tc_remote_read c" "[] \<notin> set plains"
      "tc_remote_written c = drop n d" "tc_client_written c = tc_replies c"
    unfolding relays_def using assms(2) by auto
  obtain s q where s: "session_decrypt C (tc_session c) chunk = (s, q)" by fastforce
  let ?c = "c\<lparr>tc_idle := now + cx_idle_timeout (tc_ctx c), tc_session := s, tc_client_read := tc_client_read c @ chunk\<rparr>"
  show ?thesis
  proof (cases q)
    case (Inl e)
    have "relayed C s0 ?c"
      by (rule relayedI [of _ _ "tc_client_read c" r d plains _ "tc_session c" target n])
        (use at rest in \<open>auto simp: attributed_def conn_policy_def\<close>)
    then show ?thesis using False s Inl by (simp add: relay_upload_def Let_def tcp_inv_close)
  next
    case (Inr data)
    from codec_at_decrypt [OF at s [unfolded Inr]] obtain r' where
      r': "codec_at C s0 (tc_client_read ?c) r' (d @ data) plains (tc_replies ?c) (tc_session ?c)"
      "session_user_id r' = session_user_id r" by auto
    have n: "parse_address (d @ data) = Inr (Some (target, n))" "n \<le> length d"
      using rest(1) parse_address_append(1) [of d "(target, n)" data] parse_address_append(2) [of d "(target, n)"] by (auto simp: attributed_def)
    have same: "user_or f r' = user_or f r" for f using r'(2) by (simp add: user_or_def)
    let ?d = "if data = [] then ?c else begin_send ToRemote data ?c"
    have "relays C s0 ?d"
      unfolding relays_def using r' rest n assms(2)
      by (intro exI [of _ r'] exI [of _ "d @ data"] exI [of _ plains] exI [of _ target] exI [of _ n])
        (auto simp: attributed_def conn_policy_def begin_send_fields same)
    then have "tcp_inv C s0 ?d" by (rule tcp_inv_relays) (auto simp: begin_send_fields assms(2))
    then show ?thesis using False s Inr by (simp add: relay_upload_def Let_def)
  qed
qed

lemma tcp_inv_download:
  assumes "relays C s0 c" "tc_phase c = Relaying"
  shows "tcp_inv C s0 (fst (relay_download C chunk now (c, b)))"
proof (cases "chunk = []")
  case True
  then show ?thesis using assms(1) by (simp add: relay_download_def tcp_inv_close relays_relayed)
next
  case False
  from assms(1) obtain r d plains target n where
    at: "codec_at C s0 (tc_client_read c) r d plains (tc_replies c) (tc_session c)" and
    rest: "attributed r d target n c" "concat plains = tc_remote_read c" "[] \<notin> set plains"
      "tc_remote_written c = drop n d" "tc_client_written c = tc_replies c"
    unfolding relays_def using assms(2) by auto
  obtain s w where s: "session_encrypt C (tc_session c) chunk = (s, Inr w)"
    using session_encrypt_ok [OF codec_at_served [OF at]] by blast
  let ?c = "c\<lparr>tc_idle := now + cx_idle_timeout (tc_ctx c), tc_session := s, tc_remote_read := tc_remote_read c @ chunk,
    tc_replies := tc_replies c @ w\<rparr>"
  have "relays C s0 (begin_send ToClient w ?c)"
    unfolding relays_def using codec_at_encrypt [OF at s] rest assms(2) False
    by (intro exI [of _ r] exI [of _ d] exI [of _ "plains @ [chunk]"] exI [of _ target] exI [of _ n])
      (auto simp: attributed_def conn_policy_def begin_send_fields)
  then have "tcp_inv C s0 (begin_send ToClient w ?c)" by (rule tcp_inv_relays) (auto simp: begin_send_fields)
  then show ?thesis using False s by (simp add: relay_download_def Let_def)
qed

lemma tcp_inv_wake:
  assumes "tcp_inv C s0 c"
  shows "tcp_inv C s0 (fst (tcp_wake C m e (c, b)))"
proof (cases "tc_phase c")
  case (Handshake app_buf pre)
  with assms have h: "handshakes C s0 app_buf c" by (simp add: tcp_inv_def)
  then have "untouched c" by (simp add: handshakes_def)
  then show ?thesis using assms h tcp_inv_handshake [OF h Handshake]
    by (cases e; cases "case e of ClientRead q _ \<Rightarrow> q | _ \<Rightarrow> Inr []")
      (auto simp: tcp_wake_def Handshake tcp_inv_close)
next
  case (Connecting target initial)
  with assms have h: "relays C s0 c" by (simp add: tcp_inv_def)
  then show ?thesis using assms tcp_inv_connect [OF h Connecting]
    by (cases e) (auto simp: tcp_wake_def Connecting)
next
  case (Pacing k data)
  with assms have h: "relays C s0 c" by (simp add: tcp_inv_def)
  then show ?thesis using assms tcp_inv_pace [OF h Pacing] by (cases e) (auto simp: tcp_wake_def Pacing)
next
  case (Sending k data)
  with assms have h: "relays C s0 c" by (simp add: tcp_inv_def)
  then show ?thesis using assms tcp_inv_wrote [OF h Sending] relayed_failed_write [OF h Sending]
    by (cases e) (auto simp: tcp_wake_def Sending tcp_inv_close)
next
  case Relaying
  with assms have h: "relays C s0 c" by (simp add: tcp_inv_def)
  then show ?thesis
    using assms tcp_inv_upload [OF h Relaying] tcp_inv_download [OF h Relaying] relays_relayed [OF h]
    by (cases e; cases "case e of ClientRead q _ \<Rightarrow> q | RemoteRead q _ \<Rightarrow> q | _ \<Rightarrow> Inr []")
      (auto simp: tcp_wake_def Relaying tcp_inv_close)
next
  case (Closed res)
  then show ?thesis using assms by (cases e) (auto simp: tcp_wake_def)
qed

text \<open>A run of one connection; in between its steps the rest of the program changes the shared
  state in any way.\<close>

fun tcp_run ::
  "'cc crypto \<Rightarrow> ('re \<Rightarrow> bytes \<Rightarrow> bool) \<Rightarrow> ('re backend \<times> wake) list \<Rightarrow> 'cc tcp_conn \<Rightarrow> 'cc tcp_conn" where
  "tcp_run C m [] c = c"
| "tcp_run C m ((b, e) # es) c = tcp_run C m es (fst (tcp_wake C m e (c, b)))"

lemma tcp_inv_run: "tcp_inv C s0 c \<Longrightarrow> tcp_inv C s0 (tcp_run C m es c)"
  by (induction C m es c rule: tcp_run.induct) (simp_all add: tcp_inv_wake)

subsection \<open>The send half of a fresh session\<close>

lemma post_decrypt_pack_id: "pack_id (fst (server_post_decrypt C p xs)) = pack_id p"
proof -
  have "set_pack (pack_id p) p = p" by (simp add: set_pack_def)
  then have "fst (server_post_decrypt C p xs) = set_pack (pack_id p) (fst (server_post_decrypt C p xs))"
    using post_decrypt_pack [of C "pack_id p" p xs] by (metis fst_map_prod)
  then show ?thesis by (metis set_pack_sel(5))
qed

lemma decrypt_cipher_bytes_tx:
  assumes "decrypt_cipher_bytes C s xs = (r, res)"
  shows "ss_encryptor r = ss_encryptor s \<and> ss_send_iv_emitted r = ss_send_iv_emitted s \<and> ss_send_iv r = ss_send_iv s \<and>
    map_option pack_id (ss_protocol r) = map_option pack_id (ss_protocol s)"
  using assms
  by (auto simp: decrypt_cipher_bytes_def case_prod_beta Let_def prod_eq_iff post_decrypt_pack_id split: if_splits option.splits)

lemma fresh_decrypt_tx:
  assumes "session_new C rand password us multi k = Inr s0" "session_decrypt C s0 R = (r, Inr d)"
  shows "ss_encryptor r = ss_encryptor s0" "\<not> ss_send_iv_emitted r" "ss_send_iv r = ss_send_iv s0"
    "ss_protocol r = Some p \<Longrightarrow> pack_id p = 1"
proof -
  note f = session_new_fields [OF assms(1)]
  have "ss_encryptor r = ss_encryptor s0 \<and> \<not> ss_send_iv_emitted r \<and> ss_send_iv r = ss_send_iv s0 \<and>
    (ss_protocol r = Some p \<longrightarrow> pack_id p = 1)"
  proof (cases "length R < iv_len k")
    case True
    then show ?thesis using assms(2) f by (auto simp: session_decrypt_def)
  next
    case False
    then obtain e where "decrypt_cipher_bytes C (start_codec C s0 (take (iv_len k) R) e) (drop (iv_len k) R) = (r, Inr d)"
      using assms(2) f by (auto simp: session_decrypt_iv split: sum.splits)
    from decrypt_cipher_bytes_tx [OF this] f show ?thesis
      by (auto simp: start_codec_def with_codec_def auth_new_def)
  qed
  then show "ss_encryptor r = ss_encryptor s0" "\<not> ss_send_iv_emitted r" "ss_send_iv r = ss_send_iv s0"
    "ss_protocol r = Some p \<Longrightarrow> pack_id p = 1" by auto
qed

text \<open>What a client holding the key of the connection reads from the replies.\<close>

definition client_reads :: "'cc crypto \<Rightarrow> 'cc session \<Rightarrow> bytes \<Rightarrow> bytes \<Rightarrow> bytes \<Rightarrow> bool" where
  "client_reads C s0 ukey wire plain \<longleftrightarrow>
     (if plain = [] then wire = []
      else \<exists>cipher. wire = ss_send_iv s0 @ cipher \<and>
        (\<forall>peer. has_recv_header peer \<longrightarrow> user_key peer = ukey \<longrightarrow> recv_id peer = 1 \<longrightarrow> recv_buf peer = [] \<longrightarrow>
          snd (server_post_decrypt C peer (snd (stream_process C (ss_encryptor s0) cipher))) = Inr plain))"

lemma replies_readable:
  assumes C: "crypto_ok C" and s0: "session_new C rand password us multi k = Inr s0"
    and at: "codec_at C s0 R r d plains w s" and ne: "[] \<notin> set plains" and p: "ss_protocol r = Some p"
  shows "client_reads C s0 (user_key p) w (concat plains)"
proof (cases "plains = []")
  case True
  then show ?thesis using at by (simp add: client_reads_def codec_at_def)
next
  case False
  have r: "session_decrypt C s0 R = (r, Inr d)" and w: "feed_result (session_encrypt C) r plains = (s, Inr w)"
    using at by (simp_all add: codec_at_def)
  note tx = fresh_decrypt_tx [OF s0 r]
  let ?cipher = "snd (stream_process C (ss_encryptor s0) (reply_stream C p plains))"
  have cipher: "w = ss_send_iv s0 @ ?cipher"
    using feed_session_encrypt_first [OF crypto_okD(4) [OF C] p tx(2) False] w tx by auto
  have undo: "snd (stream_process C (ss_encryptor s0) ?cipher) = reply_stream C p plains"
    using sc.process_undo [OF crypto_okD(4) [OF C]] by (metis prod.collapse snd_conv)
  have "concat plains \<noteq> []" using False ne by (cases plains) auto
  moreover have "snd (server_post_decrypt C peer (reply_stream C p plains)) = Inr (concat plains)"
    if "has_recv_header peer" "user_key peer = user_key p" "recv_id peer = 1" "recv_buf peer = []" for peer
    using reply_stream_decodes [OF C that(1,2) _ that(4), of plains] tx(4) [OF p] that(3) by auto
  ultimately show ?thesis using cipher undo by (auto simp: client_reads_def)
qed

lemma tcp_open_session:
  "tcp_open C rand cx = Inr c \<Longrightarrow>
   session_new C rand (cx_password cx) (hm_get (ut_auth_users (cx_tables cx))) (cx_is_multi_user cx) (cx_cipher_kind cx) =
     Inr (tc_session c)"
  by (auto simp: tcp_open_def split: sum.splits)

lemma tcp_wake_ctx: "tc_ctx (fst (tcp_wake C m e w)) = tc_ctx (fst w)"
proof -
  have close: "tc_ctx (fst (tcp_close res w)) = tc_ctx (fst w)" for res and w :: "'a tcp_conn \<times> 'b backend"
    by (cases w) (simp add: tcp_close_def)
  have send: "tc_ctx (deliver k data c) = tc_ctx c" for k data and c :: "'a tcp_conn" by (simp add: deliver_def)
  have admit: "tc_ctx (fst (tcp_admit m t i pre w)) = tc_ctx (fst w)" for t i pre and w :: "'a tcp_conn \<times> 'b backend"
    by (cases w) (simp add: tcp_admit_def Let_def close case_prod_beta split: option.split sum.split admission.split)
  show ?thesis
    unfolding tcp_wake_def
    by (cases w; cases "(C, m, tc_phase (fst w), e, w)" rule: tcp_step.cases)
      (auto simp: close send admit tcp_handshake_def tcp_connect_def tcp_pace_def tcp_wrote_def relay_upload_def
        relay_download_def begin_send_fields enter_relay_def Let_def case_prod_beta split: sum.split option.split)
qed

lemma tcp_run_ctx: "tc_ctx (tcp_run C m es c) = tc_ctx c"
  by (induction C m es c rule: tcp_run.induct) (simp_all add: tcp_wake_ctx)

end
