(* ===== verification/Tcp_Props.thy ===== *)
theory Tcp_Props
  imports Tcp_Inv Supervisor_Props
begin

text \<open>
  What a connection guarantees to its client and its target: a friendly environment gets every
  conforming client served, a hostile one cannot corrupt either stream or make the server hoard
  handshake bytes.
\<close>

subsection \<open>A client in a friendly environment\<close>

text \<open>Each chunk is read, the network answers if it is asked, and the write completes if there is one.
  Other tasks may change the shared state in between: each wake finds a state of its own.\<close>

definition chunk_wakes :: "net \<Rightarrow> nat \<Rightarrow> bytes \<Rightarrow> wake list" where
  "chunk_wakes nt now chunk = [ClientRead (Inr chunk) now, NetAnswer nt now, Wrote now]"

definition served_chunk ::
  "net \<Rightarrow> 're backend \<times> 're backend \<times> 're backend \<Rightarrow> nat \<Rightarrow> bytes \<Rightarrow> ('re backend \<times> wake) list" where
  "served_chunk nt = (\<lambda>(b, b', b'') now chunk. zip [b, b', b''] (chunk_wakes nt now chunk))"

lemma parse_address_error_append: "parse_address buf = Inl e \<Longrightarrow> parse_address (buf @ ys) = Inl e"
proof -
  assume err: "parse_address buf = Inl e"
  then have ne: "buf \<noteq> []" by (auto simp: parse_address_def)
  then have h: "(buf @ ys) ! 0 = buf ! 0" by (simp add: nth_append)
  have d: "(buf @ ys) ! 1 = buf ! 1" if "2 \<le> length buf" using that by (simp add: nth_append)
  show ?thesis using err ne d unfolding parse_address_def Let_def h
    by (auto simp: slice_simps split: if_splits option.splits)
qed

lemma decrypt_prefix:
  assumes "session_idle C s0" "session_decrypt C s0 (R @ x) = (s, Inr d)"
  shows "\<exists>r d'. session_decrypt C s0 R = (r, Inr d') \<and> prefix d' d"
proof -
  obtain r q where q: "session_decrypt C s0 R = (r, q)" by fastforce
  show ?thesis
  proof (cases q)
    case (Inl e)
    then show ?thesis using sess.decode_fail [OF assms(1), of R r e x] q assms(2) by simp
  next
    case (Inr d')
    then have "agree (map_prod id (map_sum id (\<lambda>y. d' @ y)) (session_decrypt C r x)) (s, Inr d)"
      using sess.decode_ok [OF assms(1), of R r d' x] q assms(2) by simp
    then have "prefix d' d" by (cases "session_decrypt C r x"; cases "snd (session_decrypt C r x)") (auto simp: agree_def)
    then show ?thesis using q Inr by blast
  qed
qed

lemma decrypt_user_stable:
  assumes "session_idle C s0" "session_decrypt C s0 R = (r, Inr d)" "served r" "session_decrypt C s0 (R @ x) = (s, Inr D)"
  shows "session_user_id s = session_user_id r"
proof -
  obtain d' where x: "session_decrypt C r x = (s, Inr d')"
    using sess.decode_ok [OF assms(1,2), of x] assms(4)
    by (cases "session_decrypt C r x"; cases "snd (session_decrypt C r x)") (auto simp: agree_def)
  obtain p where "ss_protocol r = Some p" using assms(3) by (auto simp: served_def)
  with session_decrypt_served(5) [OF assms(3) x this] show ?thesis by (auto simp: session_user_id_def)
qed

text \<open>A user with no limits in force, with a counter, whose target accepts the connection.\<close>

definition unrestricted :: "stream_context \<Rightarrow> u64 \<Rightarrow> net \<Rightarrow> address \<Rightarrow> bool" where
  "unrestricted cx uid nt target \<longleftrightarrow>
     hm_get (ut_policies (cx_tables cx)) uid = None \<and> \<not> ec_speed (cx_enforcement cx) \<and> \<not> ec_audit_block (cx_enforcement cx) \<and>
     conn_counters (cx_tables cx) uid (cx_fallback_user_id cx) \<noteq> None \<and> \<not> isl (nt_connect_host nt (host target) (port target))"

definition quiet :: "'cc tcp_conn \<Rightarrow> bool" where
  "quiet c \<longleftrightarrow> tc_phase c = Relaying \<and> tc_limiter c = None \<or> (\<exists>app pre. tc_phase c = Handshake app pre)"

lemma admit_unrestricted:
  assumes "unrestricted (tc_ctx c) (conn_user c) nt target"
  shows "\<exists>c1 b1. tcp_admit m target initial pre (c, b) = (c1, b1) \<and> tc_phase c1 = Connecting target initial \<and>
    tc_limiter c1 = None \<and> tc_client_read c1 = tc_client_read c \<and> tc_ctx c1 = tc_ctx c \<and> tc_user_id c1 = conn_user c"
  using assms by (auto simp: tcp_admit_def unrestricted_def acquire_slot_def Let_def case_prod_beta)

lemma connect_unrestricted:
  assumes "unrestricted (tc_ctx c) (tc_user_id c) nt target" "tc_phase c = Connecting target initial" "tc_limiter c = None"
    "c2 = tcp_run C m [(b', NetAnswer nt now), (b'', Wrote now)] c"
  shows "quiet c2 \<and> tc_client_read c2 = tc_client_read c"
proof -
  obtain a where a: "nt_connect_host nt (host target) (port target) = Inr a"
    using assms(1) by (cases "nt_connect_host nt (host target) (port target)") (auto simp: unrestricted_def)
  have "connect_target_checked nt target (conn_policy c) (cx_enforcement (tc_ctx c)) = Inr a"
    using assms(1) a by (simp add: connect_target_checked_def connect_target_def conn_policy_def unrestricted_def
        policy_blocks_port_def ip_check_def)
  then show ?thesis using assms(2,3)
    by (auto simp: assms(4) tcp_wake_def tcp_connect_def Let_def begin_send_def enter_relay_def tcp_wrote_def deliver_def quiet_def)
qed

lemma relay_chunk:
  assumes "tc_phase c = Relaying" "tc_limiter c = None" "session_decrypt C (tc_session c) chunk = (s, Inr data)"
    "chunk \<noteq> []" "length chunk \<le> READ_CHUNK" "c2 = tcp_run C m (served_chunk nt bs now chunk) c"
  shows "quiet c2 \<and> tc_client_read c2 = tc_client_read c @ chunk"
  using assms
  by (cases bs) (simp add: served_chunk_def chunk_wakes_def tcp_wake_def relay_upload_def Let_def begin_send_def tcp_wrote_def deliver_def quiet_def)

lemma handshake_complete:
  assumes dec: "session_decrypt C (tc_session c) chunk = (s, Inr decoded)" "decoded \<noteq> []"
    and parse: "parse_address (app_buf @ decoded) = Inr (Some (target, n))"
    and un: "unrestricted (tc_ctx c) (user_or (cx_fallback_user_id (tc_ctx c)) s) nt target" and ch: "chunk \<noteq> []"
    and c2: "c2 = tcp_run C m [(b', NetAnswer nt now), (b'', Wrote now)] (fst (tcp_handshake C m app_buf pre chunk (c, b)))"
  shows "quiet c2 \<and> tc_client_read c2 = tc_client_read c @ chunk"
proof -
  let ?c = "c\<lparr>tc_session := s, tc_client_read := tc_client_read c @ chunk\<rparr>"
  let ?pre = "saturating_add pre (word_of_nat (length chunk))" and ?initial = "drop n (app_buf @ decoded)"
  have "unrestricted (tc_ctx ?c) (conn_user ?c) nt target" using un by (simp add: conn_user_or)
  from admit_unrestricted [OF this, of m ?initial ?pre b] obtain c1 b1 where
    c1: "tcp_admit m target ?initial ?pre (?c, b) = (c1, b1)"
    "tc_phase c1 = Connecting target ?initial" "tc_limiter c1 = None"
    "tc_client_read c1 = tc_client_read c @ chunk" "tc_ctx c1 = tc_ctx c" "tc_user_id c1 = user_or (cx_fallback_user_id (tc_ctx c)) s"
    by (auto simp: conn_user_or)
  have "c2 = tcp_run C m [(b', NetAnswer nt now), (b'', Wrote now)] c1"
    using ch dec parse c1(1) by (simp add: c2 tcp_handshake_def)
  from connect_unrestricted [OF _ c1(2,3) this] un c1(4-6) show ?thesis by simp
qed

lemma handshake_incomplete:
  assumes dec: "session_decrypt C (tc_session c) chunk = (s, Inr decoded)"
    and parse: "decoded = [] \<or> parse_address (app_buf @ decoded) = Inr None" and ch: "chunk \<noteq> []"
    and c2: "c2 = tcp_run C m [(b', NetAnswer nt now), (b'', Wrote now)] (fst (tcp_handshake C m app_buf pre chunk (c, b)))"
  shows "quiet c2 \<and> tc_client_read c2 = tc_client_read c @ chunk"
proof -
  have "length (app_buf @ decoded) \<le> MAX_HANDSHAKE_BYTES" if "decoded \<noteq> []"
    using parse that parse_address_incomplete [of "app_buf @ decoded"] by (simp add: MAX_HANDSHAKE_BYTES_def)
  then have "\<exists>x p. fst (tcp_handshake C m app_buf pre chunk (c, b)) =
      c\<lparr>tc_session := s, tc_client_read := tc_client_read c @ chunk, tc_phase := Handshake x p\<rparr>"
    using parse ch dec by (cases "decoded = []") (auto simp: tcp_handshake_def Let_def)
  then obtain x p where "fst (tcp_handshake C m app_buf pre chunk (c, b)) =
      c\<lparr>tc_session := s, tc_client_read := tc_client_read c @ chunk, tc_phase := Handshake x p\<rparr>" by blast
  then show ?thesis by (simp add: c2 tcp_wake_def quiet_def)
qed

lemma handshake_chunk:
  assumes inv: "handshakes C s0 app_buf c" and ph: "tc_phase c = Handshake app_buf pre"
    and all: "session_decrypt C s0 (tc_client_read c @ chunk @ later) = (s', Inr D)" "parse_address D = Inr (Some (target, n))"
    and un: "unrestricted (tc_ctx c) (user_or (cx_fallback_user_id (tc_ctx c)) s') nt target"
    and ch: "chunk \<noteq> []" "length chunk \<le> READ_CHUNK" and c2: "c2 = tcp_run C m (served_chunk nt bs now chunk) c"
  shows "quiet c2 \<and> tc_client_read c2 = tc_client_read c @ chunk"
proof -
  have idle: "session_idle C s0" and app: "session_decrypt C s0 (tc_client_read c) = (tc_session c, Inr app_buf)"
    using inv by (simp_all add: handshakes_def)
  obtain r d where rd: "session_decrypt C s0 (tc_client_read c @ chunk) = (r, Inr d)" "prefix d D"
    using decrypt_prefix [OF idle, of "tc_client_read c @ chunk" later] all(1) by auto
  obtain s decoded where dec: "session_decrypt C (tc_session c) chunk = (s, Inr decoded)"
    using sess.decode_ok [OF idle app, of chunk] rd(1)
    by (cases "session_decrypt C (tc_session c) chunk"; cases "snd (session_decrypt C (tc_session c) chunk)") (auto simp: agree_def)
  note joined = session_decrypt_append(1) [OF idle app dec]
  then obtain zs where D: "D = (app_buf @ decoded) @ zs" using rd by (auto elim: prefixE)
  obtain b b' b'' where bs: "bs = (b, b', b'')" by (cases bs)
  have first: "c2 = tcp_run C m [(b', NetAnswer nt now), (b'', Wrote now)] (fst (tcp_handshake C m app_buf pre chunk (c, b)))"
    using ch(2) by (simp add: c2 bs served_chunk_def chunk_wakes_def tcp_wake_def ph)
  show ?thesis
  proof (cases "decoded = [] \<or> parse_address (app_buf @ decoded) = Inr None")
    case True
    then show ?thesis by (rule handshake_incomplete [OF dec _ ch(1) first])
  next
    case False
    then have "parse_address (app_buf @ decoded) = Inr (Some (target, n))"
      using parse_address_error_append [of "app_buf @ decoded" _ zs] parse_address_append(1) [of "app_buf @ decoded" _ zs] all(2) D
      by (cases "parse_address (app_buf @ decoded)"; cases "projr (parse_address (app_buf @ decoded))") auto
    moreover have "unrestricted (tc_ctx c) (user_or (cx_fallback_user_id (tc_ctx c)) s) nt target"
      using decrypt_user_stable [OF idle joined session_decrypt_payload [OF dec]] all(1) un False by (simp add: user_or_def)
    ultimately show ?thesis using False by (intro handshake_complete [OF dec _ _ _ ch(1) first]) auto
  qed
qed

lemma relaying_decrypts:
  assumes "relays C s0 c" "session_decrypt C s0 (tc_client_read c @ chunk @ later) = (s', Inr D)"
  shows "\<exists>s data. session_decrypt C (tc_session c) chunk = (s, Inr data)"
proof -
  obtain r d plains where at: "codec_at C s0 (tc_client_read c) r d plains (tc_replies c) (tc_session c)"
    using assms(1) by (auto simp: relays_def)
  then have r: "session_idle C s0" "session_decrypt C s0 (tc_client_read c) = (r, Inr d)" "served r"
    "feed_result (session_encrypt C) r plains = (tc_session c, Inr (tc_replies c))" by (simp_all add: codec_at_def)
  obtain r' d' where "session_decrypt C s0 (tc_client_read c @ chunk) = (r', Inr d')"
    using decrypt_prefix [OF r(1), of "tc_client_read c @ chunk" later] assms(2) by auto
  then obtain t d2 where "session_decrypt C r chunk = (t, Inr d2)"
    using sess.decode_ok [OF r(1,2), of chunk]
    by (cases "session_decrypt C r chunk"; cases "snd (session_decrypt C r chunk)") (auto simp: agree_def)
  from feed_encrypt_decrypt_commute(2) [OF r(3,4) this] show ?thesis by blast
qed

type_synonym 're delivery = "('re backend \<times> 're backend \<times> 're backend) \<times> nat \<times> bytes"

definition serve_all :: "net \<Rightarrow> 're delivery list \<Rightarrow> ('re backend \<times> wake) list" where
  "serve_all nt ds = concat (map (\<lambda>(bs, now, chunk). served_chunk nt bs now chunk) ds)"

definition chunks_of :: "'re delivery list \<Rightarrow> bytes list" where
  "chunks_of ds = map (\<lambda>(bs, now, chunk). chunk) ds"

lemma tcp_run_append: "tcp_run C m (xs @ ys) c = tcp_run C m ys (tcp_run C m xs c)"
  by (induction C m xs c rule: tcp_run.induct) simp_all

lemma served_all:
  assumes "tcp_inv C s0 c" "quiet c"
    and "session_decrypt C s0 (tc_client_read c @ concat (chunks_of ds)) = (s', Inr D)" "parse_address D = Inr (Some (target, n))"
    and "unrestricted (tc_ctx c) (user_or (cx_fallback_user_id (tc_ctx c)) s') nt target"
    and "list_all (\<lambda>chunk. chunk \<noteq> [] \<and> length chunk \<le> READ_CHUNK) (chunks_of ds)"
  shows "quiet (tcp_run C m (serve_all nt ds) c) \<and>
    tc_client_read (tcp_run C m (serve_all nt ds) c) = tc_client_read c @ concat (chunks_of ds)"
  using assms
proof (induction ds arbitrary: c)
  case Nil
  then show ?case by (simp add: serve_all_def chunks_of_def)
next
  case (Cons x ds)
  obtain bs now chunk where x: "x = (bs, now, chunk)" by (cases x)
  let ?c = "tcp_run C m (served_chunk nt bs now chunk) c"
  have ch: "chunk \<noteq> []" "length chunk \<le> READ_CHUNK" "list_all (\<lambda>chunk. chunk \<noteq> [] \<and> length chunk \<le> READ_CHUNK) (chunks_of ds)"
    and dec: "session_decrypt C s0 (tc_client_read c @ chunk @ concat (chunks_of ds)) = (s', Inr D)"
    using Cons.prems by (simp_all add: x chunks_of_def)
  consider (hs) app pre where "tc_phase c = Handshake app pre" | (rl) "tc_phase c = Relaying" "tc_limiter c = None"
    using Cons.prems(2) by (auto simp: quiet_def)
  then have step: "quiet ?c \<and> tc_client_read ?c = tc_client_read c @ chunk"
  proof cases
    case ph: (hs app pre)
    then have "handshakes C s0 app c" using Cons.prems(1) by (simp add: tcp_inv_def)
    from handshake_chunk [OF this ph dec Cons.prems(4,5) ch(1,2) refl] show ?thesis .
  next
    case ph: rl
    then have "relays C s0 c" using Cons.prems(1) by (simp add: tcp_inv_def)
    from relaying_decrypts [OF this dec] relay_chunk [OF ph _ ch(1,2) refl] show ?thesis by blast
  qed
  have "quiet (tcp_run C m (serve_all nt ds) ?c) \<and>
      tc_client_read (tcp_run C m (serve_all nt ds) ?c) = tc_client_read ?c @ concat (chunks_of ds)"
    by (rule Cons.IH [OF tcp_inv_run [OF Cons.prems(1)]])
      (use step dec Cons.prems(4,5) ch(3) in \<open>simp_all add: tcp_run_ctx\<close>)
  then show ?case using step by (simp add: x serve_all_def chunks_of_def tcp_run_append)
qed

lemma relaying_facts:
  assumes C: "crypto_ok C" and open0: "tcp_open C rand cx = Inr c0" and c: "c = tcp_run C m es c0" "tc_phase c = Relaying"
  shows "\<exists>r p d target n. session_decrypt C (tc_session c0) (tc_client_read c) = (r, Inr d) \<and> ss_protocol r = Some p \<and>
    parse_address d = Inr (Some (target, n)) \<and> tc_remote_written c = drop n d \<and>
    tc_user_id c = user_or (cx_fallback_user_id cx) r \<and>
    client_reads C (tc_session c0) (user_key p) (tc_client_written c) (tc_remote_read c)"
proof -
  have cx: "tc_ctx c = cx" using open0 by (auto simp: c(1) tcp_run_ctx tcp_open_def split: sum.splits)
  have "relays C (tc_session c0) c"
    using tcp_inv_run [OF tcp_inv_open [OF C open0], of m es] c by (simp add: tcp_inv_def)
  then obtain r d plains target n where at: "codec_at C (tc_session c0) (tc_client_read c) r d plains (tc_replies c) (tc_session c)"
    and rest: "attributed r d target n c" "concat plains = tc_remote_read c" "[] \<notin> set plains"
      "tc_remote_written c = drop n d" "tc_client_written c = tc_replies c"
    unfolding relays_def using c(2) by auto
  obtain p where p: "ss_protocol r = Some p" using at by (auto simp: codec_at_def served_def)
  show ?thesis
    using at rest p replies_readable [OF C tcp_open_session [OF open0] at rest(3) p] cx
    by (auto simp: codec_at_def attributed_def)
qed

lemma tcp_open_fields:
  "tcp_open C rand cx = Inr c0 \<Longrightarrow> tc_client_read c0 = [] \<and> tc_ctx c0 = cx \<and> quiet c0"
  by (auto simp: tcp_open_def quiet_def split: sum.splits)

lemma served_stream:
  assumes C: "crypto_ok C" and open0: "tcp_open C rand cx = Inr c0"
    and dec: "session_decrypt C (tc_session c0) (concat (chunks_of ds)) = (s', Inr D)" "parse_address D = Inr (Some (target, n))"
    and un: "unrestricted cx (user_or (cx_fallback_user_id cx) s') nt target"
    and ch: "list_all (\<lambda>chunk. chunk \<noteq> [] \<and> length chunk \<le> READ_CHUNK) (chunks_of ds)"
    and c: "c = tcp_run C m (serve_all nt ds) c0"
  shows "tc_phase c = Relaying \<and> tc_remote_written c = drop n D \<and> tc_user_id c = user_or (cx_fallback_user_id cx) s'"
proof -
  note f = tcp_open_fields [OF open0]
  have inv: "tcp_inv C (tc_session c0) c" unfolding c by (rule tcp_inv_run [OF tcp_inv_open [OF C open0]])
  have q: "quiet c" "tc_client_read c = concat (chunks_of ds)"
    using served_all [OF tcp_inv_open [OF C open0], of ds s' D target n nt m] f dec un ch by (simp_all add: c)
  have ph: "tc_phase c = Relaying"
  proof (rule ccontr)
    assume "tc_phase c \<noteq> Relaying"
    then obtain app pre where "tc_phase c = Handshake app pre" using q(1) by (auto simp: quiet_def)
    then have "session_decrypt C (tc_session c0) (tc_client_read c) = (tc_session c, Inr app)" "parse_address app = Inr None"
      using inv by (simp_all add: tcp_inv_def handshakes_def)
    then show False using q(2) dec by simp
  qed
  with relaying_facts [OF C open0 c ph] q(2) dec show ?thesis by auto
qed

subsection \<open>Properties\<close>

text \<open>C4: a relayed connection is a faithful pipe. Whenever a connection is between two reads, however
  the bytes arrived, however reads of the two directions were interleaved and whatever other tasks
  did to the shared state: what has been written to the target is exactly what the client's stream
  decodes to after its address header, the user is the one the session authenticated (the
  listener's own row otherwise), and what has been written to the client is something a client
  that holds the key of the connection reads as exactly what the target sent.\<close>

theorem tcp_relay_exact:
  assumes "crypto_ok C" "tcp_open C rand cx = Inr c0" "c = tcp_run C m es c0" "tc_phase c = Relaying"
  shows "\<exists>r p d target n. session_decrypt C (tc_session c0) (tc_client_read c) = (r, Inr d) \<and> ss_protocol r = Some p \<and>
    parse_address d = Inr (Some (target, n)) \<and> tc_remote_written c = drop n d \<and>
    tc_user_id c = user_or (cx_fallback_user_id cx) r \<and>
    client_reads C (tc_session c0) (user_key p) (tc_client_written c) (tc_remote_read c)"
  by (rule relaying_facts [OF assms])

text \<open>At no moment, and not after any failure, does a connection put a byte on either side that
  the other side did not cause: either nothing at all was written, or what the target got is a
  prefix of what a prefix of the client's bytes decodes to after the header, and what the client
  got is a prefix of an encoding of what the target sent. If there is a connection to the target
  and the user has a policy in force, its address and the requested port are not forbidden.\<close>

lemma tcp_relay_prefix:
  assumes "crypto_ok C" "tcp_open C rand cx = Inr c0" "c = tcp_run C m es c0"
  shows "untouched c \<or>
    (\<exists>R r p d target n wire. prefix R (tc_client_read c) \<and> session_decrypt C (tc_session c0) R = (r, Inr d) \<and>
       ss_protocol r = Some p \<and> parse_address d = Inr (Some (target, n)) \<and> prefix (tc_remote_written c) (drop n d) \<and>
       prefix (tc_client_written c) wire \<and> client_reads C (tc_session c0) (user_key p) wire (tc_remote_read c) \<and>
       (case (tc_remote c, conn_policy c) of
          (Some a, Some pol) \<Rightarrow> ec_forbidden (cx_enforcement cx) \<longrightarrow>
            \<not> ip_forbidden pol (sa_ip a) \<and> \<not> port_forbidden pol (port target)
        | _ \<Rightarrow> True))"
proof -
  have cx: "tc_ctx c = cx" using assms(2) by (auto simp: assms(3) tcp_run_ctx tcp_open_def split: sum.splits)
  have inv: "tcp_inv C (tc_session c0) c"
    using tcp_inv_run [OF tcp_inv_open [OF assms(1,2)], of m es] assms(3) by simp
  then have "untouched c \<or> relayed C (tc_session c0) c"
    by (auto simp: tcp_inv_def handshakes_def relays_relayed split: phase.splits)
  then show ?thesis
  proof
    assume "relayed C (tc_session c0) c"
    then obtain R r d plains target n s where at: "codec_at C (tc_session c0) R r d plains (tc_replies c) s"
      and rest: "attributed r d target n c" "prefix R (tc_client_read c)" "concat plains = tc_remote_read c" "[] \<notin> set plains"
        "prefix (tc_remote_written c) (drop n d)" "prefix (tc_client_written c) (tc_replies c)"
      unfolding relayed_def by auto
    obtain p where p: "ss_protocol r = Some p" using at by (auto simp: codec_at_def served_def)
    have dec: "session_decrypt C (tc_session c0) R = (r, Inr d)" "parse_address d = Inr (Some (target, n))"
      using at rest(1) by (simp_all add: codec_at_def attributed_def)
    have "case (tc_remote c, conn_policy c) of
          (Some a, Some pol) \<Rightarrow> ec_forbidden (cx_enforcement cx) \<longrightarrow>
            \<not> ip_forbidden pol (sa_ip a) \<and> \<not> port_forbidden pol (port target)
        | _ \<Rightarrow> True"
      using rest(1) cx connect_checked_sound by (fastforce simp: attributed_def split: option.splits)
    with dec rest(2,5,6) p replies_readable [OF assms(1) tcp_open_session [OF assms(2)] at rest(4) p, unfolded rest(3)]
    show ?thesis by blast
  qed simp
qed

text \<open>Clients get served. A client that follows the wire format, for a user with a counter and no
  limits in force, whose target accepts connections and takes what is written: however its stream
  is cut into reads, the connection ends up relaying, attributed to the client's uid (to the
  listener's row when the uid is unknown), with exactly the payload behind the address header
  written to the target. In particular the handshake neither stalls nor gives up.\<close>

lemma tcp_client_served:
  assumes mkey_def: "mkey = derive_master_key C (cx_password cx) k" and u_def: "u = word_of_nat (unat (uid :: u32))"
    and "crypto_ok C" and open0: "tcp_open C rand cx = Inr c0" and k: "k = cx_cipher_kind cx"
    and us: "us = hm_get (ut_auth_users (cx_tables cx))"
    and "length civ = iv_len k" "new_stream C k mkey civ = Inr enc"
    and "ukey = selected_key mkey civ us (cx_is_multi_user cx) u"
    and "length auth12 = 12" "35 + length pad + length payload < MAX_PACKET" "list_all wire_ok ps"
    and stream: "concat (chunks_of ds) = civ @ snd (stream_process C enc
           (wire_auth_packet C mkey civ ukey uid check auth12 pad payload @ wire_data_stream C ukey 1 ps))"
    and "parse_address (payload @ concat (map snd ps)) = Inr (Some (target, n))"
    and v: "v = (if us u = None then cx_fallback_user_id cx else u)" and "unrestricted cx v nt target"
    and "list_all (\<lambda>chunk. chunk \<noteq> [] \<and> length chunk \<le> READ_CHUNK) (chunks_of ds)"
    and "c = tcp_run C m (serve_all nt ds) c0"
  shows "tc_phase c = Relaying \<and> tc_remote_written c = drop n (payload @ concat (map snd ps)) \<and> tc_user_id c = v"
proof -
  have s0: "session_new C rand (cx_password cx) us (cx_is_multi_user cx) k = Inr (tc_session c0)"
    using tcp_open_session [OF open0] us k by simp
  from conforming_stream_decodes [OF mkey_def u_def assms(3) s0 assms(7-12)] obtain s' where
    s': "session_decrypt C (tc_session c0) (concat (chunks_of ds)) = (s', Inr (payload @ concat (map snd ps)))"
    "session_user_id s' = (if us u = None then None else Some u)" unfolding stream by blast
  then have "v = user_or (cx_fallback_user_id cx) s'" by (simp add: v user_or_def)
  with served_stream [OF assms(3) open0 s'(1) assms(14) _ assms(17,18)] assms(16) show ?thesis by simp
qed

subsection \<open>The handshake limit\<close>

fun phase_bounded :: "phase \<Rightarrow> bool" where
  "phase_bounded (Handshake app_buf pre) = (length app_buf < 259)"
| "phase_bounded (Closed res) = (res \<noteq> Inl HandshakeTooLong)"
| "phase_bounded _ = True"

lemma phase_close: "tc_phase (fst (tcp_close res w)) = Closed res"
  by (cases w) (simp add: tcp_close_def)

lemma acquire_slot_error: "snd (acquire_slot cx uid pol l) = Inl e \<Longrightarrow> e = NoConnCounter uid"
  by (auto simp: acquire_slot_def split: option.splits if_splits prod.splits)

lemma phase_admit: "phase_bounded (tc_phase (fst (tcp_admit m t i pre (c, b))))"
  by (auto simp: tcp_admit_def Let_def case_prod_beta phase_close dest: acquire_slot_error
      split: option.split sum.split admission.split)

lemma connect_checked_error: "connect_target_checked nt target policy enf \<noteq> Inl HandshakeTooLong"
proof -
  have "connect_first nt target addrs err \<noteq> Inl HandshakeTooLong" for addrs err
    by (induction nt target addrs err rule: connect_first.induct) (auto split: option.split sum.split)
  then show ?thesis
    by (auto simp: connect_target_checked_def Let_def case_prod_beta map_sum_def split: option.split sum.split)
qed

lemma phase_handshake:
  assumes "crypto_ok C" "session_keyed (tc_session c)" and "length app_buf < 259"
  shows "phase_bounded (tc_phase (fst (tcp_handshake C m app_buf pre chunk (c, b))))"
proof -
  have dec: "snd (session_decrypt C (tc_session c) chunk) \<noteq> Inl HandshakeTooLong"
    using session_decrypt_keyed [OF assms(1,2), of chunk HandshakeTooLong] by auto
  have parse: "parse_address buf \<noteq> Inl HandshakeTooLong" for buf
    by (auto simp: parse_address_def Let_def split: option.split)
  have short: "length app_buf + length xs < 259 \<and> \<not> MAX_HANDSHAKE_BYTES < length app_buf + length xs"
    if "parse_address (app_buf @ xs) = Inr None" for xs
    using parse_address_incomplete [OF that] by (simp add: MAX_HANDSHAKE_BYTES_def)
  show ?thesis using dec parse assms(3) short
    by (auto simp: tcp_handshake_def Let_def case_prod_beta phase_close phase_admit split: sum.split option.split)
qed

definition tcp_keyed :: "'cc tcp_conn \<Rightarrow> bool" where
  "tcp_keyed c \<longleftrightarrow> session_keyed (tc_session c) \<and> phase_bounded (tc_phase c)"

lemma session_encrypt_keyed: "session_keyed s \<Longrightarrow> session_keyed (fst (session_encrypt C s x)) \<and> snd (session_encrypt C s x) \<noteq> Inl HandshakeTooLong"
  by (auto simp: session_encrypt_def session_keyed_def case_prod_beta Let_def split: option.split)

lemma session_close: "tc_session (fst (tcp_close res w)) = tc_session (fst w)"
  by (cases w) (simp add: tcp_close_def)

lemma session_admit: "tc_session (fst (tcp_admit m t i pre (c, b))) = tc_session c"
  by (simp add: tcp_admit_def Let_def case_prod_beta session_close split: option.split sum.split admission.split)

lemma tcp_wake_keyed:
  assumes "crypto_ok C" "tcp_keyed c"
  shows "tcp_keyed (fst (tcp_wake C m e (c, b)))"
proof -
  have k: "session_keyed (tc_session c)" and ph: "phase_bounded (tc_phase c)" using assms(2) by (simp_all add: tcp_keyed_def)
  have dec: "session_keyed (fst (session_decrypt C (tc_session c) x))"
    "snd (session_decrypt C (tc_session c) x) \<noteq> Inl HandshakeTooLong" for x
    using session_decrypt_keyed [OF assms(1) k, of x HandshakeTooLong] by auto
  have sent: "phase_bounded (tc_phase (begin_send k' data c'))" for k' data and c' :: "'a tcp_conn"
    by (simp add: begin_send_def split: option.split)
  have ses: "tc_session (deliver k' data c') = tc_session c'" for k' data and c' :: "'a tcp_conn"
    by (simp add: deliver_def)
  have hs: "session_keyed (tc_session (fst (tcp_handshake C m app_buf pre chunk (c, b))))" for app_buf pre chunk
    using dec k by (simp add: tcp_handshake_def Let_def case_prod_beta session_close session_admit split: sum.split option.split)
  show ?thesis
    unfolding tcp_wake_def fst_conv
    by (cases "(C, m, tc_phase c, e, (c, b))" rule: tcp_step.cases)
      (use k ph dec session_encrypt_keyed [OF k] phase_handshake [OF assms(1) k, simplified] hs connect_checked_error in
        \<open>auto simp: tcp_keyed_def phase_close session_close ses sent tcp_connect_def tcp_pace_def tcp_wrote_def
          relay_upload_def relay_download_def begin_send_fields enter_relay_def Let_def case_prod_beta
          split: sum.split option.split\<close>)
qed

text \<open>C14: the 64 KiB handshake limit is never what ends a connection, and a client cannot make the
  server hoard handshake bytes: while a connection waits for its address header it holds fewer
  than 259 bytes of decoded payload, whatever the client sends, because the header is decided by
  then; the limit check behind it is unreachable.\<close>

theorem handshake_buffer_bound:
  assumes "crypto_ok C" "tcp_open C rand cx = Inr c0"
  shows "phase_bounded (tc_phase (tcp_run C m es c0))"
proof -
  have "tcp_keyed c \<Longrightarrow> tcp_keyed (tcp_run C m es c)" for c
    using assms(1) by (induction C m es c rule: tcp_run.induct) (simp_all add: tcp_wake_keyed)
  moreover have "tcp_keyed c0"
    using assms(2) session_new_keyed [OF assms(1) tcp_open_session [OF assms(2)]]
    by (auto simp: tcp_keyed_def tcp_open_def split: sum.splits)
  ultimately show ?thesis by (simp add: tcp_keyed_def)
qed

subsection \<open>A sample client\<close>

text \<open>User 7 on its own port, one counter; the client asks for 8.8.8.8 port 80 and sends one byte.\<close>

definition sample_context :: stream_context where
  "sample_context = \<lparr>cx_password = ''pw'', cx_fallback_user_id = 7,
     cx_tables = tables_default\<lparr>ut_counters_by_user := [(7, 0)]\<rparr>,
     cx_enforcement = \<lparr>ec_forbidden = True, ec_conn_limit = True, ec_audit_block = False, ec_speed = False\<rparr>,
     cx_is_multi_user = 0, cx_cipher_kind = Chacha20Ietf, cx_peer_ip = ''1.1.1.1'', cx_peer = ''1.1.1.1:9'',
     cx_idle_timeout = 0\<rparr>"

definition sample_rand :: "nat \<Rightarrow> bytes option" where
  "sample_rand n = Some (replicate n 3)"

definition sample_payload :: bytes where
  "sample_payload = [1, 8, 8, 8, 8, 0, 80, 9]"

definition sample_key :: bytes where
  "sample_key = derive_master_key sample_crypto ''pw'' Chacha20Ietf"

definition sample_civ :: bytes where
  "sample_civ = replicate 12 4"

definition sample_wire :: bytes where
  "sample_wire = wire_auth_packet sample_crypto sample_key sample_civ sample_key 0 1 (replicate 12 0) [] sample_payload"

lemma length_sample_wire: "length sample_wire = 43"
  by (simp add: sample_wire_def wire_auth_packet_def Let_def hmac_md5_prefix_def crypto_okD(2) [OF sample_crypto_ok] sample_payload_def)
    (simp add: sample_crypto_def)

lemma sample_open: "\<exists>c0. tcp_open sample_crypto sample_rand sample_context = Inr c0"
proof -
  have "sample_rand (iv_len Chacha20Ietf) = Some (replicate (iv_len Chacha20Ietf) 3)" by (simp add: sample_rand_def)
  from session_new_total [where rand = sample_rand and k = Chacha20Ietf, OF sample_crypto_ok this]
  have "\<exists>s. session_new sample_crypto sample_rand password us multi Chacha20Ietf = Inr s" for password us multi
    by simp
  then obtain s where "session_new sample_crypto sample_rand ''pw'' (hm_get []) 0 Chacha20Ietf = Inr s" by blast
  then show ?thesis by (simp add: tcp_open_def sample_context_def tables_default_def)
qed

lemma sample_encryptor: "\<exists>enc. new_stream sample_crypto Chacha20Ietf sample_key sample_civ = Inr enc"
  using new_stream_total [OF sample_crypto_ok, of sample_key Chacha20Ietf sample_civ] sample_crypto_ok
  by (simp add: sample_key_def sample_civ_def)

lemma sample_target:
  "\<exists>target. parse_address sample_payload = Inr (Some (target, 7)) \<and> port target = 80"
  by (simp add: parse_address_def sample_payload_def ATYP_IPV4_def Let_def be_u16_def subslice_def be_nat_def)

lemma sample_unrestricted: "unrestricted sample_context 7 sample_net target"
  by (simp add: unrestricted_def sample_context_def tables_default_def conn_counters_def sample_net_def hm_get_def)

definition sample_ds :: "nat stream_cipher \<Rightarrow> unit delivery list" where
  "sample_ds enc = [((sample_backend, sample_backend, sample_backend), 0, sample_civ @ snd (stream_process sample_crypto enc sample_wire))]"

lemma sample_ds_ok:
  "list_all (\<lambda>chunk. chunk \<noteq> [] \<and> length chunk \<le> READ_CHUNK) (chunks_of (sample_ds enc))"
  using sc.process_length [OF crypto_okD(4) [OF sample_crypto_ok], of enc sample_wire] length_sample_wire
  by (simp add: chunks_of_def sample_ds_def READ_CHUNK_def sample_civ_def)

lemma sample_facts:
  "length sample_civ = iv_len Chacha20Ietf" "length (replicate 12 (0 :: byte)) = 12"
  "35 + length ([] :: bytes) + length sample_payload < MAX_PACKET" "list_all wire_ok []"
  "sample_key = selected_key sample_key sample_civ (hm_get []) 0 (word_of_nat (unat (0 :: u32)))"
  "sample_payload @ concat (map snd []) = sample_payload"
  "concat (chunks_of (sample_ds enc)) = sample_civ @ snd (stream_process sample_crypto enc
     (wire_auth_packet sample_crypto sample_key sample_civ sample_key 0 1 (replicate 12 0) [] sample_payload @
      wire_data_stream sample_crypto sample_key 1 []))"
  by (simp_all add: sample_civ_def sample_payload_def MAX_PACKET_def selected_key_def chunks_of_def sample_ds_def sample_wire_def)

lemma sample_relays:
  assumes "tcp_open sample_crypto sample_rand sample_context = Inr c0" "new_stream sample_crypto Chacha20Ietf sample_key sample_civ = Inr enc"
  shows "tc_phase (tcp_run sample_crypto (\<lambda>_ _. False) (serve_all sample_net (sample_ds enc)) c0) = Relaying"
proof -
  obtain target where t: "parse_address sample_payload = Inr (Some (target, 7))" using sample_target by blast
  have s0: "session_new sample_crypto sample_rand ''pw'' (hm_get []) 0 Chacha20Ietf = Inr (tc_session c0)"
    using tcp_open_session [OF assms(1)] by (simp add: sample_context_def tables_default_def)
  obtain s' where s': "session_decrypt sample_crypto (tc_session c0) (concat (chunks_of (sample_ds enc))) = (s', Inr sample_payload)"
    "session_user_id s' = None"
    using conforming_stream_decodes [OF sample_key_def refl sample_crypto_ok s0 sample_facts(1) assms(2) sample_facts(5,2-4), of 1]
    unfolding sample_facts(6,7) by fastforce
  show ?thesis
    using served_stream [OF sample_crypto_ok assms(1) s'(1) t _ sample_ds_ok refl] sample_unrestricted s'(2)
    by (simp add: user_or_def sample_context_def)
qed

theorem tcp_relay_exact_witness:
  "\<exists>c :: nat tcp_conn. tc_phase c = Relaying \<and> tc_ctx c = sample_context \<and>
     (\<exists>r d target n s0. session_decrypt sample_crypto s0 (tc_client_read c) = (r, Inr d) \<and>
       parse_address d = Inr (Some (target, n)) \<and> tc_remote_written c = drop n d)"
proof -
  obtain c0 enc where c0: "tcp_open sample_crypto sample_rand sample_context = Inr c0"
    and enc: "new_stream sample_crypto Chacha20Ietf sample_key sample_civ = Inr enc"
    using sample_open sample_encryptor by blast
  let ?c = "tcp_run sample_crypto (\<lambda>_ _. False) (serve_all sample_net (sample_ds enc)) c0"
  have "tc_ctx ?c = sample_context" using tcp_open_fields [OF c0] by (simp add: tcp_run_ctx)
  with tcp_relay_exact [OF sample_crypto_ok c0 refl sample_relays [OF c0 enc]] sample_relays [OF c0 enc] show ?thesis by blast
qed

theorem handshake_buffer_bound_witness:
  "\<exists>c :: nat tcp_conn. tc_ctx c = sample_context \<and> phase_bounded (tc_phase c)"
proof -
  obtain c0 where c0: "tcp_open sample_crypto sample_rand sample_context = Inr c0" using sample_open by blast
  let ?c = "tcp_run sample_crypto (\<lambda>_ _. False) [(sample_backend, ClientRead (Inr [1, 2]) 0)] c0"
  have "tc_ctx ?c = sample_context" using tcp_open_fields [OF c0] by (simp add: tcp_wake_ctx)
  with handshake_buffer_bound [OF sample_crypto_ok c0] show ?thesis by blast
qed

end
