(* ===== verification/Udp_Relay.thy ===== *)
theory Udp_Relay
  imports Udp_Props Tcp_Props
begin

text \<open>
  The properties of the UDP relay of \<^verbatim>\<open>src/src/udp.rs\<close>, over arbitrary runs of a
  listener and its pumps.
\<close>

subsection \<open>Forwarding\<close>

text \<open>C7: the listener forwards exactly what authenticated clients ask for. The datagrams it sent to
  targets are, in order and each at most once, the requests of the run: those received datagrams
  that decrypt and authenticate, belong to an accounted user, carry a complete address and pass the
  user's policy, each as its destination and its payload behind the address header. When sockets
  bind and send and the listener is not stopped, none of them is missing.\<close>

theorem udp_forwards_requests:
  fixes es :: "'re udp_trace"
  assumes "udp_listen C task = Inr l0"
  shows "subseq (map snd (ul_sent (udp_run C m es l0))) (requests C l0 es) \<and>
    (list_all (step_works \<circ> snd) es \<longrightarrow> map snd (ul_sent (udp_run C m es l0)) = requests C l0 es)"
proof -
  have "ul_sent l0 = []" "ul_running l0" using assms by (auto simp: udp_listen_def split: sum.splits)
  moreover have "udp_inv C l0 ([] :: 're udp_trace) l0" using udp_inv_listen [OF assms] by blast
  ultimately show ?thesis using run_sent [of C l0 "[]" l0 m es] by auto
qed

text \<open>C8: nothing is forwarded without authority. Every datagram that left for a target was carried by
  a received datagram that authenticated as some user, and the policy of that user in force then
  admits its port and its address; with a list of forbidden addresses the datagram goes to a
  resolved address outside of it. The socket it left through belongs to no association but the one
  of that client address and user, so its replies can reach nobody else.\<close>

theorem udp_forwarding_authorised:
  fixes es :: "'re udp_trace"
  assumes "udp_listen C task = Inr l0" "(out, dest, payload) \<in> set (ul_sent (udp_run C m es l0))"
  shows "\<exists>b env now datagram peer uid rkey cnt plain target n.
    (b, Received env now datagram peer) \<in> set es \<and>
    accepts C l0 (br_user_tables b) (take BUF_SIZE datagram) uid rkey cnt plain \<and>
    parse_address plain = Inr (Some (target, n)) \<and> payload = drop n plain \<and>
    permitted (ud_enforcement task) (hm_get (ut_policies (br_user_tables b)) uid) target dest \<and>
    (\<forall>j a t. tm_lookup (ul_associations (udp_run C m es l0)) j = Some (a, t) \<longrightarrow> as_outbound a = out \<longrightarrow>
       j = \<lparr>ky_peer = peer, ky_user_id = uid\<rparr>)"
proof -
  have task: "ul_task l0 = task" and "udp_inv C l0 ([] :: 're udp_trace) l0" using udp_inv_listen [OF assms(1)] by blast+
  from udp_inv_run [OF this(2), of es m] have "sent_ok C l0 es (udp_run C m es l0)" by (simp add: udp_inv_def)
  then obtain k where k: "forwarded C l0 es k dest payload"
    "\<forall>j a t. tm_lookup (ul_associations (udp_run C m es l0)) j = Some (a, t) \<longrightarrow> as_outbound a = out \<longrightarrow> j = k"
    using assms(2) unfolding sent_ok_def by blast
  have "k = \<lparr>ky_peer = ky_peer k, ky_user_id = ky_user_id k\<rparr>" by simp
  with k show ?thesis unfolding forwarded_def task by (metis resolved_permitted)
qed

subsection \<open>Replies and associations\<close>

text \<open>C12: replies stay with the client that asked. At every moment of a run there are at most the
  configured number of associations; the pump of each sends to the client address of its key only,
  under a response key that an accepted datagram from that address selected, and shares its socket
  with no other association. Every reply sent so far went to an address that had authenticated,
  under such a key.\<close>

theorem udp_associations_isolated:
  fixes es :: "'re udp_trace"
  assumes "udp_listen C task = Inr l0" "l = udp_run C m es l0"
  shows "tm_len (ul_associations l) \<le> max (ud_max_associations task) 1 \<and>
    (\<forall>k a t. tm_lookup (ul_associations l) k = Some (a, t) \<longrightarrow>
       as_peer a = ky_peer k \<and> vouched C l0 es (ky_peer k) (ky_user_id k) (as_response_key a) (as_counters a) \<and>
       (\<forall>j a' t'. tm_lookup (ul_associations l) j = Some (a', t') \<longrightarrow> as_outbound a' = as_outbound a \<longrightarrow> j = k)) \<and>
    (\<forall>peer pkt. (peer, pkt) \<in> set (ul_replies l) \<longrightarrow> answered C l0 es peer pkt)"
proof -
  note li = udp_inv_listen [OF assms(1)]
  have "udp_inv C l0 ([] :: 're udp_trace) l0" using li by blast
  from udp_inv_run [OF this, of es m] have i: "udp_inv C l0 es l" by (simp add: assms(2))
  have "tm_len (ul_associations l) \<le> max (ud_max_associations task) 1"
    using i li by (auto simp: udp_inv_def tm_ok_def tm_len_def)
  moreover have "assocs_ok C l0 es l" "\<forall>x \<in> set (ul_replies l). answered C l0 es (fst x) (snd x)"
    using i by (simp_all add: udp_inv_def)
  ultimately show ?thesis unfolding assocs_ok_def by fastforce
qed

text \<open>C11: a request and its reply are carried unchanged. The first datagram of a client that follows
  the wire format, for any cipher, key and IV, is charged by its length and sent to its target
  through a fresh socket without its header; what comes back on that socket is charged by its
  encrypted length and sent to the client, who decrypts it to the address it came from, the data
  and a MAC under the key of its own datagram.\<close>

theorem udp_exchange:
  fixes es :: "'re udp_trace"
  assumes C: "crypto_ok C" and l: "udp_listen C task = Inr l0" "l = udp_run C m es l0" "ul_running l"
    and iv: "length iv = iv_len (ul_cipher l0)" "new_stream C (ul_cipher l0) (ul_master_key l0) iv = Inr c"
    and u: "udp_user (ul_master_key l0) (hm_get (ut_auth_users (br_user_tables b))) (ud_is_multi_user task) iv
      (word_of_nat (unat (uid :: u32))) = (key, who)" "who \<noteq> None \<or> ud_is_multi_user task = 0"
    and user: "user = unwrap_or who (ud_user_id task)" "conn_counters (br_user_tables b) user (ud_user_id task) = Some cnt"
    and d: "datagram = iv @ wire_datagram C c key uid plain" "length datagram \<le> BUF_SIZE"
      "parse_address plain = Inr (Some (target, n))"
    and p: "policy = hm_get (ut_policies (br_user_tables b)) user" "\<not> policy_blocks_port (ud_enforcement task) policy (port target)"
      "resolve_udp_dest (ue_net env) target policy (ud_enforcement task) = Inr dest"
    and k: "k = \<lparr>ky_peer = peer, ky_user_id = user\<rparr>" "tm_lookup (tm_expire now (ul_associations l)) k = None" "env_works env"
    and r: "new_stream C (ul_cipher l0) (ul_master_key l0) iv' = Inr c'" "rand (iv_len (ul_cipher l0)) = Some iv'"
      "length data \<le> BUF_SIZE" "header = pack_socket_addr (sa_ip origin) (sa_port origin) @ data"
  shows "\<exists>l' b' cipher. udp_wake C m (Received env now datagram peer) (l, b) = (l', b') \<and>
    ul_sent l' = ul_sent l @ [(ul_bound l, dest, drop n plain)] \<and>
    br_traffic b' = count_bytes Upload cnt (word_of_nat (length datagram)) (br_traffic b) \<and>
    udp_wake C m (Replied rand k (Inr (data, origin)) (Inr ())) (l', b') =
      (l'\<lparr>ul_replies := ul_replies l @ [(peer, iv' @ cipher)], ul_charged := (cnt, Download, iv' @ cipher) # ul_charged l'\<rparr>,
       b'\<lparr>br_traffic := count_bytes Download cnt (word_of_nat (length (iv' @ cipher))) (br_traffic b')\<rparr>) \<and>
    snd (stream_process C c' cipher) = header @ hmac_md5_prefix C key header 4"
proof -
  let ?rkey = "response_key_of (br_user_tables b) (ul_master_key l0) who"
  let ?lc = "l\<lparr>ul_associations := tm_expire now (ul_associations l), ul_charged := (cnt, Upload, datagram) # ul_charged l\<rparr>"
  note li = udp_inv_listen [OF l(1)]
  have "udp_inv C l0 ([] :: 're udp_trace) l0" using li by blast
  from udp_inv_run [OF this, of es m] have i: "udp_inv C l0 es l" by (simp add: l(2))
  have same: "ul_task l = task" "ul_cipher l = ul_cipher l0" "ul_master_key l = ul_master_key l0"
    and ok: "tm_ok (ul_associations (?lc))"
    and ended: "ul_bound l \<notin> set (ul_ended l)"
    using i li by (auto simp: udp_inv_def same_listener_def tm_ok_expire list_all_iff)
  have "accepts C l (br_user_tables b) datagram user ?rkey cnt plain"
    using udp_request_decodes [OF C iv(2,1) u(1), of plain] user by (auto simp: accepts_def same d(1))
  from receive_accepted [OF this d(2,3), folded p(1), unfolded same, OF p(2)] obtain b1 where
    b1: "br_traffic b1 = count_bytes Upload cnt (word_of_nat (length datagram)) (br_traffic b)"
    and rec: "udp_receive C m env now datagram peer (l, b) = fst (forward env now target policy k ?rkey cnt (drop n plain)
        (?lc, b1))" unfolding k(1) by blast
  from forward_fresh [OF ok _ k(3), of k target policy dest ?rkey cnt now b1 "drop n plain"] obtain m' b' where
    m': "tm_lookup m' k = Some (\<lparr>as_outbound = ul_bound l, as_response_key = ?rkey, as_counters = cnt, as_peer = peer\<rparr>, now)"
    and b': "br_traffic b' = br_traffic b1"
    and fwd: "fst (forward env now target policy k ?rkey cnt (drop n plain)
        (?lc, b1)) =
      (?lc\<lparr>ul_bound := ul_bound l + 1, ul_associations := m', ul_sent := ul_sent l @ [(ul_bound l, dest, drop n plain)]\<rparr>, b')"
    using k(1,2) p(3) same(1) by auto
  let ?l = "?lc\<lparr>ul_bound := ul_bound l + 1, ul_associations := m', ul_sent := ul_sent l @ [(ul_bound l, dest, drop n plain)]\<rparr>"
  from pump_reply_alive [of ?l k _ now C iv' c' rand data header origin b', OF _ _ C _ _ r(3,4)] m' ended r(1,2) same
  obtain cipher where "pump_reply C rand k (Inr (data, origin)) (Inr ()) (?l, b') =
      (?l\<lparr>ul_replies := ul_replies l @ [(peer, iv' @ cipher)], ul_charged := (cnt, Download, iv' @ cipher) # ul_charged ?l\<rparr>,
       b'\<lparr>br_traffic := count_bytes Download cnt (word_of_nat (length (iv' @ cipher))) (br_traffic b')\<rparr>)"
    "snd (stream_process C c' cipher) = header @ hmac_md5_prefix C ?rkey header 4" by fastforce
  then show ?thesis using rec fwd b' b1 l(3) response_key_is_user_key [OF u]
    by (intro exI [of _ ?l] exI [of _ b'] exI [of _ cipher]) simp
qed

text \<open>C15: an association in use is never renewed. A later datagram of the same client address and user,
  while the association is fresh, leaves through the old socket and only renews the entry's age:
  the entry keeps the response key of the first datagram, whatever key the user has by now, and
  when its pump has ended, after an error on either socket, nothing received for it is ever sent
  back although requests keep being forwarded.\<close>

theorem udp_association_never_renewed:
  assumes "accepts C l (br_user_tables b) datagram uid rkey cnt plain" "length datagram \<le> BUF_SIZE"
    and "parse_address plain = Inr (Some (target, n))"
    and "\<not> policy_blocks_port (ud_enforcement (ul_task l)) (hm_get (ut_policies (br_user_tables b)) uid) (port target)"
    and "resolve_udp_dest (ue_net env) target (hm_get (ut_policies (br_user_tables b)) uid) (ud_enforcement (ul_task l)) = Inr dest"
    and "k = \<lparr>ky_peer = peer, ky_user_id = uid\<rparr>" "tm_lookup (tm_expire now (ul_associations l)) k = Some (a, t)"
    and "ul_running l" "ue_send env = Inr ()"
  shows "\<exists>l' b'. udp_wake C m (Received env now datagram peer) (l, b) = (l', b') \<and>
    ul_sent l' = ul_sent l @ [(as_outbound a, dest, drop n plain)] \<and>
    tm_lookup (ul_associations l') k = Some (a, now) \<and>
    (as_outbound a \<in> set (ul_ended l) \<longrightarrow>
      (\<forall>rand received sent. udp_wake C m (Replied rand k received sent) (l', b') = (l', b')))"
proof -
  let ?l = "l\<lparr>ul_associations := tm_expire now (ul_associations l), ul_charged := (cnt, Upload, datagram) # ul_charged l\<rparr>"
  obtain b1 where rec: "udp_receive C m env now datagram peer (l, b) =
      fst (forward env now target (hm_get (ut_policies (br_user_tables b)) uid) k rkey cnt (drop n plain) (?l, b1))"
    using receive_accepted [OF assms(1-4)] unfolding assms(6) by blast
  obtain m' where "tm_lookup m' k = Some (a, now)"
    "fst (forward env now target (hm_get (ut_policies (br_user_tables b)) uid) k rkey cnt (drop n plain) (?l, b1)) =
      (?l\<lparr>ul_associations := m', ul_sent := ul_sent l @ [(as_outbound a, dest, drop n plain)]\<rparr>, b1)"
    using forward_found [of ?l k a t env target _ dest now rkey cnt "drop n plain" b1] assms(5,7,9) by auto
  with rec assms(8) show ?thesis
    by (intro exI [of _ "?l\<lparr>ul_associations := m', ul_sent := ul_sent l @ [(as_outbound a, dest, drop n plain)]\<rparr>"] exI [of _ b1])
      (simp add: pump_reply_def)
qed

subsection \<open>A sample client\<close>

definition sample_udp_task :: udp_task where
  "sample_udp_task = \<lparr>ud_listen_host = ''0.0.0.0'', ud_user_id = 7, ud_port = 1000, ud_password = ''pw'',
     ud_profile = \<lparr>pf_method = ''chacha20-ietf'', pf_protocol = ''auth_aes128_md5'', pf_obfs = ''plain'', pf_timeout = 60\<rparr>,
     ud_enforcement = enforce_all, ud_is_multi_user = 0, ud_association_ttl = 60, ud_max_associations = 4\<rparr>"

definition sample_listener :: udp_listener where
  "sample_listener = \<lparr>ul_task = sample_udp_task, ul_cipher = Chacha20Ietf, ul_master_key = sample_key,
     ul_associations = tm_new 60 4, ul_running = True, ul_bound = 0, ul_ended = [], ul_sent = [], ul_replies = [], ul_charged = []\<rparr>"

definition sample_udp_backend :: "unit backend" where
  "sample_udp_backend = sample_backend\<lparr>br_user_tables := tables_default\<lparr>ut_counters_by_user := [(7, 0)],
     ut_policies := [(7, sample_policy)]\<rparr>\<rparr>"

definition sample_env :: udp_env where
  "sample_env = \<lparr>ue_net = sample_net, ue_bind = Inr (), ue_send = Inr ()\<rparr>"

definition sample_peer :: socket_addr where
  "sample_peer = \<lparr>sa_ip = V4 0x0A000001, sa_port = 4000\<rparr>"

definition sample_datagram :: "nat stream_cipher \<Rightarrow> bytes" where
  "sample_datagram enc = sample_civ @ wire_datagram sample_crypto enc sample_key 0 sample_payload"

definition sample_udp_trace :: "nat stream_cipher \<Rightarrow> unit udp_trace" where
  "sample_udp_trace enc = [(sample_udp_backend, Received sample_env 0 (sample_datagram enc) sample_peer)]"

lemma sample_listen: "udp_listen sample_crypto sample_udp_task = Inr sample_listener"
  by (simp add: udp_listen_def sample_udp_task_def sample_listener_def profile_cipher_kind_def from_method_def
      to_ascii_lowercase_def sample_key_def Let_def) code_simp

lemma length_sample_datagram: "length (sample_datagram enc) = 28"
  using sc.process_length [OF crypto_okD(4) [OF sample_crypto_ok], of enc]
  by (simp add: sample_datagram_def wire_datagram_def sample_civ_def sample_payload_def hmac_md5_prefix_def
      crypto_okD(2) [OF sample_crypto_ok])

lemma sample_udp_user:
  "udp_user (ul_master_key sample_listener) (hm_get (ut_auth_users (br_user_tables sample_udp_backend)))
     (ud_is_multi_user sample_udp_task) sample_civ (word_of_nat (unat (0 :: u32))) = (sample_key, None)"
  by (simp add: udp_user_def sample_listener_def sample_udp_backend_def tables_default_def sample_udp_task_def)

lemma sample_udp_counters: "conn_counters (br_user_tables sample_udp_backend) 7 7 = Some 0"
  by (simp add: conn_counters_def sample_udp_backend_def hm_get_def)

lemma sample_udp_policy: "hm_get (ut_policies (br_user_tables sample_udp_backend)) 7 = Some sample_policy"
  by (simp add: sample_udp_backend_def hm_get_def)

lemma sample_udp_target:
  "\<exists>target. parse_address sample_payload = Inr (Some (target, 7)) \<and>
     \<not> policy_blocks_port enforce_all (Some sample_policy) (port target) \<and>
     resolve_udp_dest sample_net target (Some sample_policy) enforce_all = Inr (Addr \<lparr>sa_ip = V4 0x08080808, sa_port = 80\<rparr>)"
proof -
  obtain target where t: "parse_address sample_payload = Inr (Some (target, 7))" "port target = 80"
    using sample_target by blast
  have "nt_lookup sample_net h 80 = Inr [\<lparr>sa_ip = V4 0x7F000001, sa_port = 80\<rparr>, \<lparr>sa_ip = V4 0x08080808, sa_port = 80\<rparr>]" for h
    by (simp add: sample_net_def)
  with t show ?thesis
    using sample_policy_blocks by (auto simp: resolve_udp_dest_def policy_blocks_port_def ip_check_def enforce_all_def)
qed

lemma sample_accepted:
  assumes "new_stream sample_crypto Chacha20Ietf sample_key sample_civ = Inr enc" "same_listener sample_listener l"
  shows "accepts sample_crypto l (br_user_tables sample_udp_backend) (sample_datagram enc) 7 sample_key 0 sample_payload"
proof -
  have "udp_decrypt_packet sample_crypto sample_key (hm_get (ut_auth_users (br_user_tables sample_udp_backend))) 0
      (sample_datagram enc) Chacha20Ietf = Inr (sample_payload, None)"
    unfolding sample_datagram_def
    by (rule udp_request_decodes [OF sample_crypto_ok assms(1)])
      (use sample_udp_user in \<open>simp_all add: sample_facts(1) sample_listener_def sample_udp_task_def\<close>)
  then show ?thesis using sample_udp_counters assms(2)
    by (simp add: accepts_def same_listener_def sample_listener_def sample_udp_task_def response_key_of_def)
qed

lemma sample_udp_sent:
  assumes "new_stream sample_crypto Chacha20Ietf sample_key sample_civ = Inr enc"
  shows "requests sample_crypto sample_listener (sample_udp_trace enc) = [(Addr \<lparr>sa_ip = V4 0x08080808, sa_port = 80\<rparr>, [9])]"
    "list_all (step_works \<circ> snd) (sample_udp_trace enc)"
    "\<exists>out. ul_sent (udp_run sample_crypto m (sample_udp_trace enc) sample_listener) =
      [(out, Addr \<lparr>sa_ip = V4 0x08080808, sa_port = 80\<rparr>, [9])]"
proof -
  have acc: "accepts sample_crypto sample_listener (br_user_tables sample_udp_backend) (take BUF_SIZE (sample_datagram enc)) 7
      sample_key 0 sample_payload"
    using sample_accepted [OF assms, of sample_listener] by (simp add: same_listener_def BUF_SIZE_def length_sample_datagram)
  obtain target where "parse_address sample_payload = Inr (Some (target, 7))"
     "\<not> policy_blocks_port enforce_all (Some sample_policy) (port target)"
     "resolve_udp_dest sample_net target (Some sample_policy) enforce_all = Inr (Addr \<lparr>sa_ip = V4 0x08080808, sa_port = 80\<rparr>)"
    using sample_udp_target by blast
  then have req: "request_of sample_crypto sample_listener (sample_udp_backend, Received sample_env 0 (sample_datagram enc) sample_peer) =
      Some (Addr \<lparr>sa_ip = V4 0x08080808, sa_port = 80\<rparr>, [9])"
    using request_of_accepts [OF acc, of sample_env 0 sample_peer]
    by (simp add: sample_udp_policy sample_env_def sample_listener_def sample_udp_task_def sample_payload_def)
  then show r: "requests sample_crypto sample_listener (sample_udp_trace enc) = [(Addr \<lparr>sa_ip = V4 0x08080808, sa_port = 80\<rparr>, [9])]"
    by (simp add: requests_def sample_udp_trace_def map_filter_simps)
  show w: "list_all (step_works \<circ> snd) (sample_udp_trace enc)"
    by (simp add: sample_udp_trace_def env_works_def sample_env_def)
  have "udp_inv sample_crypto sample_listener ([] :: unit udp_trace) sample_listener"
    using udp_inv_listen [OF sample_listen] by blast
  from run_sent [OF this, of m "sample_udp_trace enc"] r w
  have "map snd (ul_sent (udp_run sample_crypto m (sample_udp_trace enc) sample_listener)) = [(Addr \<lparr>sa_ip = V4 0x08080808, sa_port = 80\<rparr>, [9])]"
    by (auto simp: sample_listener_def)
  then show "\<exists>out. ul_sent (udp_run sample_crypto m (sample_udp_trace enc) sample_listener) =
      [(out, Addr \<lparr>sa_ip = V4 0x08080808, sa_port = 80\<rparr>, [9])]" by auto
qed

theorem udp_forwards_requests_witness:
  "\<exists>enc. map snd (ul_sent (udp_run sample_crypto (\<lambda>_ _. False) (sample_udp_trace enc) sample_listener)) =
     [(Addr \<lparr>sa_ip = V4 0x08080808, sa_port = 80\<rparr>, [9])]"
  using udp_forwards_requests [OF sample_listen] sample_encryptor sample_udp_sent(1,2) by metis

theorem udp_forwarding_authorised_witness:
  "\<exists>enc target plain uid rkey cnt. accepts sample_crypto sample_listener (br_user_tables sample_udp_backend)
       (take BUF_SIZE (sample_datagram enc)) uid rkey cnt plain \<and>
     permitted enforce_all (hm_get (ut_policies (br_user_tables sample_udp_backend)) uid) target
       (Addr \<lparr>sa_ip = V4 0x08080808, sa_port = 80\<rparr>)"
proof -
  obtain enc where enc: "new_stream sample_crypto Chacha20Ietf sample_key sample_civ = Inr enc" using sample_encryptor by blast
  obtain out where "(out, Addr \<lparr>sa_ip = V4 0x08080808, sa_port = 80\<rparr>, [9])
      \<in> set (ul_sent (udp_run sample_crypto (\<lambda>_ _. False) (sample_udp_trace enc) sample_listener))"
    using sample_udp_sent(3) [OF enc, of "\<lambda>_ _. False"] by auto
  from udp_forwarding_authorised [OF sample_listen this] obtain uid rkey cnt plain target where
    "accepts sample_crypto sample_listener (br_user_tables sample_udp_backend) (take BUF_SIZE (sample_datagram enc)) uid rkey cnt plain"
    "permitted enforce_all (hm_get (ut_policies (br_user_tables sample_udp_backend)) uid) target
       (Addr \<lparr>sa_ip = V4 0x08080808, sa_port = 80\<rparr>)"
    by (auto simp: sample_udp_trace_def sample_udp_task_def)
  then show ?thesis by blast
qed

theorem udp_associations_isolated_witness:
  "\<exists>enc. ul_sent (udp_run sample_crypto (\<lambda>_ _. False) (sample_udp_trace enc) sample_listener) \<noteq> [] \<and>
     tm_len (ul_associations (udp_run sample_crypto (\<lambda>_ _. False) (sample_udp_trace enc) sample_listener)) \<le> 4"
proof -
  obtain enc where enc: "new_stream sample_crypto Chacha20Ietf sample_key sample_civ = Inr enc" using sample_encryptor by blast
  have "tm_len (ul_associations (udp_run sample_crypto (\<lambda>_ _. False) (sample_udp_trace enc) sample_listener)) \<le> 4"
    using udp_associations_isolated [OF sample_listen refl, of "\<lambda>_ _. False" "sample_udp_trace enc"]
    by (simp add: sample_udp_task_def)
  then show ?thesis using sample_udp_sent(3) [OF enc, of "\<lambda>_ _. False"] by (intro exI [of _ enc]) auto
qed

theorem udp_exchange_witness:
  "\<exists>(l' :: udp_listener) (b' :: unit backend) pkt.
     ul_sent l' = [(0, Addr \<lparr>sa_ip = V4 0x08080808, sa_port = 80\<rparr>, [9])] \<and>
     ul_replies (fst (udp_wake sample_crypto (\<lambda>_ _. False) (Replied sample_rand \<lparr>ky_peer = sample_peer, ky_user_id = 7\<rparr>
       (Inr ([5, 6], \<lparr>sa_ip = V4 0x08080808, sa_port = 80\<rparr>)) (Inr ())) (l', b'))) = [(sample_peer, pkt)]"
proof -
  let ?m = "\<lambda>(_ :: unit) _. False" and ?l = "udp_run sample_crypto (\<lambda>(_ :: unit) _. False) [] sample_listener"
  obtain enc where enc: "new_stream sample_crypto Chacha20Ietf sample_key sample_civ = Inr enc" using sample_encryptor by blast
  have key: "length sample_key = key_len Chacha20Ietf" using sample_crypto_ok by (simp add: sample_key_def)
  obtain c' where c': "new_stream sample_crypto Chacha20Ietf sample_key (replicate 12 3) = Inr c'"
    using new_stream_total [OF sample_crypto_ok key, of "replicate 12 3"] by auto
  obtain target where t: "parse_address sample_payload = Inr (Some (target, 7))"
     "\<not> policy_blocks_port enforce_all (Some sample_policy) (port target)"
     "resolve_udp_dest sample_net target (Some sample_policy) enforce_all = Inr (Addr \<lparr>sa_ip = V4 0x08080808, sa_port = 80\<rparr>)"
    using sample_udp_target by blast
  have f: "ul_cipher sample_listener = Chacha20Ietf" "ul_master_key sample_listener = sample_key"
    "ud_enforcement sample_udp_task = enforce_all" "ue_net sample_env = sample_net" "ud_user_id sample_udp_task = 7"
    by (simp_all add: sample_listener_def sample_udp_task_def sample_env_def)
  have g: "ul_running ?l" "env_works sample_env" "sample_rand (iv_len (ul_cipher sample_listener)) = Some (replicate 12 3)"
    "7 = unwrap_or None (ud_user_id sample_udp_task)"
    "length (sample_datagram enc) \<le> BUF_SIZE" "length [5 :: byte, 6] \<le> BUF_SIZE"
    "(None :: u64 option) \<noteq> None \<or> ud_is_multi_user sample_udp_task = 0"
    "tm_lookup (tm_expire 0 (ul_associations ?l)) \<lparr>ky_peer = sample_peer, ky_user_id = 7\<rparr> = None"
    by (simp_all add: sample_listener_def sample_udp_task_def sample_env_def env_works_def sample_rand_def
        length_sample_datagram BUF_SIZE_def tm_lookup_expire [OF tm_ok_new])
  have h: "length sample_civ = iv_len (ul_cipher sample_listener)"
    "new_stream sample_crypto (ul_cipher sample_listener) (ul_master_key sample_listener) sample_civ = Inr enc"
    "new_stream sample_crypto (ul_cipher sample_listener) (ul_master_key sample_listener) (replicate 12 3) = Inr c'"
    "conn_counters (br_user_tables sample_udp_backend) 7 (ud_user_id sample_udp_task) = Some 0"
    "\<not> policy_blocks_port (ud_enforcement sample_udp_task) (Some sample_policy) (port target)"
    "resolve_udp_dest (ue_net sample_env) target (Some sample_policy) (ud_enforcement sample_udp_task) =
       Inr (Addr \<lparr>sa_ip = V4 0x08080808, sa_port = 80\<rparr>)"
    using sample_facts(1) enc c' sample_udp_counters t unfolding f by blast+
  note ex = udp_exchange [where m = ?m and peer = sample_peer and rand = sample_rand and
      origin = "\<lparr>sa_ip = V4 0x08080808, sa_port = 80\<rparr>", OF sample_crypto_ok sample_listen refl g(1) h(1,2) sample_udp_user g(7,4)
      h(4) sample_datagram_def g(5) t(1) sample_udp_policy [symmetric] h(5,6) refl g(8,2) h(3) g(3,6) refl]
  from ex show ?thesis
  proof (elim exE conjE, goal_cases)
    case (1 l' b' cipher)
    then show ?case
      by (intro exI [of _ l'] exI [of _ b'] exI [of _ "replicate 12 3 @ cipher"])
        (simp del: udp_wake.simps add: sample_listener_def sample_payload_def)
  qed
qed


theorem udp_association_never_renewed_witness:
  "\<exists>(l' :: udp_listener) (b' :: unit backend). ul_sent l' = [(0, Addr \<lparr>sa_ip = V4 0x08080808, sa_port = 80\<rparr>, [9])] \<and>
     udp_wake sample_crypto (\<lambda>_ _. False) (Replied sample_rand \<lparr>ky_peer = sample_peer, ky_user_id = 7\<rparr>
       (Inr ([5, 6], \<lparr>sa_ip = V4 0x08080808, sa_port = 80\<rparr>)) (Inr ())) (l', b') = (l', b')"
proof -
  let ?k = "\<lparr>ky_peer = sample_peer, ky_user_id = 7\<rparr>"
  let ?a = "\<lparr>as_outbound = 0, as_response_key = sample_key, as_counters = 0, as_peer = sample_peer\<rparr>"
  let ?l = "sample_listener\<lparr>ul_associations := tm_insert 0 ?k ?a (tm_new 60 4), ul_bound := 1, ul_ended := [0]\<rparr>"
  obtain enc where enc: "new_stream sample_crypto Chacha20Ietf sample_key sample_civ = Inr enc" using sample_encryptor by blast
  obtain target where t: "parse_address sample_payload = Inr (Some (target, 7))"
     "\<not> policy_blocks_port enforce_all (Some sample_policy) (port target)"
     "resolve_udp_dest sample_net target (Some sample_policy) enforce_all = Inr (Addr \<lparr>sa_ip = V4 0x08080808, sa_port = 80\<rparr>)"
    using sample_udp_target by blast
  have f: "ud_enforcement (ul_task ?l) = enforce_all" "ue_net sample_env = sample_net"
    by (simp_all add: sample_listener_def sample_udp_task_def sample_env_def)
  have acc: "accepts sample_crypto ?l (br_user_tables sample_udp_backend) (sample_datagram enc) 7 sample_key 0 sample_payload"
    by (rule sample_accepted [OF enc]) (simp add: same_listener_def)
  have g: "length (sample_datagram enc) \<le> BUF_SIZE" "ul_running ?l" "ue_send sample_env = Inr ()"
    by (simp_all add: length_sample_datagram BUF_SIZE_def sample_listener_def sample_env_def)
  have "tm_lookup (tm_insert 0 ?k ?a (tm_new 60 4)) ?k = Some (?a, 0)" by (rule tm.look_ins [OF tm_ok_new])
  then have look: "tm_lookup (tm_expire 0 (ul_associations ?l)) ?k = Some (?a, 0)"
    by (simp add: tm_lookup_expire tm_ok_insert tm_ok_new) (simp add: tm_new_def)
  have p: "\<not> policy_blocks_port (ud_enforcement (ul_task ?l)) (hm_get (ut_policies (br_user_tables sample_udp_backend)) 7) (port target)"
    "resolve_udp_dest (ue_net sample_env) target (hm_get (ut_policies (br_user_tables sample_udp_backend)) 7) (ud_enforcement (ul_task ?l)) =
       Inr (Addr \<lparr>sa_ip = V4 0x08080808, sa_port = 80\<rparr>)"
    using t(2,3) unfolding f sample_udp_policy by blast+
  show ?thesis
    using udp_association_never_renewed [OF acc g(1) t(1) p refl look g(2,3), of "\<lambda>_ _. False"]
    by (fastforce simp: sample_payload_def sample_listener_def)
qed

end
