(* ===== verification/Tcp_Listener.thy ===== *)
theory Tcp_Listener
  imports Tcp
begin

text \<open>
  \<^verbatim>\<open>src/src/tcp.rs\<close>: the accept loop \<open>run_listener\<close>. The semaphore is its number of free
  permits. Spawned connection tasks stay in \<open>ls_conns\<close> in the order they were accepted, also
  after they returned; a task returns its permit when it does, and it outlives the loop.
\<close>

record 'cc tcp_listener =
  ls_task :: tcp_task
  ls_cipher :: cipher_kind
  ls_permits :: nat
  ls_running :: bool
  ls_conns :: "'cc tcp_conn list"

text \<open>\<open>run_listener\<close> up to its loop; \<open>Inl Panic\<close> where \<open>cipher_kind\<close> would panic.\<close>

definition tcp_listen :: "tcp_task \<Rightarrow> 'cc tcp_listener result" where
  "tcp_listen t =
     (case profile_cipher_kind (tt_profile t) of
        Inl e \<Rightarrow> Inl e
      | Inr k \<Rightarrow> Inr \<lparr>ls_task = t, ls_cipher = k, ls_permits = tt_max_accepts t, ls_running = True, ls_conns = []\<rparr>)"

definition accept_context :: "tcp_task \<Rightarrow> cipher_kind \<Rightarrow> user_tables \<Rightarrow> socket_addr \<Rightarrow> stream_context" where
  "accept_context t k tables peer =
     \<lparr>cx_password = tt_password t, cx_fallback_user_id = tt_user_id t, cx_tables = tables,
      cx_enforcement = tt_enforcement t, cx_is_multi_user = tt_is_multi_user t, cx_cipher_kind = k,
      cx_peer_ip = show_ip (sa_ip peer), cx_peer = show_socket_addr peer, cx_idle_timeout = pf_timeout (tt_profile t)\<rparr>"

text \<open>A connection was accepted: without a permit it is dropped; a task whose session cannot be set
  up returns at once.\<close>

definition tcp_accept ::
  "'cc crypto \<Rightarrow> (nat \<Rightarrow> bytes option) \<Rightarrow> socket_addr \<Rightarrow> user_tables \<Rightarrow> 'cc tcp_listener \<Rightarrow> 'cc tcp_listener" where
  "tcp_accept C rand peer tables l =
     (if ls_permits l = 0 then l
      else case tcp_open C rand (accept_context (ls_task l) (ls_cipher l) tables peer) of
             Inl _ \<Rightarrow> l
           | Inr c \<Rightarrow> l\<lparr>ls_permits := ls_permits l - 1, ls_conns := ls_conns l @ [c]\<rparr>)"

definition is_open :: "'cc tcp_conn \<Rightarrow> bool" where
  "is_open c \<longleftrightarrow> (case tc_phase c of Closed _ \<Rightarrow> False | _ \<Rightarrow> True)"

definition wake_conn ::
  "'cc crypto \<Rightarrow> ('re \<Rightarrow> bytes \<Rightarrow> bool) \<Rightarrow> nat \<Rightarrow> wake \<Rightarrow> 'cc tcp_listener \<times> 're backend \<Rightarrow> 'cc tcp_listener \<times> 're backend" where
  "wake_conn C m i e = (\<lambda>(l, b).
     if i < length (ls_conns l) then
       let c = ls_conns l ! i;
           (c', b) = tcp_wake C m e (c, b);
           freed = (if is_open c \<and> \<not> is_open c' then 1 else 0)
       in (l\<lparr>ls_conns := (ls_conns l)[i := c'], ls_permits := ls_permits l + freed\<rparr>, b)
     else (l, b))"

datatype listener_event =
    Accepted "nat \<Rightarrow> bytes option" socket_addr
  | AcceptFailed string
  | StopListening
  | OnConn nat wake

fun listener_wake ::
  "'cc crypto \<Rightarrow> ('re \<Rightarrow> bytes \<Rightarrow> bool) \<Rightarrow> listener_event \<Rightarrow> 'cc tcp_listener \<times> 're backend \<Rightarrow> 'cc tcp_listener \<times> 're backend" where
  "listener_wake C m (Accepted rand peer) (l, b) =
     (if ls_running l then tcp_accept C rand peer (br_user_tables b) l else l, b)"
| "listener_wake C m (AcceptFailed _) (l, b) = (l\<lparr>ls_running := False\<rparr>, b)"
| "listener_wake C m StopListening (l, b) = (l\<lparr>ls_running := False\<rparr>, b)"
| "listener_wake C m (OnConn i e) (l, b) = wake_conn C m i e (l, b)"

subsection \<open>Permits\<close>

definition open_conns :: "'cc tcp_listener \<Rightarrow> nat" where
  "open_conns l = length (filter is_open (ls_conns l))"

definition permits_ok :: "'cc tcp_listener \<Rightarrow> bool" where
  "permits_ok l \<longleftrightarrow> ls_permits l + open_conns l = tt_max_accepts (ls_task l)"

lemma closed_stays_closed: "\<not> is_open c \<Longrightarrow> tcp_wake C m e (c, b) = (c, b)"
  by (cases "tc_phase c") (auto simp: is_open_def tcp_wake_def)

lemma sum_list_map_update:
  fixes f :: "'a \<Rightarrow> nat"
  assumes "i < length xs"
  shows "sum_list (map f (xs[i := y])) + f (xs ! i) = sum_list (map f xs) + f y"
proof -
  have "xs = take i xs @ xs ! i # drop (Suc i) xs" using assms by (simp add: id_take_nth_drop)
  then have "sum_list (map f xs) = sum_list (map f (take i xs)) + f (xs ! i) + sum_list (map f (drop (Suc i) xs))"
    by (metis add.assoc list.simps(9) map_append sum_list.Cons sum_list.append)
  then show ?thesis using assms by (simp add: upd_conv_take_nth_drop)
qed

lemma length_filter_update:
  assumes "i < length xs"
  shows "length (filter P (xs[i := y])) + (if P (xs ! i) then 1 else 0) = length (filter P xs) + (if P y then 1 else 0)"
proof -
  have "length (filter P zs) = sum_list (map (\<lambda>x. if P x then 1 else 0) zs)" for zs by (induction zs) auto
  then show ?thesis using sum_list_map_update [OF assms, of "\<lambda>x. if P x then 1 else 0" y] by simp
qed

lemma wake_conn_eq:
  assumes "i < length (ls_conns l)"
  obtains c' b' where "tcp_wake C m e (ls_conns l ! i, b) = (c', b')"
    "wake_conn C m i e (l, b) = (l\<lparr>ls_conns := (ls_conns l)[i := c'],
       ls_permits := ls_permits l + (if is_open (ls_conns l ! i) \<and> \<not> is_open c' then 1 else 0)\<rparr>, b')"
proof -
  obtain c' b' where "tcp_wake C m e (ls_conns l ! i, b) = (c', b')" by fastforce
  with assms show ?thesis by (intro that) (auto simp: wake_conn_def Let_def)
qed

lemma permits_ok_wake:
  assumes ok: "permits_ok l"
  shows "permits_ok (fst (listener_wake C m e (l, b)))"
proof (cases e)
  case (Accepted rand peer)
  then show ?thesis using ok
    by (auto simp: permits_ok_def open_conns_def tcp_accept_def tcp_open_def is_open_def split: sum.splits)
next
  case (OnConn i w)
  show ?thesis
  proof (cases "i < length (ls_conns l)")
    case True
    then obtain c' b' where w: "tcp_wake C m w (ls_conns l ! i, b) = (c', b')"
      and eq: "wake_conn C m i w (l, b) = (l\<lparr>ls_conns := (ls_conns l)[i := c'],
         ls_permits := ls_permits l + (if is_open (ls_conns l ! i) \<and> \<not> is_open c' then 1 else 0)\<rparr>, b')"
      by (rule wake_conn_eq)
    have "\<not> is_open (ls_conns l ! i) \<Longrightarrow> c' = ls_conns l ! i"
      using closed_stays_closed [of "ls_conns l ! i" C m w b] w by simp
    then show ?thesis
      using ok OnConn eq length_filter_update [OF True, of is_open c'] by (auto simp: permits_ok_def open_conns_def split: if_splits)
  next
    case False
    then show ?thesis using ok OnConn by (simp add: wake_conn_def)
  qed
qed (use ok in \<open>simp_all add: permits_ok_def open_conns_def\<close>)

lemma permits_ok_listen: "tcp_listen t = Inr l \<Longrightarrow> permits_ok l \<and> ls_task l = t"
  by (auto simp: tcp_listen_def permits_ok_def open_conns_def split: sum.splits)

lemma ls_task_wake: "ls_task (fst (listener_wake C m e (l, b))) = ls_task l"
  by (cases e) (auto simp: tcp_accept_def wake_conn_def Let_def split: sum.split prod.split)

end
