(* ===== verification/Tcp_Accounting.thy ===== *)
theory Tcp_Accounting
  imports Tcp_Listener Supervisor_Props
begin

text \<open>
  What one wake of a connection does to the shared state: which bytes it adds to which counter,
  and which device slot it takes or gives back.
\<close>

subsection \<open>Objects in the tables\<close>

text \<open>Every object a table names exists.\<close>

definition tables_ok :: "'re backend \<Rightarrow> user_tables \<Rightarrow> bool" where
  "tables_ok b t \<longleftrightarrow>
     (\<forall>u p. hm_get (ut_counters_by_user t) u = Some p \<longrightarrow> p < length (tl_arcs (br_traffic b))) \<and>
     (\<forall>u p. hm_get (ut_conns_by_user t) u = Some p \<longrightarrow> p < length (cl_arcs (br_conns b))) \<and>
     (\<forall>u p. hm_get (ut_speeds_by_user t) u = Some p \<longrightarrow> p < length (sl_arcs (br_speeds b)))"

text \<open>Objects are never taken away.\<close>

definition grows :: "'re backend \<Rightarrow> 're backend \<Rightarrow> bool" where
  "grows b b' \<longleftrightarrow>
     length (tl_arcs (br_traffic b)) \<le> length (tl_arcs (br_traffic b')) \<and>
     length (cl_arcs (br_conns b)) \<le> length (cl_arcs (br_conns b')) \<and>
     length (sl_arcs (br_speeds b)) \<le> length (sl_arcs (br_speeds b'))"

lemma grows_refl [simp]: "grows b b"
  by (simp add: grows_def)

lemma tables_ok_grows: "grows b b' \<Longrightarrow> tables_ok b t \<Longrightarrow> tables_ok b' t"
  unfolding grows_def tables_ok_def by (meson less_le_trans)

subsection \<open>Charging\<close>

text \<open>The ledger went from \<open>s\<close> to \<open>s'\<close> while the bytes to be charged went from \<open>f\<close> to \<open>g\<close>: nothing
  happened, or one counter was increased by as much as its bytes grew.\<close>

definition charges ::
  "traffic_ledger \<Rightarrow> traffic_ledger \<Rightarrow> (direction \<Rightarrow> nat \<Rightarrow> nat) \<Rightarrow> (direction \<Rightarrow> nat \<Rightarrow> nat) \<Rightarrow> bool" where
  "charges s s' f g \<longleftrightarrow>
     s' = s \<and> g = f \<or>
     (\<exists>dir p w n. p < length (tl_arcs s) \<and> s' = count_bytes dir p w s \<and> (n < 2 ^ 64 \<longrightarrow> unat w = n) \<and>
        g = (\<lambda>d q. f d q + (if d = dir \<and> q = p then n else 0)))"

lemma charges_refl [simp]: "charges s s f f"
  by (simp add: charges_def)

lemma charges_count:
  "p < length (tl_arcs s) \<Longrightarrow> (n < 2 ^ 64 \<longrightarrow> unat w = n) \<Longrightarrow>
   (\<And>d q. g d q = f d q + (if d = dir \<and> q = p then n else 0)) \<Longrightarrow> charges s (count_bytes dir p w s) f g"
  unfolding charges_def by blast

lemma charges_ok: "charges s s' f g \<Longrightarrow> traffic_ok s \<Longrightarrow> traffic_ok s'"
  by (auto simp: charges_def traffic_ok_count)

lemma charges_arcs: "charges s s' f g \<Longrightarrow> length (tl_arcs s') = length (tl_arcs s)"
  by (auto simp: charges_def count_bytes_def)

text \<open>The bytes of a connection to be charged: once it belongs to a user, all bytes read from the
  client and all bytes encrypted for it.\<close>

definition conn_bytes :: "'cc tcp_conn \<Rightarrow> direction \<Rightarrow> nat \<Rightarrow> nat" where
  "conn_bytes c dir p =
     (if tc_counters c = Some p then (case dir of Upload \<Rightarrow> length (tc_client_read c) | Download \<Rightarrow> length (tc_replies c)) else 0)"

lemma conn_bytes_cong:
  "tc_counters c' = tc_counters c \<Longrightarrow> tc_client_read c' = tc_client_read c \<Longrightarrow> tc_replies c' = tc_replies c \<Longrightarrow>
   conn_bytes c' = conn_bytes c"
  by (simp add: conn_bytes_def fun_eq_iff split: direction.split)

definition conn_guards :: "'cc tcp_conn \<Rightarrow> conn_guard list" where
  "conn_guards c = (case tc_guard c of None \<Rightarrow> [] | Some g \<Rightarrow> [g])"

definition conn_wf :: "'re backend \<Rightarrow> 'cc tcp_conn \<Rightarrow> bool" where
  "conn_wf b c \<longleftrightarrow>
     tables_ok b (cx_tables (tc_ctx c)) \<and>
     (\<forall>p. tc_counters c = Some p \<longrightarrow> p < length (tl_arcs (br_traffic b))) \<and>
     (\<forall>p. tc_limiter c = Some p \<longrightarrow> p < length (sl_arcs (br_speeds b))) \<and>
     (case tc_phase c of
        Handshake app pre \<Rightarrow> tc_counters c = None \<and> tc_guard c = None \<and> tc_replies c = [] \<and>
          (length (tc_client_read c) < 2 ^ 64 \<longrightarrow> unat pre = length (tc_client_read c))
      | Closed _ \<Rightarrow> tc_guard c = None
      | _ \<Rightarrow> tc_counters c \<noteq> None)"

lemma conn_wf_grows: "grows b b' \<Longrightarrow> conn_wf b c \<Longrightarrow> conn_wf b' c"
  unfolding conn_wf_def using tables_ok_grows [of b b'] by (fastforce simp: grows_def split: phase.splits intro: less_le_trans)

text \<open>What a wake does to the rest of the shared state.\<close>

definition keeps :: "'re backend \<Rightarrow> 're backend \<Rightarrow> bool" where
  "keeps b b' \<longleftrightarrow>
     length (cl_arcs (br_conns b')) = length (cl_arcs (br_conns b)) \<and> cl_state (br_conns b') = cl_state (br_conns b) \<and>
     length (sl_arcs (br_speeds b')) = length (sl_arcs (br_speeds b)) \<and> sl_state (br_speeds b') = sl_state (br_speeds b) \<and>
     br_user_tables b' = br_user_tables b \<and> br_config b' = br_config b \<and> br_log b' = br_log b \<and>
     br_active_users b' = br_active_users b"

definition slots :: "'cc tcp_conn \<times> 're backend \<Rightarrow> 'cc tcp_conn \<times> 're backend \<Rightarrow> bool" where
  "slots = (\<lambda>(c, b) (c', b').
     \<forall>gs. conn_inv \<lparr>cw_ledger = br_conns b, cw_guards = conn_guards c @ gs\<rparr> \<longrightarrow>
       conn_inv \<lparr>cw_ledger = br_conns b', cw_guards = conn_guards c' @ gs\<rparr>)"

definition effect :: "'cc tcp_conn \<times> 're backend \<Rightarrow> 'cc tcp_conn \<times> 're backend \<Rightarrow> bool" where
  "effect = (\<lambda>(c, b) (c', b').
     charges (br_traffic b) (br_traffic b') (conn_bytes c) (conn_bytes c') \<and> slots (c, b) (c', b') \<and> keeps b b' \<and> conn_wf b' c')"

subsection \<open>Closing\<close>

lemma close_fields [simp]:
  "br_traffic (snd (tcp_close r (c, b))) = br_traffic b" "br_speeds (snd (tcp_close r (c, b))) = br_speeds b"
  "tc_ctx (fst (tcp_close r (c, b))) = tc_ctx c" "tc_counters (fst (tcp_close r (c, b))) = tc_counters c"
  "tc_limiter (fst (tcp_close r (c, b))) = tc_limiter c" "tc_guard (fst (tcp_close r (c, b))) = None"
  "conn_bytes (fst (tcp_close r (c, b))) = conn_bytes c"
  by (auto simp: tcp_close_def intro: conn_bytes_cong split: option.split)

lemma close_keeps: "keeps b (snd (tcp_close r (c, b)))"
  by (auto simp: keeps_def tcp_close_def guard_drop_def split: option.split)

lemma keeps_refl [simp]: "keeps b b"
  by (simp add: keeps_def)

lemma keeps_trans: "keeps a b \<Longrightarrow> keeps b c \<Longrightarrow> keeps a c"
  by (simp add: keeps_def)

lemma close_slots:
  assumes "conn_inv \<lparr>cw_ledger = br_conns b, cw_guards = conn_guards c @ gs\<rparr>"
  shows "conn_inv \<lparr>cw_ledger = br_conns (snd (tcp_close r (c, b))), cw_guards = gs\<rparr>"
proof (cases "tc_guard c")
  case (Some g)
  then show ?thesis
    using conn_step_inv [OF conn_step.close [of "\<lparr>cw_ledger = br_conns b, cw_guards = g # gs\<rparr>" "[]" g gs "\<lambda>_ _. True"]] assms
    by (simp add: conn_guards_def tcp_close_def)
qed (use assms in \<open>simp add: conn_guards_def tcp_close_def\<close>)

lemma effect_close:
  assumes "charges (br_traffic b0) (br_traffic b) (conn_bytes c0) (conn_bytes c)" "slots (c0, b0) (c, b)" "keeps b0 b"
    and "tables_ok b (cx_tables (tc_ctx c))" "\<forall>p. tc_counters c = Some p \<longrightarrow> p < length (tl_arcs (br_traffic b))"
    "\<forall>p. tc_limiter c = Some p \<longrightarrow> p < length (sl_arcs (br_speeds b))"
  shows "effect (c0, b0) (tcp_close r (c, b))"
proof -
  obtain c' b' where cl: "tcp_close r (c, b) = (c', b')" by fastforce
  have "grows b b'" using close_keeps [of b r c] close_fields(1) [of r c b] by (simp add: cl keeps_def grows_def)
  moreover have "c' = c\<lparr>tc_phase := Closed r, tc_guard := None\<rparr>" using cl by (simp add: tcp_close_def)
  ultimately have "conn_wf b' c'"
    using assms(4-6) tables_ok_grows [of b b'] by (auto simp: conn_wf_def grows_def intro: less_le_trans)
  moreover have "slots (c0, b0) (c', b')"
    using assms(2) close_slots [of b c _ r] close_fields(6) [of r c b] by (simp add: slots_def cl conn_guards_def [of c'])
  ultimately show ?thesis
    using assms(1) keeps_trans [OF assms(3) close_keeps [of b r c]] close_fields [of r c b] by (simp add: effect_def cl)
qed

subsection \<open>The operations\<close>

lemma acquire_slot_facts:
  assumes "acquire_slot cx uid policy l = (l', slot)"
    and t: "\<forall>u p. hm_get (ut_conns_by_user (cx_tables cx)) u = Some p \<longrightarrow> p < length (cl_arcs l)"
  shows "length (cl_arcs l') = length (cl_arcs l)" "cl_state l' = cl_state l"
    "conn_inv \<lparr>cw_ledger = l, cw_guards = gs\<rparr> \<Longrightarrow>
       conn_inv \<lparr>cw_ledger = l', cw_guards = (case slot of Inr (Admitted (Some g)) \<Rightarrow> [g] | _ \<Rightarrow> []) @ gs\<rparr>"
proof -
  show "length (cl_arcs l') = length (cl_arcs l)" "cl_state l' = cl_state l"
    using assms(1) by (auto simp: acquire_slot_def guard_acquire_def split: option.splits if_splits)
  assume inv: "conn_inv \<lparr>cw_ledger = l, cw_guards = gs\<rparr>"
  show "conn_inv \<lparr>cw_ledger = l', cw_guards = (case slot of Inr (Admitted (Some g)) \<Rightarrow> [g] | _ \<Rightarrow> []) @ gs\<rparr>"
  proof (cases "\<exists>g. slot = Inr (Admitted (Some g))")
    case True
    then obtain g limit ips where g: "slot = Inr (Admitted (Some g))" "hm_get (ut_conns_by_user (cx_tables cx)) uid = Some ips"
      "guard_acquire ips (cx_peer_ip cx) limit l = (l', Some g)"
      using assms(1) by (auto simp: acquire_slot_def split: option.splits if_splits prod.splits)
    have "ips < length (cl_arcs (cw_ledger \<lparr>cw_ledger = l, cw_guards = gs\<rparr>))" using t g(2) by simp
    from conn_step_inv [OF conn_step.admit [OF this TrueI] inv] g(3) show ?thesis by (simp add: g(1))
  next
    case False
    then show ?thesis using assms(1) inv
      by (auto simp: acquire_slot_def guard_acquire_def split: option.splits if_splits prod.splits sum.splits admission.splits)
  qed
qed

text \<open>What \<open>tcp_admit\<close> does for a user with a counter.\<close>

lemma tcp_admit_eq:
  fixes c :: "'cc tcp_conn" and b :: "'re backend"
  defines "cx \<equiv> tc_ctx c" and "uid \<equiv> conn_user c"
  assumes "conn_counters (cx_tables cx) uid (cx_fallback_user_id cx) = Some p"
    "acquire_slot cx uid (hm_get (ut_policies (cx_tables cx)) uid) (br_conns b) = (conns, slot)"
    and c1: "c1 = c\<lparr>tc_user_id := uid, tc_counters := Some p,
      tc_limiter := (if ec_speed (cx_enforcement cx) then hm_get (ut_speeds_by_user (cx_tables cx)) uid else None)\<rparr>"
    and b1: "b1 = b\<lparr>br_traffic := count_bytes Upload p pre (br_traffic b), br_conns := conns\<rparr>"
  shows "tcp_admit m target initial pre (c, b) =
    (case slot of
       Inl e \<Rightarrow> tcp_close (Inl e) (c1, b1)
     | Inr Refused \<Rightarrow> tcp_close (Inr ()) (c1, b1)
     | Inr (Admitted guard) \<Rightarrow>
         let q = auditor_scan m (br_detect_rules b) initial (auditor_new uid (cx_peer_ip cx) (cx_peer cx))
               (auditor_report_connect (auditor_new uid (cx_peer_ip cx) (cx_peer cx)) (br_events b));
             b' = b1\<lparr>br_events := snd (snd q)\<rparr>; c' = c1\<lparr>tc_guard := guard\<rparr>
         in if fst q \<and> ec_audit_block (cx_enforcement cx) then tcp_close (Inl InitialMatched) (c', b')
            else (c'\<lparr>tc_phase := Connecting target initial\<rparr>, b'))"
  using assms by (auto simp: tcp_admit_def Let_def case_prod_beta split: sum.split admission.split)

text \<open>The connection and the shared state it leaves, up to the fields that do not matter here.\<close>

definition admitted ::
  "'cc tcp_conn \<Rightarrow> 're backend \<Rightarrow> nat \<Rightarrow> u64 \<Rightarrow> conn_ledger \<Rightarrow> conn_guard option \<Rightarrow> 'cc tcp_conn \<Rightarrow> 're backend \<Rightarrow> bool" where
  "admitted c b p pre conns guard c' b' \<longleftrightarrow>
     tc_guard c' = guard \<and> tc_counters c' = Some p \<and> tc_client_read c' = tc_client_read c \<and> tc_replies c' = [] \<and>
     tc_ctx c' = tc_ctx c \<and>
     tc_limiter c' = (if ec_speed (cx_enforcement (tc_ctx c)) then hm_get (ut_speeds_by_user (cx_tables (tc_ctx c))) (conn_user c) else None) \<and>
     br_conns b' = conns \<and> br_speeds b' = br_speeds b \<and> br_user_tables b' = br_user_tables b \<and> br_config b' = br_config b \<and>
     br_log b' = br_log b \<and> br_active_users b' = br_active_users b \<and> br_traffic b' = count_bytes Upload p pre (br_traffic b)"

lemma admitted_facts:
  fixes c c0 c' :: "'cc tcp_conn" and b b' :: "'re backend"
  assumes t: "tables_ok b (cx_tables (tc_ctx c))" and p: "p < length (tl_arcs (br_traffic b))"
    and pre: "length (tc_client_read c) < 2 ^ 64 \<longrightarrow> unat pre = length (tc_client_read c)"
    and c0: "conn_bytes c0 = (\<lambda>_ _. 0)" "tc_guard c0 = None"
    and sl: "acquire_slot (tc_ctx c) uid policy (br_conns b) = (conns, slot)"
    and ad: "admitted c b p pre conns (case slot of Inr (Admitted g) \<Rightarrow> g | _ \<Rightarrow> None) c' b'"
  shows "charges (br_traffic b) (br_traffic b') (conn_bytes c0) (conn_bytes c')" "slots (c0, b) (c', b')" "keeps b b'"
    "tables_ok b' (cx_tables (tc_ctx c'))" "\<forall>q. tc_counters c' = Some q \<longrightarrow> q < length (tl_arcs (br_traffic b'))"
    "\<forall>q. tc_limiter c' = Some q \<longrightarrow> q < length (sl_arcs (br_speeds b'))"
proof -
  note ad = ad [unfolded admitted_def]
  have "\<forall>u q. hm_get (ut_conns_by_user (cx_tables (tc_ctx c))) u = Some q \<longrightarrow> q < length (cl_arcs (br_conns b))"
    using t by (simp add: tables_ok_def)
  note sf = acquire_slot_facts [OF sl this]
  have "charges (br_traffic b) (count_bytes Upload p pre (br_traffic b)) (conn_bytes c0) (conn_bytes c')"
    by (rule charges_count [OF p pre]) (use ad in \<open>simp add: conn_bytes_def c0(1) split: direction.split\<close>)
  then show "charges (br_traffic b) (br_traffic b') (conn_bytes c0) (conn_bytes c')" using ad by simp
  show "slots (c0, b) (c', b')"
    using sf(3) ad by (auto simp: slots_def conn_guards_def c0(2) split: sum.splits admission.splits option.splits)
  show "keeps b b'" using sf(1,2) ad by (simp add: keeps_def)
  have "grows b b'" using ad sf(1) by (simp add: grows_def count_bytes_def)
  then show "tables_ok b' (cx_tables (tc_ctx c'))" using tables_ok_grows [OF _ t] ad by simp
  show "\<forall>q. tc_counters c' = Some q \<longrightarrow> q < length (tl_arcs (br_traffic b'))" using ad p by (simp add: count_bytes_def)
  show "\<forall>q. tc_limiter c' = Some q \<longrightarrow> q < length (sl_arcs (br_speeds b'))" using ad t by (auto simp: tables_ok_def)
qed

lemma admit_effect:
  fixes c c0 :: "'cc tcp_conn" and b :: "'re backend"
  assumes wf: "tables_ok b (cx_tables (tc_ctx c))" "tc_counters c = None" "tc_guard c = None" "tc_replies c = []"
    "\<forall>p. tc_limiter c = Some p \<longrightarrow> p < length (sl_arcs (br_speeds b))"
    and pre: "length (tc_client_read c) < 2 ^ 64 \<longrightarrow> unat pre = length (tc_client_read c)"
    and c0: "conn_bytes c0 = (\<lambda>_ _. 0)" "tc_guard c0 = None"
  shows "effect (c0, b) (tcp_admit m target initial pre (c, b))"
proof (cases "conn_counters (cx_tables (tc_ctx c)) (conn_user c) (cx_fallback_user_id (tc_ctx c))")
  case None
  have "slots (c0, b) (c, b)" by (simp add: slots_def conn_guards_def wf(3) c0(2))
  moreover have "conn_bytes c = conn_bytes c0" by (simp add: c0(1)) (simp add: conn_bytes_def fun_eq_iff wf(2))
  ultimately show ?thesis using wf None by (auto simp: tcp_admit_def keeps_def intro!: effect_close)
next
  case (Some p)
  obtain conns slot where sl: "acquire_slot (tc_ctx c) (conn_user c) (hm_get (ut_policies (cx_tables (tc_ctx c))) (conn_user c))
      (br_conns b) = (conns, slot)" by fastforce
  have p: "p < length (tl_arcs (br_traffic b))"
    using wf(1) Some by (auto simp: tables_ok_def conn_counters_def split: option.splits)
  note af = admitted_facts [OF wf(1) p pre c0 sl]
  let ?g = "case slot of Inr (Admitted g) \<Rightarrow> g | _ \<Rightarrow> None"
  have close: "effect (c0, b) (tcp_close r (c', b'))" if "admitted c b p pre conns ?g c' b'" for r c' and b' :: "'re backend"
    by (rule effect_close) (rule af [OF that])+
  have go: "effect (c0, b) (c', b')"
    if "admitted c b p pre conns ?g c' b'" "tc_phase c' = Connecting target initial" for c' and b' :: "'re backend"
    using af [OF that(1)] that by (simp add: effect_def conn_wf_def admitted_def)
  show ?thesis
    unfolding tcp_admit_eq [OF Some sl refl refl]
    by (cases slot; auto simp: Let_def split: admission.split intro!: close go; simp add: admitted_def wf)
qed

lemma saturating_add_exact: "unat a = n \<Longrightarrow> n + k < 2 ^ 64 \<Longrightarrow> unat (saturating_add a (word_of_nat k)) = n + k"
  by (simp add: saturating_add_def unat_of_nat unat_word_ariths)

lemma handshake_effect:
  fixes c :: "'cc tcp_conn" and b :: "'re backend"
  assumes wf: "conn_wf b c" and ph: "tc_phase c = Handshake app pre"
  shows "effect (c, b) (tcp_handshake C m app pre chunk (c, b))"
proof -
  have w: "tables_ok b (cx_tables (tc_ctx c))" "tc_counters c = None" "tc_guard c = None" "tc_replies c = []"
    "\<forall>p. tc_limiter c = Some p \<longrightarrow> p < length (sl_arcs (br_speeds b))"
    "length (tc_client_read c) < 2 ^ 64 \<longrightarrow> unat pre = length (tc_client_read c)"
    using wf ph by (auto simp: conn_wf_def)
  define s' where "s' = fst (session_decrypt C (tc_session c) chunk)"
  define pre' where "pre' = saturating_add pre (word_of_nat (length chunk))"
  let ?c = "c\<lparr>tc_session := s', tc_client_read := tc_client_read c @ chunk\<rparr>"
  have zero: "conn_bytes c' = (\<lambda>_ _. 0)" if "tc_counters c' = None" for c' :: "'cc tcp_conn"
    by (simp add: conn_bytes_def fun_eq_iff that)
  have pre: "length (tc_client_read ?c) < 2 ^ 64 \<longrightarrow> unat pre' = length (tc_client_read ?c)"
    using w(6) by (simp add: pre'_def saturating_add_exact)
  have close: "effect (c, b) (tcp_close r (c', b))"
    if "tc_counters c' = None" "tc_guard c' = None" "tc_ctx c' = tc_ctx c" "tc_limiter c' = tc_limiter c" for r c'
    by (rule effect_close) (use that w zero in \<open>simp_all add: slots_def conn_guards_def keeps_def\<close>)
  have stay: "effect (c, b) (?c\<lparr>tc_phase := Handshake app' pre'\<rparr>, b)" for app'
    using w pre zero by (simp add: effect_def slots_def conn_guards_def keeps_def conn_wf_def)
  have admit: "effect (c, b) (tcp_admit m target initial pre' (?c, b))" for target initial
    by (rule admit_effect) (use w pre zero in simp_all)
  show ?thesis
  proof (cases "chunk = []")
    case True
    then show ?thesis using close w by (simp add: tcp_handshake_def)
  next
    case False
    then show ?thesis using close [of ?c] stay admit w
      by (auto simp: tcp_handshake_def case_prod_beta Let_def s'_def [symmetric] pre'_def [symmetric]
          split: sum.split option.split)
  qed
qed

text \<open>Once a connection belongs to a user, a step that reads nothing and takes no slot has no effect on
  what is charged.\<close>

definition running :: "phase \<Rightarrow> bool" where
  "running ph \<longleftrightarrow> (case ph of Handshake _ _ \<Rightarrow> False | Closed _ \<Rightarrow> False | _ \<Rightarrow> True)"

lemma running_phases [simp]:
  "running Relaying" "running (Connecting t i)" "running (Pacing k data)" "running (Sending k data)"
  by (simp_all add: running_def)

lemma running_effect:
  assumes "conn_wf b c" "running (tc_phase c)" "running (tc_phase c')"
    and "tc_ctx c' = tc_ctx c" "tc_counters c' = tc_counters c" "tc_limiter c' = tc_limiter c" "tc_guard c' = tc_guard c"
    and "charges (br_traffic b) (br_traffic b') (conn_bytes c) (conn_bytes c')" "keeps b b'" "br_conns b' = br_conns b"
  shows "effect (c, b) (c', b')"
proof -
  have "grows b b'" using assms(9) charges_arcs [OF assms(8)] by (simp add: grows_def keeps_def)
  then have t: "tables_ok b' (cx_tables (tc_ctx c'))" using assms(1,4) tables_ok_grows by (auto simp: conn_wf_def)
  have "conn_wf b' c'"
    using assms(1-6,9) charges_arcs [OF assms(8)] t by (auto simp: conn_wf_def running_def keeps_def split: phase.splits)
  then show ?thesis using assms(7-10) by (simp add: effect_def slots_def conn_guards_def)
qed

lemma running_close:
  assumes "conn_wf b c" "running (tc_phase c)"
    and "tc_ctx c' = tc_ctx c" "tc_counters c' = tc_counters c" "tc_limiter c' = tc_limiter c" "tc_guard c' = tc_guard c"
    and "charges (br_traffic b) (br_traffic b') (conn_bytes c) (conn_bytes c')" "keeps b b'" "br_conns b' = br_conns b"
  shows "effect (c, b) (tcp_close r (c', b'))"
proof -
  have "grows b b'" using assms(8) charges_arcs [OF assms(7)] by (simp add: grows_def keeps_def)
  then have "tables_ok b' (cx_tables (tc_ctx c'))" using assms(1,3) tables_ok_grows by (auto simp: conn_wf_def)
  then show ?thesis using assms charges_arcs [OF assms(7)]
    by (intro effect_close) (auto simp: slots_def conn_guards_def conn_wf_def keeps_def)
qed

lemma begin_send_same:
  "tc_ctx (begin_send k data c) = tc_ctx c" "tc_counters (begin_send k data c) = tc_counters c"
  "tc_limiter (begin_send k data c) = tc_limiter c" "tc_guard (begin_send k data c) = tc_guard c"
  "conn_bytes (begin_send k data c) = conn_bytes c" "running (tc_phase (begin_send k data c))"
  "tc_client_read (begin_send k data c) = tc_client_read c" "tc_replies (begin_send k data c) = tc_replies c"
  by (auto simp: begin_send_def running_def intro: conn_bytes_cong split: option.split)

lemma record_bytes_charges:
  assumes "tc_counters c = Some p" "p < length (tl_arcs (br_traffic b))"
    and "\<And>d q. conn_bytes c' d q = conn_bytes c d q + (if d = dir \<and> q = p then n else 0)"
  shows "charges (br_traffic b) (br_traffic (record_bytes dir n c b)) (conn_bytes c) (conn_bytes c')"
  using charges_count [of p "br_traffic b" n "word_of_nat n" "conn_bytes c'" "conn_bytes c" dir] assms
  by (simp add: record_bytes_def unat_of_nat)

lemma record_bytes_keeps [simp]: "keeps b (record_bytes dir n c b)" "br_conns (record_bytes dir n c b) = br_conns b"
  by (auto simp: record_bytes_def keeps_def split: option.split)

lemma upload_effect:
  assumes wf: "conn_wf b c" "running (tc_phase c)"
  shows "effect (c, b) (relay_upload C chunk now (c, b))"
proof -
  obtain p where p: "tc_counters c = Some p" "p < length (tl_arcs (br_traffic b))"
    using wf by (auto simp: conn_wf_def running_def split: phase.splits)
  let ?b = "record_bytes Upload (length chunk) c b"
  have ch: "charges (br_traffic b) (br_traffic ?b) (conn_bytes c) (conn_bytes c')"
    if "tc_counters c' = Some p" "tc_client_read c' = tc_client_read c @ chunk" "tc_replies c' = tc_replies c" for c'
    by (rule record_bytes_charges [OF p]) (simp add: conn_bytes_def that p(1) split: direction.split)
  show ?thesis using wf p
    by (auto simp: relay_upload_def case_prod_beta Let_def begin_send_same intro!: running_close running_effect ch
        split: sum.split)
qed

lemma download_effect:
  assumes wf: "conn_wf b c" "running (tc_phase c)"
  shows "effect (c, b) (relay_download C chunk now (c, b))"
proof -
  obtain p where p: "tc_counters c = Some p" "p < length (tl_arcs (br_traffic b))"
    using wf by (auto simp: conn_wf_def running_def split: phase.splits)
  define s r where "s = fst (session_encrypt C (tc_session c) chunk)" and "r = snd (session_encrypt C (tc_session c) chunk)"
  let ?c = "c\<lparr>tc_idle := now + cx_idle_timeout (tc_ctx c), tc_session := s, tc_remote_read := tc_remote_read c @ chunk\<rparr>"
  have same: "conn_bytes ?c = conn_bytes c" by (rule conn_bytes_cong) simp_all
  show ?thesis
  proof (cases "chunk = [] \<or> isl r")
    case True
    then show ?thesis using wf same
      by (auto simp: relay_download_def case_prod_beta Let_def s_def [symmetric] r_def [symmetric] keeps_def
          intro!: running_close split: sum.split)
  next
    case False
    then obtain wire where r: "r = Inr wire" by (cases r) auto
    let ?c' = "begin_send ToClient wire (?c\<lparr>tc_replies := tc_replies c @ wire\<rparr>)"
    have eq: "relay_download C chunk now (c, b) = (?c', record_bytes Download (length wire) ?c b)"
      using False r by (simp add: relay_download_def case_prod_beta Let_def s_def [symmetric] r_def [symmetric])
    have "charges (br_traffic b) (br_traffic (record_bytes Download (length wire) ?c b)) (conn_bytes ?c) (conn_bytes ?c')"
      by (rule record_bytes_charges [of _ p]) (simp_all add: p begin_send_same, simp add: conn_bytes_def p split: direction.split)
    then show ?thesis unfolding eq using wf by (intro running_effect) (simp_all add: begin_send_same same)
  qed
qed

lemma connect_effect:
  assumes wf: "conn_wf b c" "running (tc_phase c)"
  shows "effect (c, b) (tcp_connect nt now target initial (c, b))"
proof -
  have "conn_bytes (c\<lparr>tc_remote := r, tc_phase := ph, tc_idle := i\<rparr>) = conn_bytes c" "conn_bytes (c\<lparr>tc_remote := r\<rparr>) = conn_bytes c"
    for r ph i by (rule conn_bytes_cong; simp)+
  then show ?thesis using wf
    by (auto simp: tcp_connect_def Let_def begin_send_same enter_relay_def intro!: running_close running_effect
        split: sum.split)
qed

lemma pace_effect:
  assumes wf: "conn_wf b c" "running (tc_phase c)"
  shows "effect (c, b) (tcp_pace now k data (c, b))"
proof -
  have "conn_bytes (c\<lparr>tc_phase := ph\<rparr>) = conn_bytes c" for ph by (rule conn_bytes_cong) simp_all
  then show ?thesis using wf
    by (auto simp: tcp_pace_def Let_def case_prod_beta keeps_def intro!: running_effect split: option.split)
qed

lemma deliver_same:
  "tc_ctx (deliver k data c) = tc_ctx c" "tc_counters (deliver k data c) = tc_counters c" "tc_limiter (deliver k data c) = tc_limiter c"
  "tc_guard (deliver k data c) = tc_guard c" "conn_bytes (deliver k data c) = conn_bytes c"
  by (auto simp: deliver_def intro: conn_bytes_cong)

lemma wrote_effect:
  assumes wf: "conn_wf b c" "running (tc_phase c)"
  shows "effect (c, b) (tcp_wrote now k data c, b)"
proof -
  have "conn_bytes (tcp_wrote now k data c) = conn_bytes (deliver k data c)"
    by (rule conn_bytes_cong) (simp_all add: tcp_wrote_def enter_relay_def Let_def)
  then show ?thesis using wf
    by (intro running_effect) (simp_all add: deliver_same tcp_wrote_def enter_relay_def Let_def)
qed

lemma no_effect: "conn_wf b c \<Longrightarrow> effect (c, b) (c, b)"
  by (simp add: effect_def slots_def)

lemma wf_close: "conn_wf b c \<Longrightarrow> effect (c, b) (tcp_close r (c, b))"
  by (rule effect_close) (auto simp: conn_wf_def slots_def)

lemma failed_write_effect:
  "conn_wf b c \<Longrightarrow> running (tc_phase c) \<Longrightarrow> effect (c, b) (tcp_close r (deliver k data c, b))"
  by (rule running_close) (simp_all add: deliver_same)

text \<open>Every wake charges exactly what it moved and keeps the slots exact.\<close>

lemma wake_effect:
  assumes wf: "conn_wf b c"
  shows "effect (c, b) (tcp_wake C m e (c, b))"
proof -
  have "effect (c, b) (tcp_step C m ph e (c, b))" if "tc_phase c = ph" for ph
    using wf that
    by (cases "(C, m, ph, e, (c, b))" rule: tcp_step.cases)
      (simp_all add: no_effect wf_close handshake_effect connect_effect pace_effect wrote_effect failed_write_effect
        upload_effect download_effect)
  then show ?thesis by (simp add: tcp_wake_def)
qed

end
