(* ===== verification/Relay_Task.thy ===== *)
theory Relay_Task
  imports Tcp_Accounting "HOL-Library.Multiset"
begin

text \<open>
  The contract of a relay task towards the shared state: when it is woken it charges at most one
  counter, by the bytes it moved, leaves the rest of the shared state alone except for the device
  slots it takes or gives back, and stays well-formed. What holds of one task holds of a list of
  them one of which is woken: connections of a listener, listeners of the node.
\<close>

lemma charges_lift:
  assumes "charges s s' f g" "\<And>d p. G d p + f d p = F d p + g d p"
  shows "charges s s' F G"
proof (cases "s' = s \<and> g = f")
  case True
  then have "G = F" using assms(2) by (simp add: fun_eq_iff)
  with True show ?thesis by simp
next
  case False
  then obtain dir p w n where x: "p < length (tl_arcs s)" "s' = count_bytes dir p w s" "n < 2 ^ 64 \<longrightarrow> unat w = n"
    "g = (\<lambda>d q. f d q + (if d = dir \<and> q = p then n else 0))"
    using assms(1) by (auto simp: charges_def)
  have "G d q = F d q + (if d = dir \<and> q = p then n else 0)" for d q using assms(2) [of d q] by (simp add: x(4) split: if_splits)
  then show ?thesis using x(1-3) charges_count by metis
qed

lemma conn_inv_perm:
  assumes "mset gs = mset hs"
  shows "conn_inv \<lparr>cw_ledger = s, cw_guards = gs\<rparr> = conn_inv \<lparr>cw_ledger = s, cw_guards = hs\<rparr>"
proof -
  have "live_conns p ip \<lparr>cw_ledger = s, cw_guards = gs\<rparr> = live_conns p ip \<lparr>cw_ledger = s, cw_guards = hs\<rparr>" for p ip
    using arg_cong [OF assms, of "\<lambda>x. size (filter_mset (\<lambda>g. cg_set g = p \<and> cg_ip g = ip) x)"]
    by (simp add: live_conns_def flip: mset_filter)
  moreover have "set gs = set hs" using assms by (metis set_mset_mset)
  ultimately show ?thesis by (simp add: conn_inv_def)
qed

text \<open>One of several holders of guards steps.\<close>

lemma guards_step:
  assumes i: "i < length xs" and step: "\<And>gs. conn_inv \<lparr>cw_ledger = s, cw_guards = f (xs ! i) @ gs\<rparr> \<Longrightarrow>
      conn_inv \<lparr>cw_ledger = s', cw_guards = f y @ gs\<rparr>"
    and inv: "conn_inv \<lparr>cw_ledger = s, cw_guards = concat (map f xs) @ gs\<rparr>"
  shows "conn_inv \<lparr>cw_ledger = s', cw_guards = concat (map f (xs[i := y])) @ gs\<rparr>"
proof -
  let ?rest = "concat (map f (take i xs)) @ concat (map f (drop (Suc i) xs)) @ gs"
  have xs: "xs = take i xs @ xs ! i # drop (Suc i) xs" using i by (simp add: id_take_nth_drop)
  have "mset (concat (map f xs) @ gs) = mset (f (xs ! i) @ ?rest)"
    by (subst xs) (simp add: ac_simps)
  with inv have "conn_inv \<lparr>cw_ledger = s, cw_guards = f (xs ! i) @ ?rest\<rparr>" using conn_inv_perm by blast
  from step [OF this] have "conn_inv \<lparr>cw_ledger = s', cw_guards = f y @ ?rest\<rparr>" .
  moreover have "mset (concat (map f (xs[i := y])) @ gs) = mset (f y @ ?rest)"
    using i by (simp add: upd_conv_take_nth_drop ac_simps)
  ultimately show ?thesis using conn_inv_perm by blast
qed

locale relay_task =
  fixes wake :: "'e \<Rightarrow> 's \<times> 're backend \<Rightarrow> 's \<times> 're backend"
    and bytes :: "'s \<Rightarrow> direction \<Rightarrow> nat \<Rightarrow> nat"
    and guards :: "'s \<Rightarrow> conn_guard list"
    and wf :: "'re backend \<Rightarrow> 's \<Rightarrow> bool"
  assumes wf_grows: "grows b b' \<Longrightarrow> wf b s \<Longrightarrow> wf b' s"
    and wake_effect: "wf b s \<Longrightarrow> tables_ok b (br_user_tables b) \<Longrightarrow> wake e (s, b) = (s', b') \<Longrightarrow>
      charges (br_traffic b) (br_traffic b') (bytes s) (bytes s') \<and> keeps b b' \<and> wf b' s' \<and>
      (\<forall>gs. conn_inv \<lparr>cw_ledger = br_conns b, cw_guards = guards s @ gs\<rparr> \<longrightarrow>
         conn_inv \<lparr>cw_ledger = br_conns b', cw_guards = guards s' @ gs\<rparr>)"
begin

definition total :: "'s list \<Rightarrow> direction \<Rightarrow> nat \<Rightarrow> nat" where
  "total ss d p = sum_list (map (\<lambda>s. bytes s d p) ss)"

lemma wake_one:
  assumes i: "i < length ss" and wf: "\<forall>s \<in> set ss. wf b s" and t: "tables_ok b (br_user_tables b)"
    and r: "wake e (ss ! i, b) = (s', b')"
  shows "charges (br_traffic b) (br_traffic b') (total ss) (total (ss[i := s'])) \<and> keeps b b' \<and>
    (\<forall>s \<in> set (ss[i := s']). wf b' s) \<and>
    (\<forall>gs. conn_inv \<lparr>cw_ledger = br_conns b, cw_guards = concat (map guards ss) @ gs\<rparr> \<longrightarrow>
       conn_inv \<lparr>cw_ledger = br_conns b', cw_guards = concat (map guards (ss[i := s'])) @ gs\<rparr>)"
proof -
  have "wf b (ss ! i)" using wf i by simp
  note ef = wake_effect [OF this t r]
  have "total (ss[i := s']) d p + bytes (ss ! i) d p = total ss d p + bytes s' d p" for d p
    using sum_list_map_update [OF i, of "\<lambda>s. bytes s d p" s'] by (simp add: total_def)
  with ef have ch: "charges (br_traffic b) (br_traffic b') (total ss) (total (ss[i := s']))" by (blast intro: charges_lift)
  have "grows b b'" using ef charges_arcs [OF ch] by (simp add: keeps_def grows_def)
  then have "\<forall>s \<in> set (ss[i := s']). wf b' s"
    using wf ef wf_grows by (auto dest!: set_update_subset_insert [THEN subsetD])
  moreover have "conn_inv \<lparr>cw_ledger = br_conns b', cw_guards = concat (map guards (ss[i := s'])) @ gs\<rparr>"
    if "conn_inv \<lparr>cw_ledger = br_conns b, cw_guards = concat (map guards ss) @ gs\<rparr>" for gs
    using guards_step [OF i, of "br_conns b" guards "br_conns b'" s' gs] ef that by blast
  ultimately show ?thesis using ch ef by blast
qed

end

text \<open>One connection.\<close>

interpretation conn_rt: relay_task "tcp_wake C m" conn_bytes conn_guards conn_wf
  for C :: "'cc crypto" and m :: "'re \<Rightarrow> bytes \<Rightarrow> bool"
proof
  fix b b' :: "'re backend" and c c' :: "'cc tcp_conn" and e
  show "grows b b' \<Longrightarrow> conn_wf b c \<Longrightarrow> conn_wf b' c" by (rule conn_wf_grows)
  assume "conn_wf b c" "tcp_wake C m e (c, b) = (c', b')"
  then show "charges (br_traffic b) (br_traffic b') (conn_bytes c) (conn_bytes c') \<and> keeps b b' \<and> conn_wf b' c' \<and>
      (\<forall>gs. conn_inv \<lparr>cw_ledger = br_conns b, cw_guards = conn_guards c @ gs\<rparr> \<longrightarrow>
         conn_inv \<lparr>cw_ledger = br_conns b', cw_guards = conn_guards c' @ gs\<rparr>)"
    using wake_effect [of b c C m e] by (simp add: effect_def slots_def)
qed

end
