(* ===== verification/Node.thy ===== *)
theory Node
  imports Relay_Task Udp_Props Supervisor_Runtime
begin

text \<open>
  The whole node: the supervisor with its shared state, the TCP listeners with their connections
  and the UDP listeners with their pumps, woken in any order. A traffic report is two events, the
  collection of the deltas and the panel's answer, between which the relays run on; the
  supervisor does nothing else meanwhile. \<open>nd_accepted\<close> records the deltas the panel has
  accepted, with the counter of their user.
\<close>

record ('cc, 're) node =
  nd_backend :: "'re backend"
  nd_tcp :: "'cc tcp_listener list"
  nd_udp :: "udp_listener list"
  nd_inflight :: "traffic_delta list option"
  nd_accepted :: "(nat \<times> traffic_delta) list"

definition node_new :: "config \<Rightarrow> nat \<Rightarrow> ('cc, 're) node" where
  "node_new c now = \<lparr>nd_backend = backend_new c now, nd_tcp = [], nd_udp = [], nd_inflight = None, nd_accepted = []\<rparr>"

text \<open>\<open>TcpListenerTask::stop\<close> and \<open>UdpListenerTask::stop\<close>: the loop of the task ends. TCP connections go
  on; the UDP pumps end with the map of associations.\<close>

definition stop_tcp_task :: "tcp_task \<Rightarrow> 'cc tcp_listener list \<Rightarrow> 'cc tcp_listener list" where
  "stop_tcp_task t ts = map (\<lambda>l. if ls_task l = t then l\<lparr>ls_running := False\<rparr> else l) ts"

definition stop_udp_task :: "udp_task \<Rightarrow> udp_listener list \<Rightarrow> udp_listener list" where
  "stop_udp_task t us = map (\<lambda>l. if ul_task l = t then udp_stop l else l) us"

text \<open>What starting and stopping a listener does; \<open>binds\<close> says whether the socket could be bound.\<close>

fun perform ::
  "'cc crypto \<Rightarrow> (action \<Rightarrow> bool) \<Rightarrow> action \<Rightarrow> 'cc tcp_listener list \<times> udp_listener list \<Rightarrow>
   'cc tcp_listener list \<times> udp_listener list" where
  "perform C binds (SpawnTcp t) (ts, us) =
     (case tcp_listen t of
        Inr l \<Rightarrow> (if binds (SpawnTcp t) then ts @ [l] else ts, us)
      | Inl _ \<Rightarrow> (ts, us))"
| "perform C binds (SpawnUdp t) (ts, us) =
     (case udp_listen C t of
        Inr l \<Rightarrow> (ts, if binds (SpawnUdp t) then us @ [l] else us)
      | Inl _ \<Rightarrow> (ts, us))"
| "perform C binds (StopTcp t) (ts, us) =
     (stop_tcp_task t ts, us)"
| "perform C binds (StopUdp t) (ts, us) =
     (ts, stop_udp_task t us)"

text \<open>The supervisor went on to \<open>b\<close>: the actions it logged are carried out.\<close>

definition supervise ::
  "'cc crypto \<Rightarrow> (action \<Rightarrow> bool) \<Rightarrow> 're backend \<Rightarrow> ('cc, 're) node \<Rightarrow> ('cc, 're) node" where
  "supervise C binds b nd =
     (let acts = drop (length (br_log (nd_backend nd))) (br_log b);
          (ts, us) = fold (perform C binds) acts (nd_tcp nd, nd_udp nd)
      in nd\<lparr>nd_backend := b, nd_tcp := ts, nd_udp := us\<rparr>)"

datatype 'j node_event =
    Supervise "'j wakeup" "action \<Rightarrow> bool"
  | Shutdown
  | Collect
  | Answer "'j web"
  | Auxiliary "'j web"
  | OnTcp nat listener_event
  | OnUdp nat udp_wakeup

text \<open>The arms of the run loop other than the report, which is split, and what relay tasks do, which
  the listeners do here.\<close>

fun own_turn :: "'j wakeup \<Rightarrow> bool" where
  "own_turn (Event now) = True"
| "own_turn (Poll w now) = True"
| "own_turn (Heartbeat w now) = True"
| "own_turn _ = False"

fun node_step ::
  "'cc crypto \<Rightarrow> ('re \<Rightarrow> bytes \<Rightarrow> bool) \<Rightarrow> (string \<Rightarrow> 're option) \<Rightarrow> 'j node_event \<Rightarrow> ('cc, 're) node \<Rightarrow> ('cc, 're) node" where
  "node_step C m re_new (Supervise t binds) nd =
     (if own_turn t \<and> nd_inflight nd = None then supervise C binds (run_turn C re_new t (nd_backend nd)) nd else nd)"
| "node_step C m re_new Shutdown nd =
     (if nd_inflight nd = None then supervise C (\<lambda>_. True) (stop_all (nd_backend nd)) nd else nd)"
| "node_step C m re_new Collect nd =
     (let ds = pending_deltas (br_traffic (nd_backend nd))
      in if nd_inflight nd = None \<and> ds \<noteq> [] then nd\<lparr>nd_inflight := Some ds\<rparr> else nd)"
| "node_step C m re_new (Answer w) nd =
     (case nd_inflight nd of
        None \<Rightarrow> nd
      | Some ds \<Rightarrow>
          let b = nd_backend nd in
          (case panel_report_traffic w (pc_node_id (cfg_panel (br_config b))) ds of
             Inl _ \<Rightarrow> nd\<lparr>nd_inflight := None\<rparr>
           | Inr _ \<Rightarrow> nd\<lparr>nd_backend := b\<lparr>br_traffic := mark_reported ds (br_traffic b)\<rparr>, nd_inflight := None,
               nd_accepted := map (\<lambda>d. (the (traffic_ptr (br_traffic b) (td_user_id d)), d)) ds @ nd_accepted nd\<rparr>))"
| "node_step C m re_new (Auxiliary w) nd =
     (if nd_inflight nd = None then nd\<lparr>nd_backend := fst (report_auxiliary_state w (nd_backend nd))\<rparr> else nd)"
| "node_step C m re_new (OnTcp i e) nd =
     (if i < length (nd_tcp nd) then
        let (l, b) = listener_wake C m e (nd_tcp nd ! i, nd_backend nd)
        in nd\<lparr>nd_backend := b, nd_tcp := (nd_tcp nd)[i := l]\<rparr>
      else nd)"
| "node_step C m re_new (OnUdp i e) nd =
     (if i < length (nd_udp nd) then
        let (l, b) = udp_wake C m e (nd_udp nd ! i, nd_backend nd)
        in nd\<lparr>nd_backend := b, nd_udp := (nd_udp nd)[i := l]\<rparr>
      else nd)"

text \<open>A run from start-up.\<close>

definition node_run ::
  "'cc crypto \<Rightarrow> ('re \<Rightarrow> bytes \<Rightarrow> bool) \<Rightarrow> (string \<Rightarrow> 're option) \<Rightarrow> config \<Rightarrow> nat \<Rightarrow> 'j node_event list \<Rightarrow> ('cc, 're) node" where
  "node_run C m re_new c now es = fold (node_step C m re_new) es (node_new c now)"

text \<open>A report nothing comes in between of is \<open>report_traffic\<close>.\<close>

lemma report_is_atomic:
  assumes "nd_inflight nd = None"
  shows "nd_backend (node_step C m re_new (Answer w) (node_step C m re_new Collect nd)) = fst (report_traffic w (nd_backend nd))"
  using assms by (auto simp: report_traffic_def Let_def split: sum.split)

subsection \<open>What is charged\<close>

definition udp_bytes :: "udp_listener \<Rightarrow> direction \<Rightarrow> nat \<Rightarrow> nat" where
  "udp_bytes l dir p = sum_list (map (\<lambda>(q, d, data). if q = p \<and> d = dir then length data else 0) (ul_charged l))"

definition listener_bytes :: "'cc tcp_listener \<Rightarrow> direction \<Rightarrow> nat \<Rightarrow> nat" where
  "listener_bytes l dir p = sum_list (map (\<lambda>c. conn_bytes c dir p) (ls_conns l))"

definition node_bytes :: "('cc, 're) node \<Rightarrow> direction \<Rightarrow> nat \<Rightarrow> nat" where
  "node_bytes nd dir p =
     sum_list (map (\<lambda>l. listener_bytes l dir p) (nd_tcp nd)) + sum_list (map (\<lambda>l. udp_bytes l dir p) (nd_udp nd))"

definition listener_guards :: "'cc tcp_listener \<Rightarrow> conn_guard list" where
  "listener_guards l = concat (map conn_guards (ls_conns l))"

definition node_guards :: "('cc, 're) node \<Rightarrow> conn_guard list" where
  "node_guards nd = concat (map listener_guards (nd_tcp nd))"

end
