(* ===== verification/Node_Props.thy ===== *)
theory Node_Props
  imports Node
begin

text \<open>
  Invariants of the whole node: the traffic ledger follows the reporting protocol with the bytes
  the relays really moved, device slots mirror the open connections, permits bound them, and every
  object a relay holds exists.
\<close>

subsection \<open>UDP listeners\<close>

definition udp_wf :: "'re backend \<Rightarrow> udp_listener \<Rightarrow> bool" where
  "udp_wf b l \<longleftrightarrow>
     tm_ok (ul_associations l) \<and>
     (\<forall>k a t. tm_lookup (ul_associations l) k = Some (a, t) \<longrightarrow> as_counters a < length (tl_arcs (br_traffic b)))"

lemma udp_wf_grows: "grows b b' \<Longrightarrow> udp_wf b l \<Longrightarrow> udp_wf b' l"
  unfolding udp_wf_def grows_def by (meson less_le_trans)

definition only_events :: "'re backend \<Rightarrow> 're backend \<Rightarrow> bool" where
  "only_events b b' \<longleftrightarrow> (\<exists>q. b' = b\<lparr>br_events := q\<rparr>)"

lemma only_events_refl [simp]: "only_events b b" "only_events b (b\<lparr>br_events := q\<rparr>)"
  by (auto simp: only_events_def intro: exI [of _ "br_events b"])

lemma forward_facts:
  assumes ok: "tm_ok (ul_associations l)" and f: "fst (forward env now target policy k rkey cnt payload (l, b)) = (l', b')"
    and old: "\<And>j a t. tm_lookup (ul_associations l) j = Some (a, t) \<Longrightarrow> as_counters a < n" and cnt: "cnt < n"
  shows "only_events b b' \<and> ul_charged l' = ul_charged l \<and> tm_ok (ul_associations l') \<and>
    (\<forall>j a t. tm_lookup (ul_associations l') j = Some (a, t) \<longrightarrow> as_counters a < n)"
proof -
  obtain l1 b1 res where fa: "find_association env now k rkey cnt (l, b) = ((l1, b1), res)" by (metis prod.collapse)
  have "only_events b b1" "ul_charged l1 = ul_charged l"
    using fa by (auto simp: find_association_def only_events_def Let_def split: prod.splits option.splits sum.splits
        intro: exI [of _ "br_events b"])
  moreover have "tm_ok (ul_associations l1)" by (rule find_association_facts(2) [OF ok fa])
  moreover have "as_counters a < n" if "tm_lookup (ul_associations l1) j = Some (a, t)" for j a t
    using find_association_facts(8) [OF ok fa that] old cnt by auto
  moreover have "(l', b') = (l, b) \<or> b' = b1 \<and> ul_charged l' = ul_charged l1 \<and> ul_associations l' = ul_associations l1"
    using f fa by (auto simp: forward_def split: sum.splits)
  ultimately show ?thesis using ok old by auto
qed

lemma handle_accepted:
  fixes b :: "'re backend"
  assumes ok: "tm_ok (ul_associations l)" and acc: "accepts C l t d uid rkey cnt plain"
    and h: "fst (handle_inbound C m env now t d peer l b) = (l', b')"
    and old: "\<And>j a s. tm_lookup (ul_associations l) j = Some (a, s) \<Longrightarrow> as_counters a < n" and cnt: "cnt < n"
  shows "only_events (b\<lparr>br_traffic := count_bytes Upload cnt (word_of_nat (length d)) (br_traffic b)\<rparr>) b' \<and>
    ul_charged l' = (cnt, Upload, d) # ul_charged l \<and> tm_ok (ul_associations l') \<and>
    (\<forall>j a s. tm_lookup (ul_associations l') j = Some (a, s) \<longrightarrow> as_counters a < n)"
proof -
  let ?lc = "l\<lparr>ul_charged := (cnt, Upload, d) # ul_charged l\<rparr>"
  let ?bc = "b\<lparr>br_traffic := count_bytes Upload cnt (word_of_nat (length d)) (br_traffic b)\<rparr>"
  let ?f = "\<lambda>target k (bq :: 're backend). fst (forward env now target (hm_get (ut_policies t) uid)
     \<lparr>ky_peer = peer, ky_user_id = uid\<rparr> rkey cnt (drop k plain) (?lc, bq))"
  show ?thesis
  proof (cases "\<exists>target k bq. ?f target k bq = (l', b') \<and> only_events ?bc bq")
    case True
    then obtain target k bq where f: "?f target k bq = (l', b')" "only_events ?bc bq" by blast
    have "tm_ok (ul_associations ?lc)" using ok by simp
    from forward_facts [OF this f(1) _ cnt] old f(2) show ?thesis by (fastforce simp: only_events_def)
  next
    case False
    then have "(l', b') = (?lc, ?bc)"
      using h unfolding handle_inbound_accepts [OF acc] Let_def
      by (auto split: sum.splits option.splits if_splits) (use only_events_refl(2) in blast)+
    then show ?thesis using ok old by simp
  qed
qed

lemma receive_effect:
  assumes wf: "udp_wf b l" "tables_ok b (br_user_tables b)" and r: "udp_receive C m env now datagram peer (l, b) = (l', b')"
  shows "charges (br_traffic b) (br_traffic b') (udp_bytes l) (udp_bytes l') \<and> keeps b b' \<and> br_conns b' = br_conns b \<and> udp_wf b' l'"
proof -
  let ?l = "l\<lparr>ul_associations := tm_expire now (ul_associations l)\<rparr>" and ?d = "take BUF_SIZE datagram" and ?t = "br_user_tables b"
  let ?n = "length (tl_arcs (br_traffic b))"
  have h: "fst (handle_inbound C m env now ?t ?d peer ?l b) = (l', b')" using r by (simp add: udp_receive_def)
  have ok: "tm_ok (ul_associations ?l)" using wf(1) by (simp add: udp_wf_def tm_ok_expire)
  have old: "as_counters a < ?n" if "tm_lookup (ul_associations ?l) j = Some (a, t)" for j a t
  proof -
    have "tm_lookup (ul_associations l) j = Some (a, t)"
      using that wf(1) by (auto simp: udp_wf_def tm_lookup_expire split: option.splits if_splits)
    then show ?thesis using wf(1) unfolding udp_wf_def by blast
  qed
  show ?thesis
  proof (cases "\<exists>uid rkey cnt plain. accepts C ?l ?t ?d uid rkey cnt plain")
    case False
    then have "l' = ?l" "b' = b" using handle_inbound_other [OF False, of m env now peer b] h by simp_all
    then show ?thesis using ok old by (simp add: udp_bytes_def charges_def fun_eq_iff udp_wf_def)
  next
    case True
    then obtain uid rkey cnt plain where acc: "accepts C ?l ?t ?d uid rkey cnt plain" by blast
    have cnt: "cnt < ?n" using acc wf(2) by (auto simp: accepts_def conn_counters_def tables_ok_def split: option.splits)
    let ?bc = "b\<lparr>br_traffic := count_bytes Upload cnt (word_of_nat (length ?d)) (br_traffic b)\<rparr>"
    have step: "only_events ?bc b' \<and> ul_charged l' = (cnt, Upload, ?d) # ul_charged l \<and> tm_ok (ul_associations l') \<and>
        (\<forall>j a s. tm_lookup (ul_associations l') j = Some (a, s) \<longrightarrow> as_counters a < ?n)"
      using handle_accepted [OF ok acc h _ cnt] old by simp
    have "charges (br_traffic b) (br_traffic ?bc) (udp_bytes l) (udp_bytes l')"
      using charges_count [OF cnt, of "length ?d" "word_of_nat (length ?d)" "udp_bytes l'" "udp_bytes l" Upload] step
      by (auto simp: udp_bytes_def unat_of_nat)
    moreover have "length (tl_arcs (br_traffic b')) = ?n" using step by (auto simp: only_events_def count_bytes_def)
    then have "udp_wf b' l'" unfolding udp_wf_def using step by metis
    ultimately show ?thesis using step by (auto simp: only_events_def keeps_def)
  qed
qed

lemma reply_effect:
  assumes wf: "udp_wf b l" and r: "pump_reply C rand k received sent (l, b) = (l', b')"
  shows "charges (br_traffic b) (br_traffic b') (udp_bytes l) (udp_bytes l') \<and> keeps b b' \<and> br_conns b' = br_conns b \<and> udp_wf b' l'"
proof (cases "\<exists>a pkt. tm_lookup (ul_associations l) k = Some a \<and> ul_charged l' = (as_counters (fst a), Download, pkt) # ul_charged l \<and>
    b' = b\<lparr>br_traffic := count_bytes Download (as_counters (fst a)) (word_of_nat (length pkt)) (br_traffic b)\<rparr>")
  case True
  then obtain a t pkt where a: "tm_lookup (ul_associations l) k = Some (a, t)" "ul_charged l' = (as_counters a, Download, pkt) # ul_charged l"
    "b' = b\<lparr>br_traffic := count_bytes Download (as_counters a) (word_of_nat (length pkt)) (br_traffic b)\<rparr>" by auto
  have cnt: "as_counters a < length (tl_arcs (br_traffic b))" using wf a(1) by (auto simp: udp_wf_def)
  have "charges (br_traffic b) (br_traffic b') (udp_bytes l) (udp_bytes l')"
    using charges_count [OF cnt, of "length pkt" "word_of_nat (length pkt)" "udp_bytes l'" "udp_bytes l" Download] a
    by (auto simp: udp_bytes_def unat_of_nat)
  moreover have "ul_associations l' = ul_associations l"
    using r by (auto simp: pump_reply_def Let_def split: option.splits sum.splits prod.splits if_splits)
  ultimately show ?thesis using wf a(3) by (simp add: keeps_def udp_wf_def count_bytes_def)
next
  case False
  then have "b' = b \<and> ul_charged l' = ul_charged l \<and> ul_associations l' = ul_associations l"
    using r by (auto simp: pump_reply_def Let_def split: option.splits sum.splits prod.splits if_splits)
  then show ?thesis using wf by (auto simp: charges_def udp_bytes_def fun_eq_iff udp_wf_def)
qed

lemma udp_stop_facts: "udp_bytes (udp_stop l) = udp_bytes l" "udp_wf b (udp_stop l)"
  by (auto simp: udp_stop_def udp_bytes_def fun_eq_iff udp_wf_def tm_ok_new)

lemma udp_effect:
  assumes wf: "udp_wf b l" "tables_ok b (br_user_tables b)" and r: "udp_wake C m e (l, b) = (l', b')"
  shows "charges (br_traffic b) (br_traffic b') (udp_bytes l) (udp_bytes l') \<and> keeps b b' \<and> br_conns b' = br_conns b \<and> udp_wf b' l'"
proof (cases e)
  case (Received env now datagram peer)
  then show ?thesis using r wf receive_effect [OF wf, of C m env now datagram peer l' b'] by (auto split: if_splits)
next
  case (Replied rand k received sent)
  then show ?thesis using r reply_effect [OF wf(1), of C rand k received sent l' b'] by simp
qed (use r in \<open>auto simp: udp_stop_facts\<close>)

subsection \<open>TCP listeners\<close>

definition listener_wf :: "'re backend \<Rightarrow> 'cc tcp_listener \<Rightarrow> bool" where
  "listener_wf b l \<longleftrightarrow> permits_ok l \<and> (\<forall>c \<in> set (ls_conns l). conn_wf b c)"

lemma listener_wf_grows: "grows b b' \<Longrightarrow> listener_wf b l \<Longrightarrow> listener_wf b' l"
  by (auto simp: listener_wf_def intro: conn_wf_grows)

lemma opened_facts:
  assumes "tcp_open C rand cx = Inr c"
  shows "conn_bytes c = (\<lambda>_ _. 0)" "conn_guards c = []" "tables_ok b (cx_tables cx) \<Longrightarrow> conn_wf b c"
  using assms by (auto simp: tcp_open_def conn_bytes_def conn_guards_def conn_wf_def fun_eq_iff split: sum.splits)

lemma listener_effect:
  fixes l l' :: "'c tcp_listener"
  assumes wf: "listener_wf b l" "tables_ok b (br_user_tables b)" and r: "listener_wake C m e (l, b) = (l', b')"
  shows "charges (br_traffic b) (br_traffic b') (listener_bytes l) (listener_bytes l') \<and> keeps b b' \<and> listener_wf b' l' \<and>
    (\<forall>gs. conn_inv \<lparr>cw_ledger = br_conns b, cw_guards = listener_guards l @ gs\<rparr> \<longrightarrow>
       conn_inv \<lparr>cw_ledger = br_conns b', cw_guards = listener_guards l' @ gs\<rparr>)"
proof -
  have permits: "permits_ok l'" using permits_ok_wake [of l C m e b] wf(1) r by (simp add: listener_wf_def)
  show ?thesis
  proof (cases e)
    case (Accepted rand peer)
    then have b: "b' = b" using r by simp
    show ?thesis
    proof (cases "l' = l")
      case False
      then obtain c where c: "tcp_open C rand (accept_context (ls_task l) (ls_cipher l) (br_user_tables b) peer) = Inr c"
        "ls_conns l' = ls_conns l @ [c]"
        using Accepted r by (auto simp: tcp_accept_def split: if_splits sum.splits)
      have "conn_wf b c" using opened_facts(3) [OF c(1), of b] wf(2) by (simp add: accept_context_def)
      then show ?thesis using wf(1) permits opened_facts(1,2) [OF c(1)]
        by (simp add: b c(2) listener_bytes_def listener_guards_def listener_wf_def charges_def fun_eq_iff)
    qed (use b wf(1) in simp)
  next
    case (OnConn i w)
    show ?thesis
    proof (cases "i < length (ls_conns l)")
      case True
      then obtain c' b1 where w: "tcp_wake C m w (ls_conns l ! i, b) = (c', b1)"
        and eq: "wake_conn C m i w (l, b) = (l\<lparr>ls_conns := (ls_conns l)[i := c'],
           ls_permits := ls_permits l + (if is_open (ls_conns l ! i) \<and> \<not> is_open c' then 1 else 0)\<rparr>, b1)"
        by (rule wake_conn_eq)
      have b1: "b1 = b'" and l': "ls_conns l' = (ls_conns l)[i := c']" using r OnConn eq by auto
      have total: "listener_bytes k = conn_rt.total (ls_conns k)" for k :: "'c tcp_listener"
        by (simp add: fun_eq_iff listener_bytes_def conn_rt.total_def)
      have "\<forall>c \<in> set (ls_conns l). conn_wf b c" using wf(1) by (simp add: listener_wf_def)
      from conn_rt.wake_one [OF True this wf(2) w] permits show ?thesis
        by (simp add: b1 total l' listener_wf_def listener_guards_def)
    qed (use r OnConn wf(1) in \<open>simp add: wake_conn_def\<close>)
  qed (use r wf(1) permits in \<open>auto simp: listener_bytes_def listener_guards_def listener_wf_def charges_def fun_eq_iff\<close>)
qed

subsection \<open>Both as relay tasks\<close>

interpretation tcp_rt: relay_task "listener_wake C m" listener_bytes listener_guards listener_wf
  for C :: "'cc crypto" and m :: "'re \<Rightarrow> bytes \<Rightarrow> bool"
  by unfold_locales (blast intro: listener_wf_grows, rule listener_effect)

interpretation udp_rt: relay_task "udp_wake C m" udp_bytes "\<lambda>_. []" udp_wf
  for C :: "'cc crypto" and m :: "'re \<Rightarrow> bytes \<Rightarrow> bool"
  by unfold_locales (blast intro: udp_wf_grows, drule (2) udp_effect, simp)

lemma concat_map_Nil: "concat (map (\<lambda>_. []) xs) = []"
  by (induction xs) simp_all

lemma node_bytes_total: "node_bytes nd d p = tcp_rt.total (nd_tcp nd) d p + udp_rt.total (nd_udp nd) d p"
  by (simp add: node_bytes_def tcp_rt.total_def udp_rt.total_def)

subsection \<open>The supervisor\<close>

lemma poll_grows:
  "length (tl_arcs s) \<le> length (tl_arcs (traffic.poll rows s))"
  "length (cl_arcs c) \<le> length (cl_arcs (conns.poll rows c))"
  "length (sl_arcs v) \<le> length (sl_arcs (speeds.poll srows v))"
proof -
  show "length (tl_arcs s) \<le> length (tl_arcs (traffic.poll rows s))"
    by (rule traffic.poll_preserves)
      (auto simp: traffic_ensure_user_def traffic_remove_stale_users_def Let_def split: option.split)
  show "length (cl_arcs c) \<le> length (cl_arcs (conns.poll rows c))"
    by (rule conns.poll_preserves) (auto simp: conn_ensure_user_def conn_remove_stale_users_def Let_def split: option.split)
  show "length (sl_arcs v) \<le> length (sl_arcs (speeds.poll srows v))"
    by (rule speeds.poll_preserves) (auto simp: speed_ensure_user_def speed_remove_stale_users_def Let_def split: option.split prod.split)
qed

lemma poll_conn_inv:
  assumes "conn_inv \<lparr>cw_ledger = s, cw_guards = gs\<rparr>"
  shows "conn_inv \<lparr>cw_ledger = conns.poll rows s, cw_guards = gs\<rparr>"
proof (rule conns.poll_preserves [of "\<lambda>s. conn_inv \<lparr>cw_ledger = s, cw_guards = gs\<rparr>", OF assms])
  fix u s live assume inv: "conn_inv \<lparr>cw_ledger = s, cw_guards = gs\<rparr>"
  show "conn_inv \<lparr>cw_ledger = fst (conn_ensure_user u s), cw_guards = gs\<rparr>"
    using conn_step_inv [OF conn_step.ensure [of "\<lambda>_ _. True"] inv] by simp
  show "conn_inv \<lparr>cw_ledger = conn_remove_stale_users live s, cw_guards = gs\<rparr>"
    using conn_step_inv [OF conn_step.remove [of "\<lambda>_ _. True"] inv] by simp
qed

lemma apply_tables_ok:
  assumes ok: "ledgers_ok b"
  shows "tables_ok (apply_users C now rows b) (br_user_tables (apply_users C now rows b))"
proof -
  let ?tb = "fold (sync_row C now) rows (tables_default, b)" and ?b = "apply_users C now rows b"
  have t: "br_user_tables ?b = fst ?tb" by (simp add: apply_users_split sv_simps tabled_def)
  have len: "tl_arcs (br_traffic ?b) = tl_arcs (br_traffic (snd ?tb))" "cl_arcs (br_conns ?b) = cl_arcs (br_conns (snd ?tb))"
    "sl_arcs (br_speeds ?b) = sl_arcs (br_speeds (snd ?tb))"
    by (simp_all add: apply_users_split drop_stale_users_def sv_simps tabled_def traffic_remove_stale_users_def
        conn_remove_stale_users_def speed_remove_stale_users_def)
  note arcs = sync_rows_arcs [OF ok, of C now rows]
  have bound: "traffic_ptr (br_traffic (snd ?tb)) u = Some p \<Longrightarrow> p < length (tl_arcs (br_traffic (snd ?tb)))"
    "conn_ptr (br_conns (snd ?tb)) u = Some p \<Longrightarrow> p < length (cl_arcs (br_conns (snd ?tb)))"
    "speed_ptr (br_speeds (snd ?tb)) u = Some p \<Longrightarrow> p < length (sl_arcs (br_speeds (snd ?tb)))" for u p
    using arcs by (auto simp: ledgers_ok_def traffic_ok_def conn_ok_def speed_ok_def traffic_ptr_def conn_ptr_def speed_ptr_def
        intro: table_ok_bound)
  show ?thesis unfolding tables_ok_def t len using arcs bound by (metis option.distinct(1))
qed

lemma event_same:
  "br_traffic (record_event now e b) = br_traffic b" "br_conns (record_event now e b) = br_conns b"
  "br_speeds (record_event now e b) = br_speeds b" "br_user_tables (record_event now e b) = br_user_tables b"
  by (cases e; simp)+

text \<open>The ledgers and the tables after a turn are those before, or those of a poll.\<close>

lemma own_turn_cases:
  assumes "own_turn t" "b' = run_turn C re_new t b"
  obtains (same) "br_traffic b' = br_traffic b" "br_conns b' = br_conns b" "br_speeds b' = br_speeds b"
      "br_user_tables b' = br_user_tables b"
  | (polled) now rows where "br_traffic b' = br_traffic (apply_users C now rows b)" "br_conns b' = br_conns (apply_users C now rows b)"
      "br_speeds b' = br_speeds (apply_users C now rows b)" "br_user_tables b' = br_user_tables (apply_users C now rows b)"
proof (cases t)
  case (Poll w now)
  show ?thesis
  proof (cases "snd (sync_users C w now b)")
    case (Inl e)
    then have "fst (sync_users C w now b) = b" by (auto simp: sync_users_def split: sum.splits if_splits)
    then show ?thesis using assms(2) Poll
      by (intro same) (simp_all add: expire_local_state_def refresh_detect_rules_def split: sum.split)
  next
    case (Inr x)
    then obtain rows where "fst (sync_users C w now b) = apply_users C now rows b"
      by (auto simp: sync_users_def split: sum.splits if_splits)
    then show ?thesis using assms(2) Poll
      by (intro polled [of now rows]) (simp_all add: expire_local_state_def refresh_detect_rules_def split: sum.split)
  qed
qed (use assms same in \<open>auto simp: event_same split: list.splits\<close>)

lemma own_turn_facts:
  assumes "own_turn t" "b' = run_turn C re_new t b" and ok: "ledgers_ok b" "tables_ok b (br_user_tables b)"
    and inv: "conn_inv \<lparr>cw_ledger = br_conns b, cw_guards = gs\<rparr>"
  shows "grows b b' \<and> ledgers_ok b' \<and> tables_ok b' (br_user_tables b') \<and> conn_inv \<lparr>cw_ledger = br_conns b', cw_guards = gs\<rparr> \<and>
    (br_traffic b' = br_traffic b \<or> (\<exists>rows. br_traffic b' = traffic.poll rows (br_traffic b)))"
  using assms(1,2)
proof (cases rule: own_turn_cases)
  case same
  then show ?thesis using ok inv by (simp add: grows_def ledgers_ok_def tables_ok_def)
next
  case (polled now rows)
  then show ?thesis
    using ledgers_ok_apply [OF ok(1), of C now rows] apply_tables_ok [OF ok(1), of C now rows]
    by (auto simp: grows_def ledgers_ok_def tables_ok_def apply_users_ledgers poll_grows poll_conn_inv [OF inv])
qed

text \<open>Starting and stopping listeners moves no bytes and no guards.\<close>

definition same_relays ::
  "'re backend \<Rightarrow> 'cc tcp_listener list \<times> udp_listener list \<Rightarrow> 'cc tcp_listener list \<times> udp_listener list \<Rightarrow> bool" where
  "same_relays b = (\<lambda>(ts, us) (ts', us').
     (\<forall>d p. sum_list (map (\<lambda>l. listener_bytes l d p) ts') = sum_list (map (\<lambda>l. listener_bytes l d p) ts)) \<and>
     (\<forall>d p. sum_list (map (\<lambda>l. udp_bytes l d p) us') = sum_list (map (\<lambda>l. udp_bytes l d p) us)) \<and>
     concat (map listener_guards ts') = concat (map listener_guards ts) \<and>
     ((\<forall>l \<in> set ts. listener_wf b l) \<longrightarrow> (\<forall>l \<in> set ts'. listener_wf b l)) \<and>
     ((\<forall>l \<in> set us. udp_wf b l) \<longrightarrow> (\<forall>l \<in> set us'. udp_wf b l)))"

lemma stop_listener_same:
  "listener_bytes (l\<lparr>ls_running := r\<rparr>) = listener_bytes l" "listener_guards (l\<lparr>ls_running := r\<rparr>) = listener_guards l"
  "listener_wf b (l\<lparr>ls_running := r\<rparr>) = listener_wf b l"
  by (simp_all add: listener_bytes_def listener_guards_def listener_wf_def permits_ok_def open_conns_def fun_eq_iff)

lemma new_listener_facts:
  "tcp_listen t = Inr l \<Longrightarrow> listener_bytes l d p = 0 \<and> listener_guards l = [] \<and> listener_wf b l"
  "udp_listen C u = Inr k \<Longrightarrow> udp_bytes k d p = 0 \<and> udp_wf b k"
  by (auto simp: tcp_listen_def listener_bytes_def listener_guards_def listener_wf_def permits_ok_def open_conns_def
      udp_listen_def udp_bytes_def udp_wf_def tm_ok_new split: sum.splits)

lemma same_relays_perform:
  fixes w :: "'c tcp_listener list \<times> udp_listener list"
  shows "same_relays b w (perform C binds a w)"
proof -
  have tcp: "map (\<lambda>l. listener_bytes (if ls_task l = t then l\<lparr>ls_running := False\<rparr> else l) d p) ts = map (\<lambda>l. listener_bytes l d p) ts"
    "map (\<lambda>l. listener_guards (if ls_task l = t then l\<lparr>ls_running := False\<rparr> else l)) ts = map listener_guards ts" for d p t and ts :: "'c tcp_listener list"
    by (simp_all add: stop_listener_same)
  have udp: "map (\<lambda>l. udp_bytes (if ul_task l = u then udp_stop l else l) d p) us = map (\<lambda>l. udp_bytes l d p) us" for d p u us
    by (simp add: udp_stop_facts)
  obtain ts us where w: "w = (ts, us)" by (cases w)
  show ?thesis
  proof (cases a)
    case (SpawnTcp t)
    then show ?thesis by (cases "tcp_listen t :: 'c tcp_listener result") (simp_all add: w same_relays_def new_listener_facts)
  next
    case (SpawnUdp t)
    then show ?thesis by (cases "udp_listen C t") (simp_all add: w same_relays_def new_listener_facts)
  next
    case (StopTcp t)
    then show ?thesis by (auto simp: w same_relays_def stop_tcp_task_def comp_def tcp stop_listener_same)
  next
    case (StopUdp t)
    then show ?thesis by (auto simp: w same_relays_def stop_udp_task_def comp_def udp udp_stop_facts)
  qed
qed

lemma same_relays_trans: "same_relays b x y \<Longrightarrow> same_relays b y z \<Longrightarrow> same_relays b x z"
  by (cases x; cases y; cases z; simp only: same_relays_def prod.case; elim conjE; intro conjI) blast+

lemma same_relays_fold: "same_relays b w (fold (perform C binds) acts w)"
proof (induction acts arbitrary: w)
  case Nil
  then show ?case by (cases w) (simp add: same_relays_def)
next
  case (Cons a acts)
  show ?case using same_relays_trans [OF same_relays_perform Cons.IH] by simp
qed

subsection \<open>The invariant of the node\<close>

definition node_wf :: "('cc, 're) node \<Rightarrow> bool" where
  "node_wf nd \<longleftrightarrow>
     ledgers_ok (nd_backend nd) \<and> tables_ok (nd_backend nd) (br_user_tables (nd_backend nd)) \<and>
     (\<forall>l \<in> set (nd_tcp nd). listener_wf (nd_backend nd) l) \<and> (\<forall>l \<in> set (nd_udp nd). udp_wf (nd_backend nd) l) \<and>
     conn_inv \<lparr>cw_ledger = br_conns (nd_backend nd), cw_guards = node_guards nd\<rparr>"

text \<open>A run of the reporting protocol with the node's ledger, in which the bytes counted are those the
  relays moved.\<close>

definition accounts :: "('cc, 're) node \<Rightarrow> reporter \<Rightarrow> bool" where
  "accounts nd r \<longleftrightarrow>
     report_step\<^sup>*\<^sup>* reporter_init r \<and> rp_ledger r = br_traffic (nd_backend nd) \<and> rp_inflight r = nd_inflight nd \<and>
     rp_accepted r = nd_accepted nd \<and> (\<forall>dir p. node_bytes nd dir p < 2 ^ 64 \<longrightarrow> counted dir p r = node_bytes nd dir p)"

lemma accounts_charge:
  assumes acc: "accounts nd r" and ch: "charges (br_traffic (nd_backend nd)) (br_traffic (nd_backend nd')) (node_bytes nd) (node_bytes nd')"
    and same: "nd_inflight nd' = nd_inflight nd" "nd_accepted nd' = nd_accepted nd"
  shows "\<exists>r'. accounts nd' r'"
proof (cases "br_traffic (nd_backend nd') = br_traffic (nd_backend nd) \<and> node_bytes nd' = node_bytes nd")
  case True
  then show ?thesis using acc same by (auto simp: accounts_def)
next
  case False
  then obtain dir p w n where p: "p < length (tl_arcs (br_traffic (nd_backend nd)))"
    and w: "br_traffic (nd_backend nd') = count_bytes dir p w (br_traffic (nd_backend nd))" "n < 2 ^ 64 \<longrightarrow> unat w = n"
    and g: "node_bytes nd' = (\<lambda>d q. node_bytes nd d q + (if d = dir \<and> q = p then n else 0))"
    using ch unfolding charges_def by blast
  let ?r = "r\<lparr>rp_ledger := count_bytes dir p w (rp_ledger r), rp_counted := (p, dir, unat w) # rp_counted r\<rparr>"
  have "report_step r ?r" by (rule report_step.count) (use acc p in \<open>simp add: accounts_def\<close>)
  then have "report_step\<^sup>*\<^sup>* reporter_init ?r" using acc by (auto simp: accounts_def)
  moreover have "counted d q ?r = (if d = dir \<and> q = p then unat w else 0) + counted d q r" for d q by (auto simp: counted_def)
  then have "counted d q ?r = node_bytes nd' d q" if "node_bytes nd' d q < 2 ^ 64" for d q
    using acc w(2) that unfolding g by (auto simp: accounts_def split: if_splits)
  ultimately show ?thesis using acc w(1) same by (auto simp: accounts_def)
qed

lemma accounts_ledger:
  assumes acc: "accounts nd r" and step: "report_step\<^sup>*\<^sup>* r (r\<lparr>rp_ledger := br_traffic (nd_backend nd')\<rparr>)"
    and same: "nd_inflight nd' = nd_inflight nd" "nd_accepted nd' = nd_accepted nd" "node_bytes nd' = node_bytes nd"
  shows "\<exists>r'. accounts nd' r'"
  using acc same rtranclp_trans [OF _ step] by (fastforce simp: accounts_def)

lemma poll_steps:
  assumes "rp_inflight r = None"
  shows "report_step\<^sup>*\<^sup>* r (r\<lparr>rp_ledger := traffic.poll rows (rp_ledger r)\<rparr>)"
proof (rule traffic.poll_preserves [of "\<lambda>s. report_step\<^sup>*\<^sup>* r (r\<lparr>rp_ledger := s\<rparr>)"])
  fix u live s assume s: "report_step\<^sup>*\<^sup>* r (r\<lparr>rp_ledger := s\<rparr>)"
  show "report_step\<^sup>*\<^sup>* r (r\<lparr>rp_ledger := fst (traffic_ensure_user u s)\<rparr>)"
    using rtranclp.rtrancl_into_rtrancl [OF s report_step.ensure [of _ u]] by simp
  show "report_step\<^sup>*\<^sup>* r (r\<lparr>rp_ledger := traffic_remove_stale_users live s\<rparr>)"
    using rtranclp.rtrancl_into_rtrancl [OF s report_step.remove [of _ live]] assms by simp
qed simp

lemma supervise_facts:
  assumes wf: "node_wf nd" and b: "grows (nd_backend nd) b" "ledgers_ok b" "tables_ok b (br_user_tables b)"
    "conn_inv \<lparr>cw_ledger = br_conns b, cw_guards = node_guards nd\<rparr>"
  shows "node_wf (supervise C binds b nd)" "node_bytes (supervise C binds b nd) = node_bytes nd"
    "nd_backend (supervise C binds b nd) = b" "nd_inflight (supervise C binds b nd) = nd_inflight nd"
    "nd_accepted (supervise C binds b nd) = nd_accepted nd"
proof -
  let ?acts = "drop (length (br_log (nd_backend nd))) (br_log b)"
  obtain ts us where f: "fold (perform C binds) ?acts (nd_tcp nd, nd_udp nd) = (ts, us)" by fastforce
  have sup: "supervise C binds b nd = nd\<lparr>nd_backend := b, nd_tcp := ts, nd_udp := us\<rparr>" by (simp add: supervise_def f)
  have same: "same_relays b (nd_tcp nd, nd_udp nd) (ts, us)"
    using same_relays_fold [where w = "(nd_tcp nd, nd_udp nd)" and C = C and binds = binds and acts = ?acts and b = b] by (simp add: f)
  have "\<forall>l \<in> set (nd_tcp nd). listener_wf b l" "\<forall>l \<in> set (nd_udp nd). udp_wf b l"
    using wf b(1) by (auto simp: node_wf_def intro: listener_wf_grows udp_wf_grows)
  then show "node_wf (supervise C binds b nd)"
    using same b by (simp add: node_wf_def sup same_relays_def node_guards_def)
  show "node_bytes (supervise C binds b nd) = node_bytes nd"
    using same by (simp add: sup same_relays_def node_bytes_def fun_eq_iff)
qed (simp_all add: supervise_def case_prod_beta Let_def)

lemma aux_same:
  "br_traffic (fst (report_auxiliary_state w b)) = br_traffic b" "br_conns (fst (report_auxiliary_state w b)) = br_conns b"
  "br_speeds (fst (report_auxiliary_state w b)) = br_speeds b" "br_user_tables (fst (report_auxiliary_state w b)) = br_user_tables b"
  by (auto simp: report_auxiliary_state_def Let_def split: sum.split)

lemma node_wf_cong:
  fixes nd nd' :: "('cc, 're) node"
  assumes "node_wf nd" "br_traffic (nd_backend nd') = t" "traffic_ok t" "length (tl_arcs t) = length (tl_arcs (br_traffic (nd_backend nd)))"
    "br_conns (nd_backend nd') = br_conns (nd_backend nd)" "br_speeds (nd_backend nd') = br_speeds (nd_backend nd)"
    "br_user_tables (nd_backend nd') = br_user_tables (nd_backend nd)" "nd_tcp nd' = nd_tcp nd" "nd_udp nd' = nd_udp nd"
  shows "node_wf nd'"
proof -
  have "grows (nd_backend nd) (nd_backend nd')" using assms by (simp add: grows_def)
  then show ?thesis using assms
    by (auto simp: node_wf_def ledgers_ok_def node_guards_def intro: tables_ok_grows listener_wf_grows udp_wf_grows)
qed

text \<open>Every step keeps the node well-formed and follows the reporting protocol.\<close>

definition node_inv :: "('cc, 're) node \<Rightarrow> bool" where
  "node_inv nd \<longleftrightarrow> node_wf nd \<and> (\<exists>r. accounts nd r)"

lemma node_inv_relay:
  assumes inv: "node_inv nd" and ch: "charges (br_traffic (nd_backend nd)) (br_traffic (nd_backend nd')) (node_bytes nd) (node_bytes nd')"
    and k: "keeps (nd_backend nd) (nd_backend nd')" and same: "nd_inflight nd' = nd_inflight nd" "nd_accepted nd' = nd_accepted nd"
    and tcp: "\<forall>l \<in> set (nd_tcp nd'). l \<in> set (nd_tcp nd) \<or> listener_wf (nd_backend nd') l"
    and udp: "\<forall>l \<in> set (nd_udp nd'). l \<in> set (nd_udp nd) \<or> udp_wf (nd_backend nd') l"
    and slots: "conn_inv \<lparr>cw_ledger = br_conns (nd_backend nd'), cw_guards = node_guards nd'\<rparr>"
  shows "node_inv nd'"
proof -
  note wf = inv [unfolded node_inv_def node_wf_def]
  have g: "grows (nd_backend nd) (nd_backend nd')" using k charges_arcs [OF ch] by (simp add: keeps_def grows_def)
  have "ledgers_ok (nd_backend nd')"
    using wf k charges_ok [OF ch] by (auto simp: ledgers_ok_def keeps_def conn_ok_def speed_ok_def)
  moreover have "tables_ok (nd_backend nd') (br_user_tables (nd_backend nd'))"
    using wf k tables_ok_grows [OF g] by (auto simp: keeps_def)
  moreover have "\<forall>l \<in> set (nd_tcp nd'). listener_wf (nd_backend nd') l" using tcp wf listener_wf_grows [OF g] by blast
  moreover have "\<forall>l \<in> set (nd_udp nd'). udp_wf (nd_backend nd') l" using udp wf udp_wf_grows [OF g] by blast
  ultimately have "node_wf nd'" using slots by (simp add: node_wf_def)
  moreover have "\<exists>r'. accounts nd' r'" using inv accounts_charge [OF _ ch same] by (auto simp: node_inv_def)
  ultimately show ?thesis by (simp add: node_inv_def)
qed

lemma node_inv_tcp:
  assumes inv: "node_inv nd" and i: "i < length (nd_tcp nd)" and r: "listener_wake C m e (nd_tcp nd ! i, nd_backend nd) = (l, b)"
  shows "node_inv (nd\<lparr>nd_backend := b, nd_tcp := (nd_tcp nd)[i := l]\<rparr>)" (is "node_inv ?nd")
proof -
  note wf = inv [unfolded node_inv_def node_wf_def]
  have "\<forall>l \<in> set (nd_tcp nd). listener_wf (nd_backend nd) l" "tables_ok (nd_backend nd) (br_user_tables (nd_backend nd))"
    using wf by simp_all
  note one = tcp_rt.wake_one [OF i this r]
  have "charges (br_traffic (nd_backend nd)) (br_traffic b) (node_bytes nd) (node_bytes ?nd)"
    by (rule charges_lift [OF one [THEN conjunct1]]) (simp add: node_bytes_total)
  moreover have "conn_inv \<lparr>cw_ledger = br_conns b, cw_guards = node_guards ?nd\<rparr>"
    using one wf by (auto simp: node_guards_def dest: spec [of _ "[]"])
  ultimately show ?thesis using one by (intro node_inv_relay [OF inv]) simp_all
qed

lemma node_inv_udp:
  assumes inv: "node_inv nd" and i: "i < length (nd_udp nd)" and r: "udp_wake C m e (nd_udp nd ! i, nd_backend nd) = (l, b)"
  shows "node_inv (nd\<lparr>nd_backend := b, nd_udp := (nd_udp nd)[i := l]\<rparr>)" (is "node_inv ?nd")
proof -
  note wf = inv [unfolded node_inv_def node_wf_def]
  have "\<forall>l \<in> set (nd_udp nd). udp_wf (nd_backend nd) l" "tables_ok (nd_backend nd) (br_user_tables (nd_backend nd))"
    using wf by simp_all
  note one = udp_rt.wake_one [OF i this r]
  have "charges (br_traffic (nd_backend nd)) (br_traffic b) (node_bytes nd) (node_bytes ?nd)"
    by (rule charges_lift [OF one [THEN conjunct1]]) (simp add: node_bytes_total)
  moreover have "conn_inv \<lparr>cw_ledger = br_conns b, cw_guards = node_guards ?nd\<rparr>"
    using one wf by (auto simp: node_guards_def concat_map_Nil)
  ultimately show ?thesis using one by (intro node_inv_relay [OF inv]) simp_all
qed

lemma node_inv_supervise:
  assumes inv: "node_inv nd" "nd_inflight nd = None"
    and b: "grows (nd_backend nd) b" "ledgers_ok b" "tables_ok b (br_user_tables b)"
    "conn_inv \<lparr>cw_ledger = br_conns b, cw_guards = node_guards nd\<rparr>"
    and t: "br_traffic b = br_traffic (nd_backend nd) \<or> (\<exists>rows. br_traffic b = traffic.poll rows (br_traffic (nd_backend nd)))"
  shows "node_inv (supervise C binds b nd)"
proof -
  have wf: "node_wf nd" using inv by (simp add: node_inv_def)
  note sf = supervise_facts [OF wf b, of C binds]
  obtain r where r: "accounts nd r" using inv by (auto simp: node_inv_def)
  have led: "r\<lparr>rp_ledger := br_traffic (nd_backend nd)\<rparr> = r" "rp_ledger r = br_traffic (nd_backend nd)" "rp_inflight r = None"
    using r inv(2) by (cases r; auto simp: accounts_def)+
  have "report_step\<^sup>*\<^sup>* r (r\<lparr>rp_ledger := br_traffic b\<rparr>)"
    using t poll_steps [OF led(3)] by (elim disjE exE) (simp_all add: led)
  then have "\<exists>r'. accounts (supervise C binds b nd) r'"
    using accounts_ledger [OF r, of "supervise C binds b nd"] sf by simp
  then show ?thesis using sf(1) by (simp add: node_inv_def)
qed

lemma node_inv_answer:
  assumes inv: "node_inv nd" and ds: "nd_inflight nd = Some ds"
  shows "node_inv (node_step C m re_new (Answer w) nd)"
proof -
  let ?b = "nd_backend nd"
  obtain r where r: "accounts nd r" and wf: "node_wf nd" using inv by (auto simp: node_inv_def)
  have fl: "rp_inflight r = Some ds" "rp_ledger r = br_traffic ?b" using r ds by (simp_all add: accounts_def)
  show ?thesis
  proof (cases "panel_report_traffic w (pc_node_id (cfg_panel (br_config ?b))) ds")
    case (Inl e)
    let ?nd = "nd\<lparr>nd_inflight := None\<rparr>"
    have "report_step r (r\<lparr>rp_inflight := None\<rparr>)" by (rule report_step.refused [OF fl(1)])
    then have "accounts ?nd (r\<lparr>rp_inflight := None\<rparr>)" using r by (auto simp: accounts_def node_bytes_def)
    moreover have "node_wf ?nd" using wf by (simp add: node_wf_def node_guards_def)
    ultimately show ?thesis using ds Inl by (auto simp: node_inv_def)
  next
    case (Inr x)
    let ?nd = "nd\<lparr>nd_backend := ?b\<lparr>br_traffic := mark_reported ds (br_traffic ?b)\<rparr>, nd_inflight := None,
       nd_accepted := map (\<lambda>d. (the (traffic_ptr (br_traffic ?b) (td_user_id d)), d)) ds @ nd_accepted nd\<rparr>"
    have "report_step\<^sup>*\<^sup>* reporter_init (r\<lparr>rp_ledger := mark_reported ds (rp_ledger r), rp_inflight := None,
      rp_accepted := map (\<lambda>d. (the (traffic_ptr (rp_ledger r) (td_user_id d)), d)) ds @ rp_accepted r\<rparr>)"
      using report_step.accepted [OF fl(1)] r by (auto simp: accounts_def)
    then have "\<exists>r'. accounts ?nd r'" using r fl by (intro exI) (auto simp: accounts_def node_bytes_def)
    moreover have "node_wf ?nd"
      by (rule node_wf_cong [OF wf refl]) (use wf in \<open>simp_all add: node_wf_def ledgers_ok_def traffic_ok_mark\<close>)
    ultimately show ?thesis using ds Inr by (simp add: node_inv_def Let_def)
  qed
qed

lemma node_inv_collect:
  assumes inv: "node_inv nd" and idle: "nd_inflight nd = None" "pending_deltas (br_traffic (nd_backend nd)) \<noteq> []"
  shows "node_inv (nd\<lparr>nd_inflight := Some (pending_deltas (br_traffic (nd_backend nd)))\<rparr>)" (is "node_inv ?nd")
proof -
  obtain r where r: "accounts nd r" and wf: "node_wf nd" using inv by (auto simp: node_inv_def)
  let ?ds = "pending_deltas (rp_ledger r)"
  have led: "rp_ledger r = br_traffic (nd_backend nd)" "rp_inflight r = None" using r idle by (simp_all add: accounts_def)
  have "report_step r (r\<lparr>rp_inflight := Some ?ds\<rparr>)" by (rule report_step.collect) (use idle led in simp_all)
  then have "accounts ?nd (r\<lparr>rp_inflight := Some ?ds\<rparr>)" using r by (auto simp: accounts_def node_bytes_def)
  moreover have "node_wf ?nd" using wf by (simp add: node_wf_def node_guards_def)
  ultimately show ?thesis by (auto simp: node_inv_def)
qed

lemma node_inv_auxiliary:
  assumes inv: "node_inv nd"
  shows "node_inv (nd\<lparr>nd_backend := fst (report_auxiliary_state w (nd_backend nd))\<rparr>)" (is "node_inv ?nd")
proof -
  obtain r where r: "accounts nd r" and wf: "node_wf nd" using inv by (auto simp: node_inv_def)
  have "accounts ?nd r" using r by (simp add: accounts_def node_bytes_def aux_same)
  moreover have "node_wf ?nd"
    by (rule node_wf_cong [OF wf refl]) (use wf in \<open>simp_all add: aux_same node_wf_def ledgers_ok_def\<close>)
  ultimately show ?thesis by (auto simp: node_inv_def)
qed

lemma node_inv_step:
  assumes inv: "node_inv nd"
  shows "node_inv (node_step C m re_new e nd)"
proof (cases e)
  case (Supervise t binds)
  note wf = inv [unfolded node_inv_def node_wf_def]
  show ?thesis
  proof (cases "own_turn t \<and> nd_inflight nd = None")
    case True
    then have "node_inv (supervise C binds (run_turn C re_new t (nd_backend nd)) nd)"
      using own_turn_facts [OF _ refl, of t "nd_backend nd" "node_guards nd" C re_new] wf
      by (intro node_inv_supervise [OF inv]) auto
    then show ?thesis using Supervise True by simp
  qed (use Supervise inv in auto)
next
  case Shutdown
  note wf = inv [unfolded node_inv_def node_wf_def]
  show ?thesis
  proof (cases "nd_inflight nd = None")
    case True
    have "node_inv (supervise C (\<lambda>_. True) (stop_all (nd_backend nd)) nd)"
      by (rule node_inv_supervise [OF inv True])
        (use wf in \<open>simp_all add: stop_all_def grows_def ledgers_ok_def tables_ok_def\<close>)
    then show ?thesis using Shutdown True by simp
  qed (use Shutdown inv in auto)
next
  case Collect
  then show ?thesis using node_inv_collect [OF inv] inv by (simp add: Let_def)
next
  case (Answer w)
  then show ?thesis using node_inv_answer [OF inv, of _ C m re_new w] inv by (cases "nd_inflight nd") simp_all
next
  case (Auxiliary w)
  then show ?thesis using node_inv_auxiliary [OF inv, of w] inv by simp
next
  case (OnTcp i w)
  then show ?thesis using node_inv_tcp [OF inv, of i C m w] inv by (auto split: prod.split)
next
  case (OnUdp i w)
  then show ?thesis using node_inv_udp [OF inv, of i C m w] inv by (auto split: prod.split)
qed

lemma node_inv_new: "node_inv (node_new c now)"
proof -
  have "accounts (node_new c now) reporter_init"
    by (simp add: accounts_def node_new_def backend_new_def reporter_init_def node_bytes_def counted_def)
  moreover have "node_wf (node_new c now)"
    using ledgers_ok_samples(2) [of c now]
    by (simp add: node_wf_def node_new_def tables_ok_def backend_new_def tables_default_def hm_get_def
        conn_inv_def conn_default_def node_guards_def)
  ultimately show ?thesis by (auto simp: node_inv_def)
qed

lemma node_inv_run: "node_inv (node_run C m re_new c now es)"
  unfolding node_run_def by (rule fold_invariant [where P = node_inv and Q = "\<lambda>_. True"]) (simp_all add: node_inv_new node_inv_step)

end
