(* ===== verification/Node_Runs.thy ===== *)
theory Node_Runs
  imports Node_Props Udp_Relay
begin

text \<open>
  What holds of the node in every run: well-formedness, exact accounting of the relayed bytes and
  exact device slots, whatever the order of polls, reports, accepts, reads, datagrams and closes.
\<close>

definition node_accepted :: "direction \<Rightarrow> nat \<Rightarrow> ('cc, 're) node \<Rightarrow> nat" where
  "node_accepted dir p nd = sum_list (map (\<lambda>(q, d). if q = p then unat (dir_delta dir d) else 0) (nd_accepted nd))"

definition node_pending :: "direction \<Rightarrow> u64 \<Rightarrow> ('cc, 're) node \<Rightarrow> nat" where
  "node_pending dir u nd =
     sum_list (map (\<lambda>d. if td_user_id d = u then unat (dir_delta dir d) else 0) (pending_deltas (br_traffic (nd_backend nd))))"

text \<open>Open connections that hold a slot of an address in an address set.\<close>

definition device_conns :: "nat \<Rightarrow> string \<Rightarrow> ('cc, 're) node \<Rightarrow> nat" where
  "device_conns p ip nd =
     length (filter (\<lambda>c. is_open c \<and> tc_guard c = Some \<lparr>cg_set = p, cg_ip = ip\<rparr>) (concat (map ls_conns (nd_tcp nd))))"

text \<open>C16: the node is well-formed in every run. The three ledgers map users one to one to existing
  objects; every counter, address set and limiter the published tables, a connection or a UDP
  association refers to exists; a connection in its handshake belongs to no user yet, a relaying
  one does, and a closed one holds no device slot; free permits and open connections of a listener add up to its
  limit; and each stored address count is the number of guards held.\<close>

theorem node_well_formed: "node_wf (node_run C m re_new c now es)"
  using node_inv_run [of C m re_new c now es] by (simp add: node_inv_def)

text \<open>C6: relayed bytes are billed exactly once. In every run of the node, for a user the ledger knows
  and each direction, what the panel has accepted for the counter of the user plus what the next
  report would hold is the number of bytes the TCP connections and UDP listeners moved for it:
  all bytes read from a client, from its handshake on, and all bytes encrypted for it, once the
  connection belongs to the user, and every accepted datagram and every reply encrypted.\<close>

theorem node_accounting:
  assumes nd: "nd = node_run C m re_new c now es" and u: "traffic_ptr (br_traffic (nd_backend nd)) u = Some p"
    and small: "node_bytes nd dir p < 2 ^ 64"
  shows "node_accepted dir p nd + node_pending dir u nd = node_bytes nd dir p"
proof -
  obtain r where r: "accounts nd r" using node_inv_run [of C m re_new c now es] by (auto simp: nd node_inv_def)
  then have reach: "report_step\<^sup>*\<^sup>* reporter_init r" and ptr: "traffic_ptr (rp_ledger r) u = Some p"
    and cnt: "counted dir p r = node_bytes nd dir p"
    and eq: "accepted_bytes dir p r = node_accepted dir p nd" "pending_bytes dir u r = node_pending dir u nd"
    using u small by (auto simp: accounts_def accepted_bytes_def node_accepted_def pending_bytes_def node_pending_def)
  show ?thesis using reachable_inv [OF reach] live_difference(2) [OF _ _ _ ptr, of dir] ptr small
    by (simp add: reporter_inv_def pending_bytes_live cnt flip: eq)
qed

lemma guards_live:
  assumes "node_wf nd"
  shows "live_conns p ip \<lparr>cw_ledger = s, cw_guards = node_guards nd\<rparr> = device_conns p ip nd"
proof -
  have one: "length (filter (\<lambda>g. cg_set g = p \<and> cg_ip g = ip) (conn_guards c)) =
      (if is_open c \<and> tc_guard c = Some \<lparr>cg_set = p, cg_ip = ip\<rparr> then 1 else 0)" if "conn_wf b c" for c :: "'c tcp_conn" and b :: "'re backend"
    using that by (auto simp: conn_guards_def conn_wf_def is_open_def split: option.split phase.splits)
  have conns: "length (filter (\<lambda>g. cg_set g = p \<and> cg_ip g = ip) (concat (map conn_guards cs))) =
      length (filter (\<lambda>c. is_open c \<and> tc_guard c = Some \<lparr>cg_set = p, cg_ip = ip\<rparr>) cs)"
    if "\<forall>c \<in> set cs. conn_wf b c" for cs :: "'c tcp_conn list" and b :: "'re backend"
    using that by (induction cs) (use one in \<open>fastforce split: if_splits\<close>)+
  have "length (filter (\<lambda>g. cg_set g = p \<and> cg_ip g = ip) (concat (map listener_guards ls))) =
      length (filter (\<lambda>c. is_open c \<and> tc_guard c = Some \<lparr>cg_set = p, cg_ip = ip\<rparr>) (concat (map ls_conns ls)))"
    if "\<forall>l \<in> set ls. listener_wf b l" for ls :: "'c tcp_listener list" and b :: "'re backend"
    using that
  proof (induction ls)
    case (Cons l ls)
    then show ?case using conns [of "ls_conns l" b] by (simp add: listener_guards_def listener_wf_def)
  qed simp
  then show ?thesis using assms by (auto simp: node_wf_def live_conns_def node_guards_def device_conns_def)
qed

text \<open>C10: device slots follow the connections. In every run of the node, the count stored for a client
  address in the address set of a user is the number of open connections holding it, so a slot
  is freed with the last of them, however it ends; and no listener has more open connections
  than its limit.\<close>

theorem node_slots_exact:
  assumes nd: "nd = node_run C m re_new c now es" and u: "conn_ptr (br_conns (nd_backend nd)) u = Some p"
  shows "hm_get (cl_arcs (br_conns (nd_backend nd)) ! p) ip =
      (if device_conns p ip nd = 0 then None else Some (device_conns p ip nd)) \<and>
    list_all (\<lambda>l. open_conns l \<le> tt_max_accepts (ls_task l)) (nd_tcp nd)"
proof -
  have wf: "node_wf nd" using node_inv_run [of C m re_new c now es] by (simp add: nd node_inv_def)
  then have "p < length (cl_arcs (br_conns (nd_backend nd)))"
    using u by (auto simp: node_wf_def ledgers_ok_def conn_ok_def conn_ptr_def intro: table_ok_bound)
  then have "counts_ok (\<lambda>ip. live_conns p ip \<lparr>cw_ledger = br_conns (nd_backend nd), cw_guards = node_guards nd\<rparr>)
      (cl_arcs (br_conns (nd_backend nd)) ! p)"
    using wf by (simp add: node_wf_def conn_inv_def)
  then have "counts_ok (\<lambda>ip. device_conns p ip nd) (cl_arcs (br_conns (nd_backend nd)) ! p)"
    by (simp only: guards_live [OF wf])
  moreover have "list_all (\<lambda>l. open_conns l \<le> tt_max_accepts (ls_task l)) (nd_tcp nd)"
    using wf by (auto simp: list_all_iff node_wf_def listener_wf_def permits_ok_def)
  ultimately show ?thesis by (simp add: counts_ok_def)
qed

subsection \<open>A sample node\<close>

text \<open>A node without audit blocking and speed limits polls a list with one user; then a client of this
  user opens a TCP connection or sends a datagram.\<close>

definition open_config :: config where
  "open_config = sample_config\<lparr>cfg_node := (cfg_node sample_config)\<lparr>nc_audit_block := False, nc_enforce_speed := False\<rparr>\<rparr>"

definition node_row :: panel_user where
  "node_row = (sample_user 7 1001 0)\<lparr>pu_method := Some ''chacha20-ietf''\<rparr>"

abbreviation node_profile :: profile where
  "node_profile \<equiv> \<lparr>pf_method = ''chacha20-ietf'', pf_protocol = ''auth_aes128_md5'', pf_obfs = ''plain'', pf_timeout = duration_secs 300\<rparr>"

definition node_poll :: "panel_user list node_event" where
  "node_poll = Supervise (Poll (sample_web [node_row]) 1) (\<lambda>_. True)"

definition polled_node :: "(nat, unit) node" where
  "polled_node = node_run sample_crypto (\<lambda>_ _. False) (\<lambda>_. None) open_config 0 [node_poll]"

lemma node_row_simps [simp]:
  "panel_user_id node_row = 7" "pu_is_multi_user node_row = 0" "pu_port node_row = 1001" "pu_password node_row = ''pw''"
  by (simp_all add: node_row_def panel_user_id_def sample_user_def)

lemma node_row_profile:
  "profile_from_user node_row (cfg_node open_config) = Inr node_profile"
  by (simp add: profile_from_user_def node_row_def sample_user_def open_config_def sample_config_def config_of_toml_def minimal_toml_def
      node_defaults_def node_timeout_def profile_new_def ensure_supported_def from_method_def Let_def
      to_ascii_lowercase_def ascii_lower_def code_def)

lemma node_panel: "panel_users (sample_web [node_row]) n = Inr [node_row]"
  by (simp add: panel_users_def get_api_optional_def unwrap_ret_def sample_web_def is_enabled_def node_row_def sample_user_def)

lemma polled_backend:
  "nd_backend polled_node = expire_local_state 1 (refresh_detect_rules (\<lambda>_. None) (sample_web [node_row])
     (apply_users sample_crypto 1 [node_row] (backend_new open_config 0)))"
  by (simp add: polled_node_def node_run_def node_poll_def node_new_def supervise_def sync_users_def node_panel Let_def case_prod_beta)
   (simp add: backend_new_def open_config_def sample_config_def config_of_toml_def minimal_toml_def limits_defaults_def)

lemma refresh_fields:
  "br_traffic (refresh_detect_rules r w b) = br_traffic b" "br_conns (refresh_detect_rules r w b) = br_conns b"
  "br_user_tables (refresh_detect_rules r w b) = br_user_tables b" "br_log (refresh_detect_rules r w b) = br_log b"
  by (auto simp: refresh_detect_rules_def split: sum.split)

lemma polled_ledgers:
  "br_traffic (nd_backend polled_node) = \<lparr>tl_arcs = [counters_default], tl_counters = [(7, 0)], tl_checkpoints = [(7, snapshot_default)]\<rparr>"
  "br_conns (nd_backend polled_node) = \<lparr>cl_arcs = [[]], cl_state = [(7, 0)]\<rparr>"
  by (simp_all add: polled_backend expire_local_state_def refresh_fields apply_users_ledgers backend_new_def
      traffic.ensure_all_def conns.ensure_all_def traffic.poll_def conns.poll_def traffic_ensure_user_def
      conn_ensure_user_def traffic_default_def conn_default_def traffic_remove_stale_users_def conn_remove_stale_users_def
      hm_simps Let_def traffic_ptr_def conn_ptr_def hm_get_def hm_retain_def or_default_def)

lemma node_row_policy: "\<not> needs_connection_policy (policy_from_user node_row)"
  by (simp add: policy_from_user_def needs_connection_policy_def parse_list_def conn_limit_of_def node_row_def sample_user_def)

lemma polled_tables:
  "hm_get (ut_counters_by_user (br_user_tables (nd_backend polled_node))) 7 = Some 0"
  "hm_get (ut_auth_users (br_user_tables (nd_backend polled_node))) 0 = None"
  "hm_get (ut_policies (br_user_tables (nd_backend polled_node))) 7 = None"
  by (simp_all add: node_row_policy polled_backend expire_local_state_def refresh_fields apply_users_split sv_simps tabled_def sync_row_def
      backend_new_def traffic_ensure_user_def conn_ensure_user_def traffic_default_def conn_default_def hm_simps hm_get_def
      Let_def tables_default_def case_prod_beta)

lemma listened_row:
  fixes b :: "unit backend"
  assumes "br_active_users b = []" "br_log b = []" "br_config b = open_config"
  shows "br_log (listened [node_row] b) =
    [SpawnTcp (spawn_tcp open_config node_row node_profile), SpawnUdp (spawn_udp open_config node_row node_profile)]"
proof -
  have on: "nc_tcp_enabled (cfg_node open_config)" "nc_udp_enabled (cfg_node open_config)"
    by (simp_all add: open_config_def sample_config_def config_of_toml_def minimal_toml_def node_defaults_def)
  show ?thesis using assms
    by (simp add: listened_def listener_users_def node_row_profile ensure_active_user_def stop_stale_ports_def hm_keys_def
        hm_simps hm_get_def hm_remove_def Let_def on)
qed

lemma node_profile_cipher: "profile_cipher_kind node_profile = Inr Chacha20Ietf"
  by (simp add: profile_cipher_kind_def from_method_def to_ascii_lowercase_def ascii_lower_def code_def)

lemma polled_relays:
  "\<exists>l. nd_udp polled_node = [l] \<and> udp_listen sample_crypto (spawn_udp open_config node_row node_profile) = Inr l"
  "\<exists>l. nd_tcp polled_node = [l] \<and> tcp_listen (spawn_tcp open_config node_row node_profile) = Inr l"
proof -
  let ?b = "backend_new open_config 0 :: unit backend"
  let ?t = "spawn_tcp open_config node_row node_profile" and ?u = "spawn_udp open_config node_row node_profile"
  have log: "br_log (nd_backend polled_node) = [SpawnTcp ?t, SpawnUdp ?u]"
    using listened_row [of "tabled sample_crypto 1 [node_row] ?b"]
    by (simp add: polled_backend expire_local_state_def refresh_fields apply_users_split sv_simps backend_new_def)
  have sup: "polled_node = supervise sample_crypto (\<lambda>_. True) (nd_backend polled_node) (node_new open_config 0)"
    by (simp add: polled_node_def node_run_def node_poll_def node_new_def supervise_def Let_def case_prod_beta)
  have none: "br_log (nd_backend (node_new open_config 0 :: (nat, unit) node)) = []"
    "nd_tcp (node_new open_config 0 :: (nat, unit) node) = []" "nd_udp (node_new open_config 0 :: (nat, unit) node) = []"
    by (simp_all add: node_new_def backend_new_def)
  have ud: "ud_profile (spawn_udp open_config node_row node_profile) = node_profile"
     "tt_profile (spawn_tcp open_config node_row node_profile) = node_profile" by (simp_all add: spawn_udp_def spawn_tcp_def)
  obtain l :: "nat tcp_listener" and k where lk: "tcp_listen (spawn_tcp open_config node_row node_profile) = Inr l"
    "udp_listen sample_crypto (spawn_udp open_config node_row node_profile) = Inr k"
    unfolding tcp_listen_def udp_listen_def ud node_profile_cipher by simp
  have "fold (perform sample_crypto (\<lambda>_. True)) (br_log (nd_backend polled_node)) ([], []) = ([l], [k])"
    by (simp add: log lk)
  then have "nd_tcp polled_node = [l]" "nd_udp polled_node = [k]"
    by (subst sup, simp add: supervise_def none Let_def)+
  with lk show "\<exists>l. nd_udp polled_node = [l] \<and> udp_listen sample_crypto ?u = Inr l"
    "\<exists>l. nd_tcp polled_node = [l] \<and> tcp_listen ?t = Inr l"
    by simp_all
qed

lemma polled_step:
  "node_run sample_crypto (\<lambda>_ _. False) (\<lambda>_. None) open_config 0 [node_poll, e] =
     node_step sample_crypto (\<lambda>_ _. False) (\<lambda>_. None) e polled_node"
  by (simp add: node_run_def polled_node_def)

theorem node_accounting_witness:
  "\<exists>enc. node_accepted Upload 0 (node_run sample_crypto (\<lambda>(_ :: unit) _. False) (\<lambda>_. None) open_config 0
        [node_poll, OnUdp 0 (Received sample_env 1 (sample_datagram enc) sample_peer)]) +
      node_pending Upload 7 (node_run sample_crypto (\<lambda>(_ :: unit) _. False) (\<lambda>_. None) open_config 0
        [node_poll, OnUdp 0 (Received sample_env 1 (sample_datagram enc) sample_peer)]) = 28"
proof -
  obtain enc where enc: "new_stream sample_crypto Chacha20Ietf sample_key sample_civ = Inr enc" using sample_encryptor by blast
  let ?es = "[node_poll, OnUdp 0 (Received sample_env 1 (sample_datagram enc) sample_peer)]"
  let ?nd = "node_run sample_crypto (\<lambda>(_ :: unit) _. False) (\<lambda>_. None) open_config 0 ?es"
  obtain l where l: "nd_udp polled_node = [l]" "udp_listen sample_crypto (spawn_udp open_config node_row node_profile) = Inr l"
    using polled_relays by blast
  let ?b = "nd_backend polled_node" and ?l = "l\<lparr>ul_associations := tm_expire 1 (ul_associations l)\<rparr>"
  have lf: "ul_cipher l = Chacha20Ietf" "ul_master_key l = sample_key" "ud_is_multi_user (ul_task l) = 0" "ud_user_id (ul_task l) = 7"
      "ul_charged l = []" "ul_running l"
      "ul_associations l = tm_new (ud_association_ttl (ul_task l)) (ud_max_associations (ul_task l))"
    using l(2) by (auto simp: udp_listen_def spawn_udp_def node_profile_cipher sample_key_def)
  have acc: "accepts sample_crypto ?l (br_user_tables ?b) (take BUF_SIZE (sample_datagram enc)) 7 sample_key 0 sample_payload"
  proof -
    have u: "udp_user sample_key (hm_get (ut_auth_users (br_user_tables ?b))) 0 sample_civ (word_of_nat (unat (0 :: u32))) = (sample_key, None)"
      by (simp add: udp_user_def polled_tables)
    have "udp_decrypt_packet sample_crypto sample_key (hm_get (ut_auth_users (br_user_tables ?b))) 0 (sample_datagram enc) Chacha20Ietf =
        Inr (sample_payload, None)"
      unfolding sample_datagram_def by (rule udp_request_decodes [OF sample_crypto_ok enc _ u]) (simp add: sample_facts(1))
    then show ?thesis
      by (simp add: accepts_def lf response_key_of_def conn_counters_def polled_tables BUF_SIZE_def length_sample_datagram)
  qed
  obtain l' b' where r: "udp_wake sample_crypto (\<lambda>_ _. False) (Received sample_env 1 (sample_datagram enc) sample_peer) (l, ?b) = (l', b')"
    by fastforce
  then have h: "fst (handle_inbound sample_crypto (\<lambda>_ _. False) sample_env 1 (br_user_tables ?b) (take BUF_SIZE (sample_datagram enc))
      sample_peer ?l ?b) = (l', b')" by (simp add: lf udp_receive_def)
  have ok: "tm_ok (ul_associations ?l)" by (simp add: lf(7) tm_ok_new tm_ok_expire)
  have none: "tm_lookup (ul_associations ?l) j = None" for j by (simp add: lf(7) tm_lookup_expire tm_ok_new)
  have ch: "ul_charged l' = [(0, Upload, sample_datagram enc)]" "br_traffic b' = count_bytes Upload 0 28 (br_traffic ?b)"
    using handle_accepted [OF ok acc h, of 1] none
    by (auto simp: only_events_def lf BUF_SIZE_def length_sample_datagram)
  have nd: "?nd = polled_node\<lparr>nd_backend := b', nd_udp := [l']\<rparr>"
    using r by (simp add: polled_step l)
  obtain k where k: "nd_tcp polled_node = [k]" "tcp_listen (spawn_tcp open_config node_row node_profile) = Inr k"
    using polled_relays by blast
  have bytes: "node_bytes ?nd Upload 0 = 28"
    unfolding nd by (simp add: node_bytes_def k new_listener_facts(1) [OF k(2)] udp_bytes_def ch length_sample_datagram)
  have "traffic_ptr (br_traffic (nd_backend ?nd)) 7 = Some 0"
    unfolding nd by (simp add: ch polled_ledgers count_bytes_def traffic_ptr_def hm_get_def)
  from node_accounting [OF refl this, of Upload] bytes show ?thesis by (intro exI [of _ enc]) simp
qed

text \<open>A TCP connection is accepted and still in its handshake: it is open and holds no slot.\<close>

theorem node_slots_exact_witness:
  "\<exists>nd :: (nat, unit) node. nd = node_run sample_crypto (\<lambda>_ _. False) (\<lambda>_. None) open_config 0
       [node_poll, OnTcp 0 (Accepted sample_rand sample_peer)] \<and>
     conn_ptr (br_conns (nd_backend nd)) 7 = Some 0 \<and> map open_conns (nd_tcp nd) = [1] \<and>
     hm_get (cl_arcs (br_conns (nd_backend nd)) ! 0) ''10.0.0.1'' = None"
proof -
  let ?nd = "node_run sample_crypto (\<lambda>(_ :: unit) _. False) (\<lambda>_. None) open_config 0
     [node_poll, OnTcp 0 (Accepted sample_rand sample_peer)]"
  obtain k where k: "nd_tcp polled_node = [k]" "tcp_listen (spawn_tcp open_config node_row node_profile) = Inr k"
    using polled_relays by blast
  have kf: "ls_running k" "ls_conns k = []" "ls_cipher k = Chacha20Ietf" "ls_permits k \<noteq> 0"
    using k(2) by (auto simp: tcp_listen_def spawn_tcp_def node_profile_cipher)
  have "\<exists>c. tcp_open sample_crypto sample_rand (accept_context (ls_task k) Chacha20Ietf t sample_peer) = Inr c" for t
  proof -
    have "sample_rand (iv_len Chacha20Ietf) = Some (replicate (iv_len Chacha20Ietf) 3)" by (simp add: sample_rand_def)
    from session_new_total [where rand = sample_rand and k = Chacha20Ietf, OF sample_crypto_ok this]
    obtain s where "session_new sample_crypto sample_rand (tt_password (ls_task k)) (hm_get (ut_auth_users t))
        (tt_is_multi_user (ls_task k)) Chacha20Ietf = Inr s" by simp blast
    then show ?thesis by (simp add: tcp_open_def accept_context_def)
  qed
  then obtain c where c: "tcp_open sample_crypto sample_rand
      (accept_context (ls_task k) Chacha20Ietf (br_user_tables (nd_backend polled_node)) sample_peer) = Inr c" by blast
  then have cf: "is_open c" "tc_guard c = None" by (auto simp: tcp_open_def is_open_def split: sum.splits)
  have nd: "?nd = polled_node\<lparr>nd_tcp := [k\<lparr>ls_permits := ls_permits k - 1, ls_conns := [c]\<rparr>]\<rparr>"
    by (simp add: polled_step k(1) tcp_accept_def kf c)
  have ptr: "conn_ptr (br_conns (nd_backend ?nd)) 7 = Some 0" by (simp add: nd polled_ledgers conn_ptr_def hm_get_def)
  have "device_conns 0 ip ?nd = 0" for ip by (simp add: nd device_conns_def cf)
  then have slot: "hm_get (cl_arcs (br_conns (nd_backend ?nd)) ! 0) ''10.0.0.1'' = None"
    using node_slots_exact [OF refl ptr, of "''10.0.0.1''"] by simp
  have opened: "map open_conns (nd_tcp ?nd) = [1]" by (simp add: nd open_conns_def cf)
  show ?thesis by (rule exI, intro conjI, rule refl, rule ptr, rule opened, rule slot)
qed
end
