(* ===== verification/Node_Listeners.thy ===== *)
theory Node_Listeners
  imports Node_Runs
begin

text \<open>
  Which listeners of the node accept: those of the supervisor's active users, at most one per port.
  A listener that was replaced, went stale or was told to stop never accepts again.
\<close>

definition tcp_running :: "'cc tcp_listener list \<Rightarrow> tcp_task list" where
  "tcp_running ts = map ls_task (filter ls_running ts)"

definition udp_running :: "udp_listener list \<Rightarrow> udp_task list" where
  "udp_running us = map ul_task (filter ul_running us)"

definition tcp_current :: "(u16, active_user) hashmap \<Rightarrow> tcp_task \<Rightarrow> bool" where
  "tcp_current active t \<longleftrightarrow> (\<exists>a. hm_get active (tt_port t) = Some a \<and> act_tcp a = Some t)"

definition udp_current :: "(u16, active_user) hashmap \<Rightarrow> udp_task \<Rightarrow> bool" where
  "udp_current active t \<longleftrightarrow> (\<exists>a. hm_get active (ud_port t) = Some a \<and> act_udp a = Some t)"

definition listens :: "(u16, active_user) hashmap \<Rightarrow> 'cc tcp_listener list \<times> udp_listener list \<Rightarrow> bool" where
  "listens active w \<longleftrightarrow>
     distinct (tcp_running (fst w)) \<and> list_all (tcp_current active) (tcp_running (fst w)) \<and>
     distinct (udp_running (snd w)) \<and> list_all (udp_current active) (udp_running (snd w))"

subsection \<open>Actions\<close>

lemma running_stop_tcp: "tcp_running (stop_tcp_task t ts) = filter (\<lambda>u. u \<noteq> t) (tcp_running ts)"
  by (induction ts) (auto simp: tcp_running_def stop_tcp_task_def)

lemma running_stop_udp: "udp_running (stop_udp_task t us) = filter (\<lambda>u. u \<noteq> t) (udp_running us)"
  by (induction us) (auto simp: udp_running_def stop_udp_task_def udp_stop_def)

lemma running_append: "tcp_running (ts @ ts') = tcp_running ts @ tcp_running ts'" "udp_running (us @ us') = udp_running us @ udp_running us'"
  by (simp_all add: tcp_running_def udp_running_def)

lemma running_perform_stop:
  "fold (perform C binds) (active_stop a) w = (w1, w2) \<Longrightarrow>
     tcp_running w1 = filter (\<lambda>t. act_tcp a \<noteq> Some t) (tcp_running (fst w)) \<and>
     udp_running w2 = filter (\<lambda>t. act_udp a \<noteq> Some t) (udp_running (snd w))"
  by (cases w; cases "act_tcp a"; cases "act_udp a")
    (auto simp: active_stop_def running_stop_tcp running_stop_udp intro: filter_cong)

lemma running_spawn:
  "tcp_running (fst (perform C binds (SpawnTcp t) (ts, us))) \<in> {tcp_running ts, tcp_running ts @ [t]}"
  "snd (perform C binds (SpawnTcp t) (ts, us)) = us"
  "udp_running (snd (perform C binds (SpawnUdp u) (ts, us))) \<in> {udp_running us, udp_running us @ [u]}"
  "fst (perform C binds (SpawnUdp u) (ts, us)) = ts"
  by (auto simp: running_append tcp_running_def udp_running_def tcp_listen_def udp_listen_def split: sum.splits)

text \<open>The entry of a port goes: its tasks are stopped.\<close>

lemma listens_stop:
  assumes l: "listens active w" and a: "hm_get active q = Some a"
  shows "listens (hm_remove q active) (fold (perform C binds) (active_stop a) w)"
proof -
  obtain w1 w2 where f: "fold (perform C binds) (active_stop a) w = (w1, w2)" by fastforce
  have "tcp_current (hm_remove q active) t" if "tcp_current active t" "act_tcp a \<noteq> Some t" for t
    using that a by (auto simp: tcp_current_def hm_simps)
  moreover have "udp_current (hm_remove q active) t" if "udp_current active t" "act_udp a \<noteq> Some t" for t
    using that a by (auto simp: udp_current_def hm_simps)
  ultimately show ?thesis using l running_perform_stop [OF f] by (auto simp: listens_def f list_all_iff)
qed

text \<open>A port without entry gets one: its tasks are started.\<close>

definition spawns :: "active_user \<Rightarrow> action list" where
  "spawns a = (case act_tcp a of Some t \<Rightarrow> [SpawnTcp t] | None \<Rightarrow> []) @ (case act_udp a of Some t \<Rightarrow> [SpawnUdp t] | None \<Rightarrow> [])"

lemma running_spawns:
  assumes "fold (perform C binds) (spawns a) w = (w1, w2)"
  shows "(tcp_running w1 = tcp_running (fst w) \<or> (\<exists>t. act_tcp a = Some t \<and> tcp_running w1 = tcp_running (fst w) @ [t])) \<and>
    (udp_running w2 = udp_running (snd w) \<or> (\<exists>t. act_udp a = Some t \<and> udp_running w2 = udp_running (snd w) @ [t]))"
proof -
  obtain ts us where w: "w = (ts, us)" by (cases w)
  obtain ts1 us1 where one: "fold (perform C binds) (case act_tcp a of Some t \<Rightarrow> [SpawnTcp t] | None \<Rightarrow> []) (ts, us) = (ts1, us1)"
    by fastforce
  have "us1 = us \<and> (tcp_running ts1 = tcp_running ts \<or> (\<exists>t. act_tcp a = Some t \<and> tcp_running ts1 = tcp_running ts @ [t]))"
    using one running_spawn(1,2) [of C binds "the (act_tcp a)" ts us] by (cases "act_tcp a") auto
  moreover have "fold (perform C binds) (case act_udp a of Some t \<Rightarrow> [SpawnUdp t] | None \<Rightarrow> []) (ts1, us1) = (w1, w2)"
    using assms by (simp add: spawns_def w one)
  then have "w1 = ts1 \<and> (udp_running w2 = udp_running us1 \<or> (\<exists>t. act_udp a = Some t \<and> udp_running w2 = udp_running us1 @ [t]))"
    using running_spawn(3,4) [of C binds "the (act_udp a)" ts1 us1] by (cases "act_udp a") auto
  ultimately show ?thesis by (auto simp: w)
qed

lemma listens_spawn:
  assumes l: "listens active w" and none: "hm_get active q = None"
    and ports: "\<And>t. act_tcp a = Some t \<Longrightarrow> tt_port t = q" "\<And>t. act_udp a = Some t \<Longrightarrow> ud_port t = q"
  shows "listens (hm_insert q a active) (fold (perform C binds) (spawns a) w)"
proof -
  obtain w1 w2 where f: "fold (perform C binds) (spawns a) w = (w1, w2)" by fastforce
  have old: "tcp_current active t \<Longrightarrow> tcp_current (hm_insert q a active) t \<and> tt_port t \<noteq> q"
    "udp_current active u \<Longrightarrow> udp_current (hm_insert q a active) u \<and> ud_port u \<noteq> q" for t u
    using none by (auto simp: tcp_current_def udp_current_def hm_simps)
  have new: "act_tcp a = Some t \<Longrightarrow> tcp_current (hm_insert q a active) t"
    "act_udp a = Some u \<Longrightarrow> udp_current (hm_insert q a active) u" for t u
    using ports by (auto simp: tcp_current_def udp_current_def hm_simps)
  have fresh: "tcp_current active t \<Longrightarrow> act_tcp a \<noteq> Some t" "udp_current active u \<Longrightarrow> act_udp a \<noteq> Some u" for t u
    using old ports by blast+
  note rs = running_spawns [OF f]
  have "distinct (tcp_running w1) \<and> list_all (tcp_current (hm_insert q a active)) (tcp_running w1)"
    using rs [THEN conjunct1] l old(1) new(1) fresh(1) by (elim disjE exE) (auto simp: listens_def list_all_iff)
  moreover have "distinct (udp_running w2) \<and> list_all (udp_current (hm_insert q a active)) (udp_running w2)"
    using rs [THEN conjunct2] l old(2) new(2) fresh(2) by (elim disjE exE) (auto simp: listens_def list_all_iff)
  ultimately show ?thesis by (simp add: listens_def f)
qed

subsection \<open>The supervisor\<close>

text \<open>The actions logged on the way from \<open>b\<close> to \<open>b'\<close> keep the listeners in step with the active users.\<close>

definition tracks :: "'cc crypto \<Rightarrow> (action \<Rightarrow> bool) \<Rightarrow> 're backend \<Rightarrow> 're backend \<Rightarrow> bool" where
  "tracks C binds b b' \<longleftrightarrow>
     (\<exists>acts. br_log b' = br_log b @ acts \<and>
        (\<forall>w. listens (br_active_users b) w \<longrightarrow> listens (br_active_users b') (fold (perform C binds) acts w)))"

lemma tracks_same: "br_log b' = br_log b \<Longrightarrow> br_active_users b' = br_active_users b \<Longrightarrow> tracks C binds b b'"
  by (simp add: tracks_def)

lemma tracks_trans:
  assumes "tracks C binds a b" "tracks C binds b c"
  shows "tracks C binds a c"
proof -
  obtain us vs where "br_log b = br_log a @ us" "br_log c = br_log b @ vs"
    "\<forall>w. listens (br_active_users a) w \<longrightarrow> listens (br_active_users b) (fold (perform C binds) us w)"
    "\<forall>w. listens (br_active_users b) w \<longrightarrow> listens (br_active_users c) (fold (perform C binds) vs w)"
    using assms unfolding tracks_def by blast
  then show ?thesis unfolding tracks_def
    by (intro exI [of _ "us @ vs"] conjI allI impI) (simp, unfold fold_append comp_def, blast)
qed

lemma tracks_ensure: "tracks C binds b (ensure_active_user u pf b)"
proof (cases "\<exists>a. hm_get (br_active_users b) (pu_port u) = Some a \<and> act_fingerprint a = fingerprint_of u pf")
  case True
  then show ?thesis by (auto simp: ensure_active_user_def Let_def intro: tracks_same)
next
  case False
  define tcp where "tcp = (if nc_tcp_enabled (cfg_node (br_config b)) then Some (spawn_tcp (br_config b) u pf) else None)"
  define udp where "udp = (if nc_udp_enabled (cfg_node (br_config b)) then Some (spawn_udp (br_config b) u pf) else None)"
  let ?A = "br_active_users b" and ?q = "pu_port u"
  let ?a = "\<lparr>act_fingerprint = fingerprint_of u pf, act_tcp = tcp, act_udp = udp\<rparr>"
  let ?stops = "case hm_get ?A ?q of Some a \<Rightarrow> active_stop a | None \<Rightarrow> []"
  have cond: "\<not> (case hm_get ?A ?q of Some a \<Rightarrow> act_fingerprint a = fingerprint_of u pf | None \<Rightarrow> False)"
    using False by (auto split: option.splits)
  have e: "ensure_active_user u pf b = b\<lparr>br_active_users := hm_insert ?q ?a (hm_remove ?q ?A), br_log := br_log b @ ?stops @ spawns ?a\<rparr>"
    unfolding ensure_active_user_def Let_def using cond by (simp add: spawns_def tcp_def udp_def)
  have "listens (hm_insert ?q ?a (hm_remove ?q ?A)) (fold (perform C binds) (?stops @ spawns ?a) w)" if "listens ?A w" for w
  proof -
    have "listens (hm_remove ?q ?A) (fold (perform C binds) ?stops w)"
      using listens_stop [OF that] that by (auto simp: hm_remove_absent hm_contains_iff split: option.split)
    then show ?thesis unfolding fold_append comp_def
      by (rule listens_spawn) (auto simp: hm_simps tcp_def udp_def spawn_tcp_def spawn_udp_def split: if_splits)
  qed
  then show ?thesis unfolding tracks_def e by (intro exI [of _ "?stops @ spawns ?a"]) simp
qed

lemma tracks_sync_listeners: "tracks C binds b (snd (sync_listeners rows lp b))"
proof (induction rows arbitrary: lp b)
  case (Cons u rows)
  show ?case
  proof (cases "profile_from_user u (cfg_node (br_config b))")
    case (Inr pf)
    then show ?thesis using tracks_trans [OF tracks_ensure Cons.IH] by simp
  qed (use Cons.IH in simp)
qed (simp add: tracks_same)

lemma tracks_stop_ports: "tracks C binds b (stop_ports ports b)"
proof (induction ports arbitrary: b)
  case (Cons q ports)
  show ?case
  proof (cases "hm_get (br_active_users b) q")
    case (Some a)
    have "tracks C binds b (b\<lparr>br_active_users := hm_remove q (br_active_users b), br_log := br_log b @ active_stop a\<rparr>)"
      unfolding tracks_def by (intro exI [of _ "active_stop a"] conjI allI impI) (simp, simp add: listens_stop [OF _ Some])
    then show ?thesis using tracks_trans Cons.IH Some by simp blast
  qed (use Cons.IH in simp)
qed (simp add: tracks_same)

lemma tracks_apply_users: "tracks C binds b (apply_users C' now rows b)"
proof -
  let ?t = "tabled C' now rows b"
  have "tracks C binds b ?t" by (rule tracks_same) (simp_all add: sv_simps)
  moreover have "tracks C binds ?t (listened rows ?t)"
    unfolding listened_def Let_def case_prod_unfold stop_stale_ports_def
    by (rule tracks_trans [OF tracks_sync_listeners tracks_stop_ports])
  moreover have "tracks C binds (listened rows ?t) (apply_users C' now rows b)"
    by (rule tracks_same) (simp_all add: apply_users_split sv_simps)
  ultimately show ?thesis by (blast intro: tracks_trans)
qed

lemma event_keeps:
  "br_log (record_event now e b) = br_log b" "br_active_users (record_event now e b) = br_active_users b"
  by (cases e; simp)+

lemma tracks_turn:
  assumes "own_turn t"
  shows "tracks C binds b (run_turn C' re_new t b)"
proof (cases t)
  case (Poll w now)
  have "tracks C binds b (fst (sync_users C' w now b))"
    by (auto simp: sync_users_def tracks_same tracks_apply_users split: sum.split)
  moreover have "tracks C binds (fst (sync_users C' w now b)) (run_turn C' re_new t b)"
    by (rule tracks_same) (auto simp: Poll expire_local_state_def refresh_detect_rules_def split: sum.split)
  ultimately show ?thesis by (rule tracks_trans)
next
  case (Event now)
  then show ?thesis by (auto intro!: tracks_same simp: event_keeps split: list.split)
qed (use assms in \<open>simp_all add: tracks_same\<close>)

lemma running_stop_list:
  "fold (perform C binds) (concat (map active_stop as)) w = (w1, w2) \<Longrightarrow>
     tcp_running w1 = filter (\<lambda>t. \<forall>a \<in> set as. act_tcp a \<noteq> Some t) (tcp_running (fst w)) \<and>
     udp_running w2 = filter (\<lambda>t. \<forall>a \<in> set as. act_udp a \<noteq> Some t) (udp_running (snd w))"
proof (induction as arbitrary: w)
  case (Cons a as)
  obtain v1 v2 where v: "fold (perform C binds) (active_stop a) w = (v1, v2)" by fastforce
  then have "fold (perform C binds) (concat (map active_stop as)) (v1, v2) = (w1, w2)" using Cons.prems by simp
  from Cons.IH [OF this] running_perform_stop [OF v] show ?case by (simp add: conj_commute)
qed simp

text \<open>\<open>stop_all\<close> leaves nothing running.\<close>

lemma stop_all_running:
  assumes l: "listens (br_active_users b) w"
    and f: "fold (perform C binds) (concat (map active_stop (hm_values (br_active_users b)))) w = (w1, w2)"
  shows "tcp_running w1 = [] \<and> udp_running w2 = []"
proof -
  have "\<exists>a \<in> set (hm_values (br_active_users b)). act_tcp a = Some t" if "tcp_current (br_active_users b) t" for t
    using that by (force simp: tcp_current_def hm_values_def dest: hm_get_Some_mem)
  moreover have "\<exists>a \<in> set (hm_values (br_active_users b)). act_udp a = Some t" if "udp_current (br_active_users b) t" for t
    using that by (force simp: udp_current_def hm_values_def dest: hm_get_Some_mem)
  ultimately show ?thesis using l running_stop_list [OF f] by (fastforce simp: listens_def list_all_iff filter_empty_conv)
qed

lemma tracks_stop_all: "tracks C binds b (stop_all b)"
proof -
  let ?acts = "concat (map active_stop (hm_values (br_active_users b)))"
  have "listens (br_active_users (stop_all b)) (fold (perform C binds) ?acts w)" if "listens (br_active_users b) w" for w
    using stop_all_running [OF that] by (cases "fold (perform C binds) ?acts w") (auto simp: listens_def)
  then show ?thesis unfolding tracks_def by (intro exI [of _ ?acts]) (simp add: stop_all_def)
qed

subsection \<open>The node\<close>

definition node_listens :: "('cc, 're) node \<Rightarrow> bool" where
  "node_listens nd \<longleftrightarrow> listens (br_active_users (nd_backend nd)) (nd_tcp nd, nd_udp nd)"

lemma listens_supervise:
  assumes "node_listens nd" "tracks C binds (nd_backend nd) b"
  shows "node_listens (supervise C binds b nd)"
proof -
  obtain acts where acts: "br_log b = br_log (nd_backend nd) @ acts"
    "\<forall>w. listens (br_active_users (nd_backend nd)) w \<longrightarrow> listens (br_active_users b) (fold (perform C binds) acts w)"
    using assms(2) unfolding tracks_def by blast
  obtain ts us where f: "fold (perform C binds) acts (nd_tcp nd, nd_udp nd) = (ts, us)" by fastforce
  have "listens (br_active_users b) (ts, us)" using assms(1) acts(2) f unfolding node_listens_def by metis
  then show ?thesis by (simp add: node_listens_def supervise_def acts(1) f)
qed

text \<open>A relay step can only end listeners.\<close>

lemma running_update:
  assumes "i < length xs" "g x = g (xs ! i)" "P x \<Longrightarrow> P (xs ! i)"
  shows "distinct (map g (filter P xs)) \<Longrightarrow> distinct (map g (filter P (xs[i := x])))"
    "set (map g (filter P (xs[i := x]))) \<subseteq> set (map g (filter P xs))"
proof -
  have xs: "xs = take i xs @ xs ! i # drop (Suc i) xs" "xs[i := x] = take i xs @ x # drop (Suc i) xs"
    using assms(1) by (simp_all add: id_take_nth_drop upd_conv_take_nth_drop)
  let ?r = "\<lambda>xs. map g (filter P xs)"
  have "?r xs = ?r (take i xs) @ ?r [xs ! i] @ ?r (drop (Suc i) xs)" by (subst xs(1)) simp
  moreover have "?r (xs[i := x]) = ?r (take i xs) @ ?r [x] @ ?r (drop (Suc i) xs)" by (subst xs(2)) simp
  moreover have "?r [x] = [] \<or> ?r [x] = ?r [xs ! i]" using assms(2,3) by auto
  ultimately show "distinct (?r xs) \<Longrightarrow> distinct (?r (xs[i := x]))" "set (?r (xs[i := x])) \<subseteq> set (?r xs)"
    by (elim disjE; auto)+
qed

lemma listener_wake_control:
  assumes "listener_wake C m e (l, b) = (l', b')"
  shows "ls_task l' = ls_task l \<and> (ls_running l' \<longrightarrow> ls_running l)"
  using assms by (cases e) (auto simp: tcp_accept_def wake_conn_def Let_def split: sum.splits prod.splits if_splits)

lemma forward_task: "ul_task (fst (fst (forward env now target policy k rkey cnt payload w))) = ul_task (fst w)"
  by (cases w) (auto simp: forward_def find_association_def Let_def split: sum.split prod.split option.split)

lemma udp_wake_control:
  assumes "udp_wake C m e (l, b) = (l', b')"
  shows "ul_task l' = ul_task l \<and> (ul_running l' \<longrightarrow> ul_running l)"
proof (cases e)
  case (Received env now datagram peer)
  let ?l = "l\<lparr>ul_associations := tm_expire now (ul_associations l)\<rparr>"
  have "ul_task (fst (fst (handle_inbound C m env now t d peer ?l b))) = ul_task l" for t d
    using forward_task by (auto simp: handle_inbound_def Let_def forward_task split: sum.split option.split)
  then show ?thesis using assms Received by (auto simp: udp_receive_def split: if_splits) (metis fst_conv)
next
  case (Replied rand k received sent)
  then show ?thesis using assms by (auto simp: pump_reply_def Let_def split: option.splits sum.splits prod.splits if_splits)
qed (use assms in \<open>auto simp: udp_stop_def\<close>)

lemma listens_step:
  fixes nd :: "('cc, 're) node"
  assumes wf: "node_wf nd" and l: "node_listens nd"
  shows "node_listens (node_step C m re_new e nd)"
proof (cases e)
  case (Supervise t binds)
  then show ?thesis using l by (auto intro: listens_supervise tracks_turn)
next
  case Shutdown
  then show ?thesis using l by (auto intro: listens_supervise tracks_stop_all)
next
  case (Answer w)
  then show ?thesis using l by (auto simp: node_listens_def Let_def split: option.split sum.split)
next
  case (Auxiliary w)
  then show ?thesis using l by (auto simp: node_listens_def report_auxiliary_state_def Let_def split: sum.split)
next
  case (OnTcp i w)
  obtain k b where k: "listener_wake C m w (nd_tcp nd ! i, nd_backend nd) = (k, b)" by fastforce
  show ?thesis
  proof (cases "i < length (nd_tcp nd)")
    case True
    note one = tcp_rt.wake_one [OF True _ _ k]
    have "br_active_users b = br_active_users (nd_backend nd)" using one wf by (auto simp: node_wf_def keeps_def)
    moreover note running_update [OF True, of ls_task k ls_running] listener_wake_control [OF k]
    ultimately show ?thesis using l OnTcp True k by (auto simp: node_listens_def listens_def tcp_running_def list_all_iff)
  qed (use l OnTcp in simp)
next
  case (OnUdp i w)
  obtain k b where k: "udp_wake C m w (nd_udp nd ! i, nd_backend nd) = (k, b)" by fastforce
  show ?thesis
  proof (cases "i < length (nd_udp nd)")
    case True
    note one = udp_rt.wake_one [OF True _ _ k]
    have "br_active_users b = br_active_users (nd_backend nd)" using one wf by (auto simp: node_wf_def keeps_def)
    moreover note running_update [OF True, of ul_task k ul_running] udp_wake_control [OF k]
    ultimately show ?thesis using l OnUdp True k by (auto simp: node_listens_def listens_def udp_running_def list_all_iff)
  qed (use l OnUdp in simp)
qed (use l in \<open>simp add: node_listens_def Let_def\<close>)

lemma node_listens_run: "node_listens (node_run C m re_new c now es)"
proof -
  have "node_wf (node_run C m re_new c now es) \<and> node_listens (node_run C m re_new c now es)"
    unfolding node_run_def
  proof (induction es rule: rev_induct)
    case Nil
    have "node_listens (node_new c now)"
      by (simp add: node_listens_def listens_def node_new_def tcp_running_def udp_running_def)
    then show ?case by (simp add: node_inv_new [unfolded node_inv_def])
  next
    case (snoc e es)
    have "node_inv (fold (node_step C m re_new) (es @ [e]) (node_new c now))"
      using node_inv_run [of C m re_new c now "es @ [e]"] by (simp add: node_run_def)
    then show ?case using snoc by (simp add: node_inv_def listens_step)
  qed
  then show ?thesis by blast
qed

text \<open>C22: the node listens where the panel wants it to. In every run, each listener that accepts
  connections or datagrams is the one the supervisor keeps for its port, no two of them share a port,
  so a replaced or stale listener has stopped; and a shutdown stops them all.\<close>

theorem node_listeners_current:
  assumes nd: "nd = node_run C m re_new c now es"
  shows "list_all (tcp_current (br_active_users (nd_backend nd))) (tcp_running (nd_tcp nd)) \<and>
    list_all (udp_current (br_active_users (nd_backend nd))) (udp_running (nd_udp nd)) \<and>
    distinct (map tt_port (tcp_running (nd_tcp nd))) \<and> distinct (map ud_port (udp_running (nd_udp nd))) \<and>
    (nd_inflight nd = None \<longrightarrow>
       tcp_running (nd_tcp (node_step C m re_new Shutdown nd)) = [] \<and> udp_running (nd_udp (node_step C m re_new Shutdown nd)) = [])"
proof -
  let ?b = "nd_backend nd" and ?stops = "concat (map active_stop (hm_values (br_active_users (nd_backend nd))))"
  have l: "listens (br_active_users ?b) (nd_tcp nd, nd_udp nd)"
    using node_listens_run [of C m re_new c now es] by (simp add: nd node_listens_def)
  have "inj_on tt_port (set (tcp_running (nd_tcp nd)))" "inj_on ud_port (set (udp_running (nd_udp nd)))"
    using l by (auto simp: inj_on_def listens_def list_all_iff tcp_current_def udp_current_def) (metis option.inject)+
  moreover obtain ts us where f: "fold (perform C (\<lambda>_. True)) ?stops (nd_tcp nd, nd_udp nd) = (ts, us)" by fastforce
  have "nd_tcp (supervise C (\<lambda>_. True) (stop_all ?b) nd) = ts" "nd_udp (supervise C (\<lambda>_. True) (stop_all ?b) nd) = us"
    by (simp_all add: supervise_def stop_all_def f)
  moreover have "tcp_running ts = [] \<and> udp_running us = []" by (rule stop_all_running [OF l f])
  ultimately show ?thesis using l by (simp add: listens_def distinct_map)
qed

theorem node_listeners_current_witness:
  "\<exists>nd :: (nat, unit) node. nd = node_run sample_crypto (\<lambda>_ _. False) (\<lambda>_. None) open_config 0 [node_poll] \<and>
     map tt_port (tcp_running (nd_tcp nd)) = [1001] \<and>
     tcp_running (nd_tcp (node_step sample_crypto (\<lambda>_ _. False) (\<lambda>_. None) (Shutdown :: unit node_event) nd)) = []"
proof -
  obtain k where k: "nd_tcp polled_node = [k]" "tcp_listen (spawn_tcp open_config node_row node_profile) = Inr k"
    using polled_relays by blast
  have "ls_task k = spawn_tcp open_config node_row node_profile \<and> ls_running k"
    using k(2) by (auto simp: tcp_listen_def split: sum.splits)
  then have ports: "map tt_port (tcp_running (nd_tcp polled_node)) = [1001]" by (simp add: k tcp_running_def spawn_tcp_def)
  have "nd_inflight polled_node = None"
    by (simp add: polled_node_def node_run_def node_poll_def supervise_def node_new_def Let_def case_prod_beta)
  then have stopped: "tcp_running (nd_tcp (node_step sample_crypto (\<lambda>_ _. False) (\<lambda>_. None) (Shutdown :: unit node_event) polled_node)) = []"
    using node_listeners_current [OF polled_node_def] by simp
  show ?thesis by (rule exI, intro conjI, rule polled_node_def, rule ports, rule stopped)
qed

end
