(* ===== verification/Node_Relays.thy ===== *)
theory Node_Relays
  imports Node_Listeners
begin

text \<open>
  Every connection inside a run of the node is a run of \<open>handle_stream\<close> alone: it was opened by an
  accept of its listener, with the tables published at that moment, and has since been woken by
  its own events only, the rest of the node having changed nothing but the shared state. What is
  proved of single connections therefore holds of all connections of the node.
\<close>

subsection \<open>The supervisor leaves connections alone\<close>

definition conns_kept :: "'cc tcp_listener list \<Rightarrow> 'cc tcp_listener list \<Rightarrow> bool" where
  "conns_kept ts ts' \<longleftrightarrow> length ts \<le> length ts' \<and>
     (\<forall>i < length ts'. if i < length ts
        then ls_conns (ts' ! i) = ls_conns (ts ! i) \<and> ls_task (ts' ! i) = ls_task (ts ! i) \<and> ls_cipher (ts' ! i) = ls_cipher (ts ! i)
        else ls_conns (ts' ! i) = [])"

lemma conns_kept_refl [simp]: "conns_kept ts ts"
  by (simp add: conns_kept_def)

lemma conns_kept_trans: "conns_kept ts ts' \<Longrightarrow> conns_kept ts' ts'' \<Longrightarrow> conns_kept ts ts''"
  unfolding conns_kept_def by (auto split: if_splits) (metis order.strict_trans2 linorder_not_le)+

lemma conns_kept_perform: "conns_kept (fst w) (fst (perform C binds a w))"
  by (cases w; cases a) (auto simp: conns_kept_def tcp_listen_def stop_tcp_task_def nth_append split: sum.split)

lemma conns_kept_fold: "conns_kept (fst w) (fst (fold (perform C binds) acts w))"
proof (induction acts arbitrary: w)
  case (Cons a acts)
  show ?case using conns_kept_trans [OF conns_kept_perform [of w] Cons.IH [of "perform C binds a w"]] by simp
qed simp

lemma conns_kept_supervise: "conns_kept (nd_tcp nd) (nd_tcp (supervise C binds b nd))"
  using conns_kept_fold [of "(nd_tcp nd, nd_udp nd)"] by (simp add: supervise_def Let_def case_prod_beta)

subsection \<open>One step, seen from one connection\<close>

definition conn_at :: "('cc, 're) node \<Rightarrow> nat \<Rightarrow> nat \<Rightarrow> 'cc tcp_conn" where
  "conn_at nd i j = ls_conns (nd_tcp nd ! i) ! j"

definition has_conn :: "('cc, 're) node \<Rightarrow> nat \<Rightarrow> nat \<Rightarrow> bool" where
  "has_conn nd i j \<longleftrightarrow> i < length (nd_tcp nd) \<and> j < length (ls_conns (nd_tcp nd ! i))"

definition keeps_listener :: "'cc tcp_listener \<Rightarrow> 'cc tcp_listener \<Rightarrow> bool" where
  "keeps_listener l l' \<longleftrightarrow> ls_task l' = ls_task l \<and> ls_cipher l' = ls_cipher l"

text \<open>The wake an event holds for connection \<open>j\<close> of listener \<open>i\<close>, if any.\<close>

fun own_wake :: "nat \<Rightarrow> nat \<Rightarrow> 'j node_event \<Rightarrow> wake list" where
  "own_wake i j (OnTcp k (OnConn n w)) = (if k = i \<and> n = j then [w] else [])"
| "own_wake i j _ = []"

definition conn_wakes :: "nat \<Rightarrow> nat \<Rightarrow> 'j node_event list \<Rightarrow> wake list" where
  "conn_wakes i j es = concat (map (own_wake i j) es)"

lemma own_wake_other: "\<forall>x. e \<noteq> OnTcp i x \<Longrightarrow> own_wake i j e = []"
  by (induction i j e rule: own_wake.induct) auto

lemma listener_wake_keeps:
  assumes "listener_wake C m e (l, b) = (l', b')" "j < length (ls_conns l)"
  shows "j < length (ls_conns l') \<and> keeps_listener l l' \<and>
    ls_conns l' ! j = tcp_run C m (map (Pair b) (own_wake i j (OnTcp i e))) (ls_conns l ! j)"
proof (cases e)
  case (OnConn k w)
  then show ?thesis using assms
    by (auto simp: keeps_listener_def wake_conn_def Let_def nth_list_update split: if_splits prod.splits)
qed (use assms in \<open>auto simp: keeps_listener_def tcp_accept_def nth_append split: if_splits sum.splits\<close>)

lemma listener_wake_opens:
  assumes "listener_wake C m e (l, b) = (l', b')" "j < length (ls_conns l')" "\<not> j < length (ls_conns l)"
  shows "keeps_listener l l' \<and> (\<exists>rand peer. e = Accepted rand peer \<and>
    tcp_open C rand (accept_context (ls_task l) (ls_cipher l) (br_user_tables b) peer) = Inr (ls_conns l' ! j))"
proof (cases e)
  case (OnConn k w)
  then show ?thesis using assms by (auto simp: wake_conn_def Let_def split: if_splits prod.splits)
qed (use assms in \<open>auto simp: keeps_listener_def tcp_accept_def nth_append less_Suc_eq split: if_splits sum.splits\<close>)

text \<open>Events for other tasks leave the connections of a listener alone.\<close>

lemma other_steps_keep:
  assumes "\<forall>x. e \<noteq> OnTcp i x"
  shows "has_conn (node_step C m re_new e nd) i j = has_conn nd i j" (is ?h)
    and "has_conn nd i j \<Longrightarrow> conn_at (node_step C m re_new e nd) i j = conn_at nd i j \<and>
      keeps_listener (nd_tcp nd ! i) (nd_tcp (node_step C m re_new e nd) ! i)"
proof -
  let ?nd = "node_step C m re_new e nd"
  have "has_conn ?nd i j = has_conn nd i j \<and> (has_conn nd i j \<longrightarrow> conn_at ?nd i j = conn_at nd i j \<and>
      keeps_listener (nd_tcp nd ! i) (nd_tcp ?nd ! i))"
  proof (cases "\<exists>k x. e = OnTcp k x")
    case True
    then obtain k x where e: "e = OnTcp k x" "k \<noteq> i" using assms by blast
    obtain l b where "listener_wake C m x (nd_tcp nd ! k, nd_backend nd) = (l, b)" by fastforce
    then have "nd_tcp ?nd ! i = nd_tcp nd ! i \<and> length (nd_tcp ?nd) = length (nd_tcp nd)" using e by simp
    then show ?thesis by (simp add: has_conn_def conn_at_def keeps_listener_def)
  next
    case False
    have "conns_kept (nd_tcp nd) (nd_tcp ?nd)"
      using False by (cases e) (auto simp: conns_kept_supervise Let_def split: option.split sum.split prod.split)
    then show ?thesis
      by (cases "i < length (nd_tcp nd)") (auto simp: conns_kept_def has_conn_def conn_at_def keeps_listener_def split: if_splits)
  qed
  then show ?h "has_conn nd i j \<Longrightarrow> conn_at ?nd i j = conn_at nd i j \<and> keeps_listener (nd_tcp nd ! i) (nd_tcp ?nd ! i)"
    by blast+
qed

lemma node_step_keeps:
  assumes "has_conn nd i j"
  shows "has_conn (node_step C m re_new e nd) i j \<and>
    keeps_listener (nd_tcp nd ! i) (nd_tcp (node_step C m re_new e nd) ! i) \<and>
    conn_at (node_step C m re_new e nd) i j = tcp_run C m (map (Pair (nd_backend nd)) (own_wake i j e)) (conn_at nd i j)"
proof (cases "\<exists>x. e = OnTcp i x")
  case True
  then obtain x where e: "e = OnTcp i x" by blast
  obtain l b where r: "listener_wake C m x (nd_tcp nd ! i, nd_backend nd) = (l, b)" by fastforce
  have "node_step C m re_new e nd = nd\<lparr>nd_backend := b, nd_tcp := (nd_tcp nd)[i := l]\<rparr>"
    using e r assms by (simp add: has_conn_def)
  with listener_wake_keeps [OF r, of j i] assms e show ?thesis by (simp add: has_conn_def conn_at_def)
next
  case False
  then show ?thesis using other_steps_keep [of e i, where nd = nd and j = j] own_wake_other [of e i j] assms by auto
qed

lemma node_step_opens:
  assumes "has_conn (node_step C m re_new e nd) i j" "\<not> has_conn nd i j"
  shows "keeps_listener (nd_tcp nd ! i) (nd_tcp (node_step C m re_new e nd) ! i) \<and>
    (\<exists>rand peer. e = OnTcp i (Accepted rand peer) \<and>
       tcp_open C rand (accept_context (ls_task (nd_tcp nd ! i)) (ls_cipher (nd_tcp nd ! i))
         (br_user_tables (nd_backend nd)) peer) = Inr (conn_at (node_step C m re_new e nd) i j))"
proof (cases "\<exists>x. e = OnTcp i x \<and> i < length (nd_tcp nd)")
  case True
  then obtain x where e: "e = OnTcp i x" "i < length (nd_tcp nd)" by blast
  obtain l b where r: "listener_wake C m x (nd_tcp nd ! i, nd_backend nd) = (l, b)" by fastforce
  have "node_step C m re_new e nd = nd\<lparr>nd_backend := b, nd_tcp := (nd_tcp nd)[i := l]\<rparr>"
    using e r by simp
  with listener_wake_opens [OF r, of j] assms e show ?thesis by (simp add: has_conn_def conn_at_def)
next
  case False
  then have "node_step C m re_new e nd = nd" if "e = OnTcp i x" for x using that by simp
  then show ?thesis using other_steps_keep(1) [of e i, where nd = nd and j = j] assms by (cases "\<exists>x. e = OnTcp i x") auto
qed

subsection \<open>A connection is its own run\<close>

lemma node_fold_keeps:
  assumes "has_conn nd i j"
  shows "\<exists>ws. map snd ws = conn_wakes i j es \<and> has_conn (fold (node_step C m re_new) es nd) i j \<and>
    keeps_listener (nd_tcp nd ! i) (nd_tcp (fold (node_step C m re_new) es nd) ! i) \<and>
    conn_at (fold (node_step C m re_new) es nd) i j = tcp_run C m ws (conn_at nd i j)"
  using assms
proof (induction es arbitrary: nd)
  case Nil
  then show ?case by (auto simp: conn_wakes_def keeps_listener_def)
next
  case (Cons e es)
  let ?nd = "node_step C m re_new e nd" and ?w = "map (Pair (nd_backend nd)) (own_wake i j e)"
  note step = node_step_keeps [OF Cons.prems, of C m re_new e]
  obtain ws where ws: "map snd ws = conn_wakes i j es" "has_conn (fold (node_step C m re_new) es ?nd) i j"
    "keeps_listener (nd_tcp ?nd ! i) (nd_tcp (fold (node_step C m re_new) es ?nd) ! i)"
    "conn_at (fold (node_step C m re_new) es ?nd) i j = tcp_run C m ws (conn_at ?nd i j)"
    using Cons.IH step by blast
  have "map snd (?w @ ws) = conn_wakes i j (e # es)" using ws(1) by (simp add: conn_wakes_def comp_def)
  moreover have "conn_at (fold (node_step C m re_new) (e # es) nd) i j = tcp_run C m (?w @ ws) (conn_at nd i j)"
    using step ws(4) by (simp add: tcp_run_append)
  ultimately show ?case using step ws(2,3) by (intro exI [of _ "?w @ ws"]) (auto simp: keeps_listener_def)
qed

text \<open>Where a connection of the node comes from.\<close>

lemma node_run_snoc: "node_run C m re_new cfg now (es @ [e]) = node_step C m re_new e (node_run C m re_new cfg now es)"
  by (simp add: node_run_def)

lemma node_run_append: "node_run C m re_new cfg now (xs @ ys) = fold (node_step C m re_new) ys (node_run C m re_new cfg now xs)"
  by (simp add: node_run_def)

lemma node_conn_opened:
  assumes "has_conn (node_run C m re_new cfg now es) i j"
  obtains es1 rand peer es2 where "es = es1 @ OnTcp i (Accepted rand peer) # es2"
    "has_conn (node_run C m re_new cfg now (es1 @ [OnTcp i (Accepted rand peer)])) i j"
    "tcp_open C rand (accept_context (ls_task (nd_tcp (node_run C m re_new cfg now es) ! i))
      (ls_cipher (nd_tcp (node_run C m re_new cfg now es) ! i))
      (br_user_tables (nd_backend (node_run C m re_new cfg now es1))) peer) =
        Inr (conn_at (node_run C m re_new cfg now (es1 @ [OnTcp i (Accepted rand peer)])) i j)"
proof -
  let ?n = "\<lambda>k. node_run C m re_new cfg now (take k es)"
  have "\<not> has_conn (?n 0) i j" "has_conn (?n (length es)) i j"
    using assms by (simp_all add: node_run_def node_new_def has_conn_def)
  then obtain k where k: "k < length es" "\<not> has_conn (?n k) i j" "has_conn (?n (Suc k)) i j"
    using ex_least_nat_less [of "\<lambda>k. has_conn (?n k) i j" "length es"] by auto
  have suc: "?n (Suc k) = node_step C m re_new (es ! k) (?n k)"
    using k(1) by (simp add: take_Suc_conv_app_nth node_run_snoc)
  from node_step_opens [OF k(3) [unfolded suc] k(2)] obtain rand peer where
    e: "es ! k = OnTcp i (Accepted rand peer)" and sl: "keeps_listener (nd_tcp (?n k) ! i) (nd_tcp (?n (Suc k)) ! i)"
    and op: "tcp_open C rand (accept_context (ls_task (nd_tcp (?n k) ! i)) (ls_cipher (nd_tcp (?n k) ! i))
         (br_user_tables (nd_backend (?n k))) peer) = Inr (conn_at (?n (Suc k)) i j)" unfolding suc by blast
  have es: "es = take k es @ OnTcp i (Accepted rand peer) # drop (Suc k) es"
    using k(1) e by (metis id_take_nth_drop)
  have "keeps_listener (nd_tcp (?n (Suc k)) ! i) (nd_tcp (node_run C m re_new cfg now es) ! i)"
    using node_fold_keeps [OF k(3), of "drop (Suc k) es" C m re_new] by (metis append_take_drop_id node_run_append)
  then show thesis
    using that [OF es] k(1,3) op sl e by (simp add: take_Suc_conv_app_nth keeps_listener_def)
qed

subsection \<open>Properties\<close>

text \<open>C13: inside the running node every TCP connection is a faithful pipe. Whatever the supervisor, the
  other connections and the datagram relays did before and meanwhile, each connection of each
  listener goes back to one accept; its keys and its user table are those published at that
  moment; and then either nothing was written to either side, or what the target got is a prefix
  of what a prefix of the client's bytes decodes to behind the address header, what the client got
  is a prefix of an encoding of what the target sent, and a target the user's policy forbids was
  not connected to. Between two reads both are not only prefixes but complete.\<close>

theorem node_relays_faithful:
  assumes C: "crypto_ok C" and nd: "nd = node_run C m re_new cfg now es" and h: "has_conn nd i j"
    and c: "c = conn_at nd i j" and l: "l = nd_tcp nd ! i"
  shows "\<exists>es1 rand peer es2 tables s0. es = es1 @ OnTcp i (Accepted rand peer) # es2 \<and>
    tables = br_user_tables (nd_backend (node_run C m re_new cfg now es1)) \<and>
    tc_ctx c = accept_context (ls_task l) (ls_cipher l) tables peer \<and>
    session_new C rand (tt_password (ls_task l)) (hm_get (ut_auth_users tables)) (tt_is_multi_user (ls_task l))
      (ls_cipher l) = Inr s0 \<and>
    (untouched c \<or>
      (\<exists>R r p d target n wire. prefix R (tc_client_read c) \<and> session_decrypt C s0 R = (r, Inr d) \<and>
         ss_protocol r = Some p \<and> parse_address d = Inr (Some (target, n)) \<and> prefix (tc_remote_written c) (drop n d) \<and>
         prefix (tc_client_written c) wire \<and> client_reads C s0 (user_key p) wire (tc_remote_read c) \<and>
         (case (tc_remote c, conn_policy c) of
            (Some a, Some pol) \<Rightarrow> ec_forbidden (tt_enforcement (ls_task l)) \<longrightarrow>
              \<not> ip_forbidden pol (sa_ip a) \<and> \<not> port_forbidden pol (port target)
          | _ \<Rightarrow> True))) \<and>
    (tc_phase c = Relaying \<longrightarrow>
      (\<exists>r p d target n. session_decrypt C s0 (tc_client_read c) = (r, Inr d) \<and> ss_protocol r = Some p \<and>
         parse_address d = Inr (Some (target, n)) \<and> tc_remote_written c = drop n d \<and>
         tc_user_id c = user_or (tt_user_id (ls_task l)) r \<and>
         client_reads C s0 (user_key p) (tc_client_written c) (tc_remote_read c)))"
proof -
  obtain es1 rand peer es2 where es: "es = es1 @ OnTcp i (Accepted rand peer) # es2"
    and h1: "has_conn (node_run C m re_new cfg now (es1 @ [OnTcp i (Accepted rand peer)])) i j"
    and op: "tcp_open C rand (accept_context (ls_task l) (ls_cipher l)
        (br_user_tables (nd_backend (node_run C m re_new cfg now es1))) peer) =
        Inr (conn_at (node_run C m re_new cfg now (es1 @ [OnTcp i (Accepted rand peer)])) i j)"
    using node_conn_opened [OF h [unfolded nd]] unfolding l nd by metis
  let ?t = "br_user_tables (nd_backend (node_run C m re_new cfg now es1))"
  let ?cx = "accept_context (ls_task l) (ls_cipher l) ?t peer"
  let ?c0 = "conn_at (node_run C m re_new cfg now (es1 @ [OnTcp i (Accepted rand peer)])) i j"
  have run_es: "node_run C m re_new cfg now es =
      fold (node_step C m re_new) es2 (node_run C m re_new cfg now (es1 @ [OnTcp i (Accepted rand peer)]))"
    by (simp add: es flip: node_run_append)
  obtain ws where ws: "c = tcp_run C m ws ?c0"
    using node_fold_keeps [OF h1, of es2 C m re_new] unfolding c nd run_es by blast
  have ctx: "tc_ctx c = ?cx" using tcp_open_fields [OF op] by (simp add: ws tcp_run_ctx)
  have cx: "cx_password ?cx = tt_password (ls_task l)" "cx_tables ?cx = ?t" "cx_is_multi_user ?cx = tt_is_multi_user (ls_task l)"
    "cx_cipher_kind ?cx = ls_cipher l" "cx_enforcement ?cx = tt_enforcement (ls_task l)" "cx_fallback_user_id ?cx = tt_user_id (ls_task l)"
    by (simp_all add: accept_context_def)
  note sess0 = tcp_open_session [OF op, unfolded cx]
  note pre = tcp_relay_prefix [OF C op ws, unfolded cx]
  note full = relaying_facts [OF C op ws, unfolded cx]
  show ?thesis
    by (rule exI [of _ es1], rule exI [of _ rand], rule exI [of _ peer], rule exI [of _ es2], rule exI [of _ ?t],
        rule exI [of _ "tc_session ?c0"], intro conjI impI) (rule es refl ctx sess0 pre full | assumption)+
qed

text \<open>Wakes for the chunks of a stream, each with the shared state it finds.\<close>

lemma wakes_are_served:
  "map snd ws = concat (map (\<lambda>(t, chunk). chunk_wakes nt t chunk) ds) \<Longrightarrow>
     \<exists>ds'. ws = serve_all nt ds' \<and> chunks_of ds' = map snd ds"
proof (induction ds arbitrary: ws)
  case Nil
  then show ?case by (intro exI [of _ "[]"]) (simp add: serve_all_def chunks_of_def)
next
  case (Cons d ds)
  obtain t chunk where d: "d = (t, chunk)" by (cases d)
  obtain b b' b'' rest where ws: "ws = served_chunk nt (b, b', b'') t chunk @ rest"
    "map snd rest = concat (map (\<lambda>(t, chunk). chunk_wakes nt t chunk) ds)"
    using Cons.prems by (auto simp: d chunk_wakes_def served_chunk_def)
  from Cons.IH [OF ws(2)] obtain ds' where "rest = serve_all nt ds'" "chunks_of ds' = map snd ds" by blast
  then show ?case using ws(1)
    by (intro exI [of _ "((b, b', b''), t, chunk) # ds'"]) (simp add: d serve_all_def chunks_of_def)
qed

lemma node_accepts:
  assumes "i < length (nd_tcp nd)" "l = nd_tcp nd ! i" "ls_running l" "ls_permits l \<noteq> 0" "j = length (ls_conns l)"
    and "tcp_open C rand (accept_context (ls_task l) (ls_cipher l) (br_user_tables (nd_backend nd)) peer) = Inr c0"
  shows "has_conn (node_step C m re_new (OnTcp i (Accepted rand peer)) nd) i j \<and>
    conn_at (node_step C m re_new (OnTcp i (Accepted rand peer)) nd) i j = c0"
  using assms by (simp add: tcp_accept_def has_conn_def conn_at_def)

lemma tcp_open_total:
  assumes "crypto_ok C" "rand (iv_len (cx_cipher_kind cx)) = Some siv" "length siv = iv_len (cx_cipher_kind cx)"
  shows "\<exists>c0. tcp_open C rand cx = Inr c0"
  using session_new_total [where rand = rand and k = "cx_cipher_kind cx", OF assms,
      of "cx_password cx" "hm_get (ut_auth_users (cx_tables cx))" "cx_is_multi_user cx"]
  by (auto simp: tcp_open_def)

text \<open>C5: the running node serves its clients. When a listener that runs and has a permit left accepts a
  client that follows the wire format, for a user with a counter and without limits in the tables
  published at that moment, and this client's reads, its target's answer and the writes are
  served, then, whatever else happens in the node in between (polls, reports, other connections,
  datagrams, even the listener being stopped), the connection ends up relaying, belongs to the
  client's user (to the listener's row when the uid is unknown) and has written exactly the
  payload behind the address header to the target.\<close>

theorem node_client_served:
  fixes es1 es2 :: "'j node_event list"
  assumes "crypto_ok C" and nd1: "nd1 = node_run C m re_new cfg now es1"
    and acc: "i < length (nd_tcp nd1)" "l = nd_tcp nd1 ! i" "ls_running l" "ls_permits l \<noteq> 0" "j = length (ls_conns l)"
    and cx: "cx = accept_context (ls_task l) (ls_cipher l) (br_user_tables (nd_backend nd1)) peer"
    and k: "k = ls_cipher l" and rand: "rand (iv_len k) = Some siv" "length siv = iv_len k"
    and mkey: "mkey = derive_master_key C (tt_password (ls_task l)) k" and u: "u = word_of_nat (unat (uid :: u32))"
    and us: "us = hm_get (ut_auth_users (cx_tables cx))"
    and civ: "length civ = iv_len k" "new_stream C k mkey civ = Inr enc"
    and ukey: "ukey = selected_key mkey civ us (tt_is_multi_user (ls_task l)) u"
    and sizes: "length auth12 = 12" "35 + length pad + length payload < MAX_PACKET" "list_all wire_ok ps"
    and stream: "concat (map snd ds) = civ @ snd (stream_process C enc
           (wire_auth_packet C mkey civ ukey uid check auth12 pad payload @ wire_data_stream C ukey 1 ps))"
    and parse: "parse_address (payload @ concat (map snd ps)) = Inr (Some (target, n))"
    and v: "v = (if us u = None then tt_user_id (ls_task l) else u)" and un: "unrestricted cx v nt target"
    and ch: "list_all (\<lambda>chunk. chunk \<noteq> [] \<and> length chunk \<le> READ_CHUNK) (map snd ds)"
    and wakes: "conn_wakes i j es2 = concat (map (\<lambda>(t, chunk). chunk_wakes nt t chunk) ds)"
    and c: "c = conn_at (node_run C m re_new cfg now (es1 @ OnTcp i (Accepted rand peer) # es2)) i j"
  shows "tc_phase c = Relaying \<and> tc_remote_written c = drop n (payload @ concat (map snd ps)) \<and> tc_user_id c = v"
proof -
  have f: "cx_password cx = tt_password (ls_task l)" "cx_cipher_kind cx = k" "cx_is_multi_user cx = tt_is_multi_user (ls_task l)"
    "cx_fallback_user_id cx = tt_user_id (ls_task l)"
    by (simp_all add: cx accept_context_def k)
  obtain c0 where c0: "tcp_open C rand cx = Inr c0"
    using tcp_open_total [of C rand cx siv] assms(1) rand f(2) by auto
  let ?nd = "node_step C m re_new (OnTcp i (Accepted rand peer) :: 'j node_event) nd1"
  note a = node_accepts [OF acc c0 [unfolded cx], of m re_new]
  have run: "node_run C m re_new cfg now (es1 @ OnTcp i (Accepted rand peer) # es2) = fold (node_step C m re_new) es2 ?nd"
    by (simp add: node_run_append nd1)
  obtain ws where ws: "map snd ws = conn_wakes i j es2" "c = tcp_run C m ws c0"
    using node_fold_keeps [of ?nd i j es2 C m re_new] a unfolding c run by auto
  obtain ds' where ds': "ws = serve_all nt ds'" "chunks_of ds' = map snd ds"
    using wakes_are_served ws(1) wakes by metis
  show ?thesis
    by (rule tcp_client_served [where ds = ds', OF _ u assms(1) c0 f(2) [symmetric] us civ _ sizes _ parse _ un])
      (use mkey ukey stream v ch ds' ws(2) f in simp_all)
qed

subsection \<open>The sample node serves a client\<close>

lemma sample_accept:
  "\<exists>l c0. nd_tcp polled_node = [l] \<and> ls_running l \<and> ls_permits l \<noteq> 0 \<and> ls_conns l = [] \<and> ls_cipher l = Chacha20Ietf \<and>
     tt_password (ls_task l) = ''pw'' \<and> tt_is_multi_user (ls_task l) = 0 \<and> tt_user_id (ls_task l) = 7 \<and>
     tt_enforcement (ls_task l) = enforcement_of (cfg_node open_config) \<and>
     tcp_open sample_crypto sample_rand
       (accept_context (ls_task l) Chacha20Ietf (br_user_tables (nd_backend polled_node)) sample_peer) = Inr c0"
proof -
  obtain l where l: "nd_tcp polled_node = [l]" "tcp_listen (spawn_tcp open_config node_row node_profile) = Inr l"
    using polled_relays by blast
  have "sample_rand (iv_len Chacha20Ietf) = Some (replicate 12 3)" by (simp add: sample_rand_def)
  then obtain c0 where "tcp_open sample_crypto sample_rand
      (accept_context (ls_task l) Chacha20Ietf (br_user_tables (nd_backend polled_node)) sample_peer) = Inr c0"
    using tcp_open_total [OF sample_crypto_ok, of sample_rand "accept_context (ls_task l) Chacha20Ietf (br_user_tables (nd_backend polled_node)) sample_peer"]
    by (auto simp: accept_context_def)
  then show ?thesis using l by (auto simp: tcp_listen_def spawn_tcp_def node_profile_cipher)
qed

text \<open>The client's bytes come in one read; before the target answers, the node is told to shut down.\<close>

theorem node_client_served_witness:
  "\<exists>enc. new_stream sample_crypto Chacha20Ietf sample_key sample_civ = Inr enc \<and>
     (\<exists>c. c = conn_at (node_run sample_crypto (\<lambda>(_ :: unit) _. False) (\<lambda>_. None) open_config 0
          [node_poll, OnTcp 0 (Accepted sample_rand sample_peer),
           OnTcp 0 (OnConn 0 (ClientRead (Inr (sample_civ @ snd (stream_process sample_crypto enc sample_wire))) 5)), Shutdown,
           OnTcp 0 (OnConn 0 (NetAnswer sample_net 5)), OnTcp 0 (OnConn 0 (Wrote 5))]) 0 0 \<and>
        tc_phase c = Relaying \<and> tc_remote_written c = [9] \<and> tc_user_id c = 7)"
proof -
  obtain enc where enc: "new_stream sample_crypto Chacha20Ietf sample_key sample_civ = Inr enc" using sample_encryptor by blast
  obtain l where l: "nd_tcp polled_node = [l]" "ls_running l" "ls_permits l \<noteq> 0" "ls_conns l = []" "ls_cipher l = Chacha20Ietf"
    "tt_password (ls_task l) = ''pw''" "tt_is_multi_user (ls_task l) = 0" "tt_user_id (ls_task l) = 7"
    "tt_enforcement (ls_task l) = enforcement_of (cfg_node open_config)" using sample_accept by blast
  let ?chunk = "sample_civ @ snd (stream_process sample_crypto enc sample_wire)"
  let ?es1 = "[node_poll]"
  let ?es2 = "[OnTcp 0 (OnConn 0 (ClientRead (Inr ?chunk) 5)), Shutdown,
      OnTcp 0 (OnConn 0 (NetAnswer sample_net 5)), OnTcp 0 (OnConn 0 (Wrote 5))] :: panel_user list node_event list"
  let ?c = "conn_at (node_run sample_crypto (\<lambda>(_ :: unit) _. False) (\<lambda>_. None) open_config 0
      (?es1 @ OnTcp 0 (Accepted sample_rand sample_peer) # ?es2)) 0 0"
  let ?cx = "accept_context (ls_task l) (ls_cipher l) (br_user_tables (nd_backend polled_node)) sample_peer"
  let ?us = "hm_get (ut_auth_users (cx_tables ?cx))"
  obtain target where t: "parse_address (sample_payload @ concat (map snd ([] :: (bytes \<times> bytes) list))) = Inr (Some (target, 7))"
    using sample_target by auto
  have tables: "cx_tables ?cx = br_user_tables (nd_backend polled_node)" "cx_enforcement ?cx = tt_enforcement (ls_task l)"
    "cx_fallback_user_id ?cx = 7" by (simp_all add: accept_context_def l)
  have acc: "0 < length (nd_tcp polled_node)" "l = nd_tcp polled_node ! 0" "0 = length (ls_conns l)" using l by simp_all
  have rand: "sample_rand (iv_len Chacha20Ietf) = Some (replicate 12 3)" "length (replicate 12 (3 :: byte)) = iv_len Chacha20Ietf"
    by (simp_all add: sample_rand_def)
  have key: "sample_key = derive_master_key sample_crypto (tt_password (ls_task l)) Chacha20Ietf" by (simp add: l sample_key_def)
  have u0: "(0 :: u64) = word_of_nat (unat (0 :: u32))" by simp
  have ukey: "sample_key = selected_key sample_key sample_civ ?us (tt_is_multi_user (ls_task l)) 0"
    unfolding tables by (simp add: selected_key_def polled_tables l)
  have v: "7 = (if ?us 0 = None then tt_user_id (ls_task l) else 0)" unfolding tables by (simp add: polled_tables l)
  have un: "unrestricted ?cx 7 sample_net target"
    unfolding unrestricted_def tables
    by (simp add: polled_tables l conn_counters_def enforcement_of_def open_config_def sample_net_def)
  have ds: "concat (map snd [(5 :: nat, ?chunk)]) = sample_civ @ snd (stream_process sample_crypto enc
       (wire_auth_packet sample_crypto sample_key sample_civ sample_key 0 1 (replicate 12 0) [] sample_payload @
        wire_data_stream sample_crypto sample_key 1 []))"
    "list_all (\<lambda>chunk. chunk \<noteq> [] \<and> length chunk \<le> READ_CHUNK) (map snd [(5 :: nat, ?chunk)])"
    using sample_facts(7) [of enc] sample_ds_ok [of enc] by (simp_all add: chunks_of_def sample_ds_def)
  have wakes: "conn_wakes 0 0 ?es2 = concat (map (\<lambda>(t, chunk). chunk_wakes sample_net t chunk) [(5, ?chunk)])"
    by (simp add: conn_wakes_def chunk_wakes_def)
  have "tc_phase ?c = Relaying \<and> tc_remote_written ?c = drop 7 (sample_payload @ concat (map snd ([] :: (bytes \<times> bytes) list))) \<and> tc_user_id ?c = 7"
    by (rule node_client_served [where rand = sample_rand and us = ?us and ds = "[(5, ?chunk)]" and k = Chacha20Ietf, OF sample_crypto_ok polled_node_def acc(1,2) l(2,3) acc(3) refl l(5) [symmetric] rand key u0 refl
        sample_facts(1) enc ukey sample_facts(2-4) ds(1) t v un ds(2) wakes refl])
  then have "tc_phase ?c = Relaying \<and> tc_remote_written ?c = [9] \<and> tc_user_id ?c = 7" by (simp add: sample_payload_def)
  then show ?thesis using enc by (intro exI [of _ enc] conjI exI [of _ ?c]) simp_all
qed

text \<open>Its connection just after the accept.\<close>

theorem node_relays_faithful_witness:
  "\<exists>(nd :: (nat, unit) node) peer tables. nd = node_run sample_crypto (\<lambda>_ _. False) (\<lambda>_. None) open_config 0
        [node_poll, OnTcp 0 (Accepted sample_rand sample_peer)] \<and> has_conn nd 0 0 \<and>
     tc_ctx (conn_at nd 0 0) = accept_context (ls_task (nd_tcp nd ! 0)) (ls_cipher (nd_tcp nd ! 0)) tables peer"
proof -
  let ?nd = "node_run sample_crypto (\<lambda>(_ :: unit) _. False) (\<lambda>_. None) open_config 0
      [node_poll, OnTcp 0 (Accepted sample_rand sample_peer)]"
  obtain l c0 where l: "nd_tcp polled_node = [l]" "ls_running l" "ls_permits l \<noteq> 0" "ls_conns l = []" "ls_cipher l = Chacha20Ietf"
    and c0: "tcp_open sample_crypto sample_rand
       (accept_context (ls_task l) Chacha20Ietf (br_user_tables (nd_backend polled_node)) sample_peer) = Inr c0"
    using sample_accept by blast
  have acc: "0 < length (nd_tcp polled_node)" "l = nd_tcp polled_node ! 0" "0 = length (ls_conns l)" using l by simp_all
  have h: "has_conn ?nd 0 0"
    unfolding polled_step by (rule conjunct1 [OF node_accepts [OF acc(1,2) l(2,3) acc(3) c0 [folded l(5)]]])
  from node_relays_faithful [OF sample_crypto_ok refl h refl refl] obtain tables peer where
    "tc_ctx (conn_at ?nd 0 0) = accept_context (ls_task (nd_tcp ?nd ! 0)) (ls_cipher (nd_tcp ?nd ! 0)) tables peer" by blast
  then show ?thesis using h by blast
qed

end
