(* ===== verification/Panel_Http.thy ===== *)
theory Panel_Http
  imports Panel_Client Config Rust_Net
begin

text \<open>
  \<^verbatim>\<open>src/src/panel.rs\<close>: how \<open>PanelClient\<close> is built and how a request becomes a URL. The URL
  type and the HTTP client are crates: \<open>url_lib\<close> and \<open>http\<close> hold the operations the code calls.
\<close>

text \<open>\<open>Url::parse\<close>, \<open>set_path\<close>, \<open>join\<close> and \<open>query_pairs_mut().append_pair\<close>.\<close>

record 'u url_lib =
  u_parse :: "string \<Rightarrow> 'u option"
  u_set_path :: "string \<Rightarrow> 'u \<Rightarrow> 'u"
  u_join :: "'u \<Rightarrow> string \<Rightarrow> 'u option"
  u_append :: "string \<times> string \<Rightarrow> 'u \<Rightarrow> 'u"

text \<open>One exchange with the panel: \<open>None\<close> for a transport error, an error status or a body that is not
  JSON.\<close>

record ('u, 'h, 'j) http =
  h_get :: "'h \<Rightarrow> 'u \<Rightarrow> 'j option"
  h_post :: "'h \<Rightarrow> 'u \<Rightarrow> 'j \<Rightarrow> 'j option"

record ('u, 'h) panel_client =
  cl_base :: 'u
  cl_key :: string
  cl_node_id :: u64
  cl_http :: 'h

record node_info =
  ni_server :: "string option"
  ni_sort :: "int option"
  ni_traffic_rate :: "rat option"

record relay_rule =
  rr_id :: u64
  rr_source_node_id :: "u64 option"
  rr_dist_node_id :: "u64 option"
  rr_port :: "u16 option"

definition trim_end_slashes :: "string \<Rightarrow> string" where
  "trim_end_slashes s = rev (dropWhile (\<lambda>c. c = CHR ''/'') (rev s))"

text \<open>\<open>build timeout local_address\<close> is the client builder with the two settings the code makes besides
  the user agent; the local address, when set, is \<open>0.0.0.0\<close>.\<close>

definition panel_client_new ::
  "'u url_lib \<Rightarrow> (duration \<Rightarrow> ip_addr option \<Rightarrow> 'h option) \<Rightarrow> panel_config \<Rightarrow> ('u, 'h) panel_client result" where
  "panel_client_new U build c =
     (case u_parse U (trim_end_slashes (pc_base_url c)) of
        None \<Rightarrow> Inl (ConfigInvalid ''panel.base_url is not a valid URL'')
      | Some parsed \<Rightarrow>
          let base = u_set_path U '''' parsed;
              local_address = (if pc_ipv4_only c then Some (V4 0) else None)
          in case build (request_timeout c) local_address of
               None \<Rightarrow> Inl (ConfigInvalid ''building HTTP client'')
             | Some http \<Rightarrow> Inr \<lparr>cl_base = base, cl_key = pc_key c, cl_node_id = pc_node_id c, cl_http = http\<rparr>)"

definition client_url :: "'u url_lib \<Rightarrow> ('u, 'h) panel_client \<Rightarrow> string \<Rightarrow> query \<Rightarrow> 'u result" where
  "client_url U cl path query =
     (case u_join U (cl_base cl) (''/mod_mu/'' @ path) of
        None \<Rightarrow> Inl (PanelRequest path)
      | Some url \<Rightarrow> Inr (fold (u_append U) query (u_append U (''key'', cl_key cl) url)))"

definition get_json :: "'u url_lib \<Rightarrow> ('u, 'h, 'j) http \<Rightarrow> ('u, 'h) panel_client \<Rightarrow> string \<Rightarrow> query \<Rightarrow> 'j result" where
  "get_json U H cl path query =
     (case client_url U cl path query of
        Inl e \<Rightarrow> Inl e
      | Inr url \<Rightarrow> (case h_get H (cl_http cl) url of None \<Rightarrow> Inl (PanelRequest path) | Some value \<Rightarrow> Inr value))"

text \<open>\<open>post_ack\<close> up to the envelope.\<close>

definition post_json ::
  "'u url_lib \<Rightarrow> ('u, 'h, 'j) http \<Rightarrow> ('u, 'h) panel_client \<Rightarrow> string \<Rightarrow> query \<Rightarrow> 'j \<Rightarrow> 'j result" where
  "post_json U H cl path query body =
     (case client_url U cl path query of
        Inl e \<Rightarrow> Inl e
      | Inr url \<Rightarrow> (case h_post H (cl_http cl) url body of None \<Rightarrow> Inl (PanelRequest path) | Some value \<Rightarrow> Inr value))"

text \<open>The answers the endpoints see, through this client.\<close>

definition client_web ::
  "'u url_lib \<Rightarrow> ('u, 'h, 'j) http \<Rightarrow> ('u, 'h) panel_client \<Rightarrow> 'j web \<Rightarrow> 'j web" where
  "client_web U H cl w = w\<lparr>w_get := get_json U H cl, w_post := post_json U H cl\<rparr>"

definition panel_node_info :: "'j web \<Rightarrow> ('j \<Rightarrow> node_info option) \<Rightarrow> u64 \<Rightarrow> node_info option result" where
  "panel_node_info w from_value node_id =
     get_api_optional w from_value (''nodes/'' @ show_dec (unat node_id) @ ''/info'') []"

definition panel_relay_rules :: "'j web \<Rightarrow> ('j \<Rightarrow> relay_rule list option) \<Rightarrow> u64 \<Rightarrow> relay_rule list result" where
  "panel_relay_rules w from_value node_id =
     (case get_api_optional w from_value ''func/relay_rules'' (node_query node_id) of
        Inl e \<Rightarrow> Inl e
      | Inr rules \<Rightarrow> Inr (unwrap_or rules []))"

subsection \<open>Requests\<close>

text \<open>With a URL type whose joins drop the query and whose \<open>append_pair\<close> adds to its end, every request
  carries the key first and then the query of its endpoint.\<close>

lemma append_pairs:
  assumes "\<And>kv u. pairs (u_append U kv u) = pairs u @ [kv]"
  shows "pairs (fold (u_append U) query u) = pairs u @ query"
  by (induction query arbitrary: u) (simp_all add: assms)

lemma client_url_pairs:
  assumes join: "\<And>u p u'. u_join U u p = Some u' \<Longrightarrow> pairs u' = []"
    and app: "\<And>kv u. pairs (u_append U kv u) = pairs u @ [kv]" and url: "client_url U cl path query = Inr u"
  shows "pairs u = (''key'', cl_key cl) # query"
proof -
  obtain v where v: "u_join U (cl_base cl) (''/mod_mu/'' @ path) = Some v"
    "u = fold (u_append U) query (u_append U (''key'', cl_key cl) v)"
    using url by (auto simp: client_url_def split: option.splits)
  show ?thesis using append_pairs [of pairs U, OF app] join [OF v(1)] by (simp add: v(2) app)
qed

text \<open>What a client built from a configuration sends is determined by it: the node id and the key are
  those of the configuration.\<close>

lemma panel_client_new_fields:
  assumes "panel_client_new U build c = Inr cl"
  shows "cl_key cl = pc_key c \<and> cl_node_id cl = pc_node_id c \<and>
    build (request_timeout c) (if pc_ipv4_only c then Some (V4 0) else None) = Some (cl_http cl) \<and>
    (\<exists>u. u_parse U (trim_end_slashes (pc_base_url c)) = Some u \<and> cl_base cl = u_set_path U '''' u)"
  using assms by (auto simp: panel_client_new_def Let_def split: option.splits)

text \<open>A report is acknowledged only when the panel's answer to a POST with the key says \<open>ret = 1\<close>.\<close>

lemma client_post_ack_iff:
  "post_ack (client_web U H cl w) path q body = Inr () \<longleftrightarrow>
     (\<exists>url value response. client_url U cl path q = Inr url \<and> h_post H (cl_http cl) url body = Some value \<and>
        w_envelope w value = Some response \<and> ar_ret response = 1)"
  unfolding post_ack_ok_iff by (auto simp: client_web_def post_json_def split: sum.splits option.splits)

end
