(* ===== verification/Program.thy ===== *)
theory Program
  imports Panel_Http Config_Load Supervisor_Runtime
begin

text \<open>
  \<^verbatim>\<open>src/src/main.rs\<close>: the command line and the start of the node; the panel probes that
  \<open>BackendRuntime::run\<close> makes first, whose answers are only logged.
\<close>

text \<open>The arguments after the program name.\<close>

fun config_path_from_args :: "string list \<Rightarrow> string" where
  "config_path_from_args [] = ''config.toml''"
| "config_path_from_args [arg] = ''config.toml''"
| "config_path_from_args (arg # path # args) =
     (if arg = ''--config'' then path else config_path_from_args (path # args))"

definition initial_panel_probe ::
  "'j web \<Rightarrow> ('j \<Rightarrow> node_info option) \<Rightarrow> ('j \<Rightarrow> relay_rule list option) \<Rightarrow> u64 \<Rightarrow>
   unit result \<times> node_info option result \<times> detect_rule list result \<times> relay_rule list result" where
  "initial_panel_probe w info_of rules_of node_id =
     (panel_ping w, panel_node_info w info_of node_id, panel_detect_rules w, panel_relay_rules w rules_of node_id)"

text \<open>The operating system and the crates: the file system, the environment, the TOML decoder, the URL
  type and the HTTP client builder.\<close>

record ('u, 'h) system =
  sy_read :: "string \<Rightarrow> string option"
  sy_toml :: "string \<Rightarrow> (panel_toml \<times> node_toml \<times> limits_toml) option"
  sy_env :: "string \<Rightarrow> string option"
  sy_url :: "'u url_lib"
  sy_build :: "duration \<Rightarrow> ip_addr option \<Rightarrow> 'h option"

text \<open>Everything \<open>main\<close> does before \<open>run\<close>.\<close>

definition prepare :: "('u, 'h) system \<Rightarrow> string list \<Rightarrow> (config \<times> ('u, 'h) panel_client) result" where
  "prepare s args =
     (case config_load (sy_read s) (sy_toml s) (sy_env s) (config_path_from_args args) of
        Inl e \<Rightarrow> Inl e
      | Inr c \<Rightarrow>
          (case validate c of
             Inl e \<Rightarrow> Inl e
           | Inr _ \<Rightarrow>
               (case panel_client_new (sy_url s) (sy_build s) (cfg_panel c) of
                  Inl e \<Rightarrow> Inl e
                | Inr panel \<Rightarrow> Inr (c, panel))))"

text \<open>The program until a shutdown signal. \<open>H\<close> is the panel at start-up, \<open>codecs\<close> the derived JSON
  encoders and decoders, and \<open>turns\<close> what wakes the loop afterwards, given the client.\<close>

definition run_program ::
  "'cc crypto \<Rightarrow> (string \<Rightarrow> 're option) \<Rightarrow> ('u, 'h) system \<Rightarrow> ('u, 'h, 'j) http \<Rightarrow> 'j web \<Rightarrow> nat \<Rightarrow>
   (('u, 'h) panel_client \<Rightarrow> 'j wakeup list) \<Rightarrow> string list \<Rightarrow> 're backend result" where
  "run_program C re_new s H codecs now turns args =
     (case prepare s args of
        Inl e \<Rightarrow> Inl e
      | Inr (c, panel) \<Rightarrow>
          (case backend_run C re_new (client_web (sy_url s) H panel codecs) now (turns panel) (backend_new c now) of
             (_, Inl e) \<Rightarrow> Inl e
           | (b, Inr _) \<Rightarrow> Inr b))"

subsection \<open>Start-up\<close>

lemma config_path_spec:
  "config_path_from_args args =
     (case dropWhile (\<lambda>a. a \<noteq> ''--config'') args of flag # path # _ \<Rightarrow> path | _ \<Rightarrow> ''config.toml'')"
  by (induction args rule: config_path_from_args.induct) auto

text \<open>The panel is never asked for anything before the configuration is valid and the client built;
  the node keeps running only if the first user list arrived and was small enough and no interval is
  zero.\<close>

lemma program_runs:
  assumes "run_program C re_new s H codecs now turns args = Inr b"
  obtains c panel rows where
    "config_load (sy_read s) (sy_toml s) (sy_env s) (config_path_from_args args) = Inr c" "validate c = Inr ()"
    "panel_client_new (sy_url s) (sy_build s) (cfg_panel c) = Inr panel"
    "panel_users (client_web (sy_url s) H panel codecs) (pc_node_id (cfg_panel c)) = Inr rows"
    "length rows \<le> lc_max_users (cfg_limits c)" "run_intervals (cfg_panel c) \<noteq> Inl Panic" "br_active_users b = []"
proof -
  obtain c panel where p: "prepare s args = Inr (c, panel)"
    and r: "\<exists>u. backend_run C re_new (client_web (sy_url s) H panel codecs) now (turns panel) (backend_new c now) = (b, Inr u)"
    using assms by (auto simp: run_program_def split: sum.splits prod.splits)
  let ?w = "client_web (sy_url s) H panel codecs"
  let ?b0 = "refresh_detect_rules re_new ?w (backend_new c now)"
  have cfg: "br_config ?b0 = c" by (simp add: refresh_detect_rules_def backend_new_def split: sum.split)
  obtain b1 where sync: "sync_users C ?w now ?b0 = (b1, Inr ())"
    and run: "run_intervals (cfg_panel (br_config b1)) \<noteq> Inl Panic" "br_active_users b = []"
    using r by (auto simp: backend_run_def stop_all_def split: prod.splits sum.splits)
  from sync obtain rows where rows: "panel_users ?w (pc_node_id (cfg_panel c)) = Inr rows" "length rows \<le> lc_max_users (cfg_limits c)"
    and b1: "b1 = apply_users C now rows ?b0"
    by (auto simp: sync_users_def cfg split: sum.splits if_splits)
  have "br_config b1 = c" by (simp add: b1 apply_users_split sv_simps cfg)
  then show ?thesis using that p rows run by (auto simp: prepare_def split: sum.splits)
qed

end
