(* ===== verification/Spec2Isabelle.thy ===== *)
theory Spec2Isabelle
  imports Ssr_Cipher Ssr_Protocol_Props Relay_Target Ssr_Session_Props Reference_Client Shutdown Udp_Relay Node_Relays Program
begin

text \<open>
  A verification development for the SSPanel ShadowsocksR node backend, the Rust program under
  \<^verbatim>\<open>src/src\<close>.

  \<^bold>\<open>The program.\<close> A node serves ShadowsocksR clients on behalf of a web panel. The supervisor
  (\<^verbatim>\<open>runtime/supervisor.rs\<close>) polls the panel (\<^verbatim>\<open>panel.rs\<close>) for user rows, starts and stops one
  TCP and one UDP listener per port, publishes per-user tables (\<^verbatim>\<open>user_tables.rs\<close>) and reports
  traffic, online addresses and audit hits. A TCP listener (\<^verbatim>\<open>tcp.rs\<close>) accepts connections up to a
  number of permits; each connection decodes the client's stream with a session of the codec
  (\<^verbatim>\<open>ssr/\<close>: stream cipher, \<open>auth_aes128_md5\<close> packets, address header), takes a device slot, checks the
  user's policy (\<^verbatim>\<open>policy.rs\<close>), connects to the target and relays both ways under a rate limiter. A UDP
  listener (\<^verbatim>\<open>udp.rs\<close>) decodes datagrams, keeps one outbound socket per client and user in a bounded
  map (\<^verbatim>\<open>runtime/state.rs\<close>) and pumps replies back. Counters, device slots and limiters
  (\<^verbatim>\<open>traffic.rs\<close>) are shared objects, referred to by address; relay tasks send audit events
  (\<^verbatim>\<open>audit.rs\<close>) through a bounded channel.

  \<^bold>\<open>Theories and sources.\<close>
  \<^item> Vocabulary: \<open>SSR_Prelude\<close> (words, one error constructor per failure site, slices and
    endianness), \<open>Rust_Str\<close>, \<open>Rust_Net\<close>, \<open>Rust_HashMap\<close>, \<open>Rust_F64\<close> (the parts of the Rust library the
    sources use; a hash map is the list of its entries in iteration order, a double is the rational it
    denotes and every operation rounds to 53 bits).
  \<^item> Codec: \<open>Ssr_Kdf\<close>, \<open>Ssr_Rc4\<close>, \<open>Ssr_Cipher\<close>, \<open>Ssr_Address\<close>, \<open>Ssr_Protocol\<close>, \<open>Ssr_Session\<close> follow the
    files of \<^verbatim>\<open>ssr/\<close>; \<open>Ssr_Protocol_Props\<close>, \<open>Ssr_Session_Props\<close> and \<open>Ssr_Duplex\<close> prove them correct.
    \<open>Reference_Client\<close> is the client codec of the test module of \<^verbatim>\<open>ssr/mod.rs\<close>, run against the session.
  \<^item> Per-user state: \<open>Traffic\<close>, \<open>Conn_Ledger\<close>, \<open>Rate_Limiter\<close> (the three parts of \<^verbatim>\<open>traffic.rs\<close>),
    \<open>Bounded_Ttl_Map\<close> (\<^verbatim>\<open>runtime/state.rs\<close>), \<open>Policy\<close> and \<open>Detect_Audit\<close> (\<^verbatim>\<open>audit.rs\<close>).
  \<^item> Panel and configuration: \<open>Panel\<close>, \<open>Panel_Client\<close> (rows, envelope, endpoints), \<open>Panel_Http\<close> (the
    client and its URLs), \<open>Config\<close>, \<open>Config_Load\<close>, \<open>Program\<close> (\<^verbatim>\<open>main.rs\<close>).
  \<^item> Supervisor: \<open>Supervisor\<close> (\<open>BackendRuntime\<close> as the record \<open>backend\<close>, one definition per method, the
    arms of the \<open>select!\<close> loop as \<open>run_turn\<close>), \<open>Supervisor_Props\<close>, \<open>Supervisor_Runtime\<close>, \<open>Shutdown\<close>
    (\<open>shutdown_signal\<close> and the signals each iteration of the loop hears).
  \<^item> Relays: \<open>Relay_Target\<close> (resolving and connecting under a policy), \<open>Tcp\<close> (\<open>handle_stream\<close> as a
    state machine whose phases are its awaits: \<open>tcp_wake\<close>), \<open>Tcp_Inv\<close>, \<open>Tcp_Props\<close>, \<open>Tcp_Listener\<close> (the
    accept loop and its permits), \<open>Udp\<close> (\<open>handle_inbound\<close>, the associations and the reply pumps:
    \<open>udp_wake\<close>), \<open>Udp_Props\<close>, \<open>Udp_Relay\<close>.
  \<^item> The whole node: \<open>Tcp_Accounting\<close> and \<open>Relay_Task\<close> (what a woken task does to the shared state),
    \<open>Node\<close> (supervisor, listeners, connections and pumps woken in any order), \<open>Node_Props\<close>, \<open>Node_Runs\<close>,
    \<open>Node_Listeners\<close>, \<open>Node_Relays\<close> (each connection of the node is a run of \<open>handle_stream\<close> alone).

  \<^bold>\<open>Interfaces.\<close>
  \<^item> \<open>keystream_cipher\<close> (\<open>Keystream\<close>): a cipher that XORs a keystream. Interpreted by RC4 (\<open>rc4\<close>) and
    by the cipher enum (\<open>sc\<close>).
  \<^item> \<open>chunked_decoder\<close>, \<open>packet_stream\<close>, \<open>deciphering\<close> (\<open>Packet_Stream\<close>): decoders whose result does
    not depend on how the input is cut, obtained from a packet step and composed with a cipher.
    Interpreted by the protocol layer (\<open>auth_stream\<close>, \<open>auth_dec\<close>), its composition with the cipher
    (\<open>dec\<close>), the session (\<open>sess\<close>) and, in the same layers, the reference client (\<open>client_stream\<close>,
    \<open>client_unpacks\<close>, \<open>client_dec\<close>, \<open>client_rx\<close>).
  \<^item> \<open>arc_ledger\<close> (\<open>Arc_Ledger\<close>): one shared object per user, kept across polls. Interpreted by the
    three ledgers (\<open>traffic\<close>, \<open>conns\<close>, \<open>speeds\<close>).
  \<^item> \<open>ttl_store\<close> (\<open>Bounded_Ttl_Map\<close>): a bounded map with idle expiry, interpreted by the map of
    \<^verbatim>\<open>state.rs\<close> (\<open>tm\<close>).
  \<^item> \<open>relay_task\<close> (\<open>Relay_Task\<close>): the contract of a task towards the shared state, lifted to lists of
    tasks. Interpreted by a connection (\<open>conn_rt\<close>), a TCP listener (\<open>tcp_rt\<close>) and a UDP listener
    (\<open>udp_rt\<close>).

  \<^bold>\<open>What is shown.\<close>
  \<^item> Codec: the chunking of the TCP stream cannot be observed; a conforming client is decoded to its
    payload and attributed to its user, and only a checksum under the key of a user attributes to that user;
    the reference client and the server hold any conversation; datagrams round-trip; buffers are bounded; no \<open>expect\<close> fires; the address parser
    inverts the packer and decides within 259 bytes.
  \<^item> Relays: what the target receives is exactly the decoded client stream and vice versa, a prefix
    of it after any error; forbidden targets are not reached; datagrams are forwarded exactly for
    authenticated, permitted requests; associations are isolated and bounded.
  \<^item> State: bytes counted are reported exactly once over a reporting protocol with failures and
    concurrent counting, which every run of the supervisor refines; device caps, rate caps and map
    bounds hold; a limiter lets a waiting chunk through.
  \<^item> Supervisor: which listeners run after a poll, which are left alone, what the tables contain,
    what survives polls, what is reported, which signals end it.
  \<^item> Node: in every run of all components together, every reference is valid, the bytes billed are
    those the relays moved, device slots and permits follow the open connections, the listeners
    that accept are those of the active users, one per port, until a shutdown stops them, every
    connection is a faithful pipe, and a conforming client is served whatever else goes on.
  \<^item> Some theorems show behaviour that is not intended: an unknown user accepted under the IV, bytes
    of a removed user never reported, an association that is never renewed, a zero interval that
    validates, signals lost while the loop is busy.

  \<^bold>\<open>Modelling decisions.\<close>
  \<^item> Crates are parameters: \<open>crypto\<close> (MD5, HMAC, base64, ChaCha20), random bytes, regular expressions,
    the URL and HTTP client, JSON and TOML decoding. What proofs need of them is named where it is used:
    \<open>crypto_ok\<close> says that digests have their length and that ChaCha20 XORs a keystream, and
    \<open>sample_crypto\<close> satisfies it. Sockets, the resolver, the environment and the clock are arguments,
    so every theorem holds for all their answers.
  \<^item> A task runs from one await to the next without interruption; what it waited for is an event.
    Between any two wakes of one task all others may run, and in the theorems on single relays the
    shared state may be changed arbitrarily in between. Within the node a turn of the supervisor is
    one step, except that a traffic report is split at its request.
  \<^item> Panics are the error \<open>Panic\<close>. Machine integers keep their width; lengths are \<open>nat\<close>. A shared
    object is an index into an arena that only grows.
  \<^item> The derivation loop of \<open>evp_bytes_to_key\<close> has as many rounds of fuel as the key has bytes; each
    round yields 16 bytes, so this is enough. All other recursions are structural or on a list of
    events.
  \<^item> Logs that the program does not keep (\<open>ul_sent\<close>, \<open>ul_charged\<close>, \<open>tc_client_read\<close>, \<open>nd_accepted\<close> and
    the like) record what was done, for the theorems to refer to; no decision reads them.

  \<^bold>\<open>Not modelled.\<close> TLS, HTTP, JSON and TOML as text; the logging subscriber; the non-unix variant of
  \<open>shutdown_signal\<close>, and the death of the process by a signal without a handler; IPv6 scope ids in
  printed addresses; the two-second wait for a stopped listener task; the unit tests (fixed inputs; the
  client they use is modelled); installer, service unit and packaging.
\<close>

end
